(* ===== verification/Prelude.thy ===== *)
theory Prelude
  imports Main "HOL-Library.Word"
begin

text \<open>The vocabulary every component of the development shares: the machine integer types of the
C code, the portable error codes (\<^verbatim>\<open>osal_err_t\<close>, of which \<^verbatim>\<open>esp_rmaker_error_t\<close> is an alias), memory
copies into a byte buffer (\<^verbatim>\<open>memcpy\<close> at an offset), the little-endian layout of the integers the code
copies through buffers, and the lemmas on lists and words that the component proofs rest on.\<close>

unbundle bit_operations_syntax

section \<open>Machine types\<close>

type_synonym u8 = "8 word"
type_synonym u16 = "16 word"
type_synonym u32 = "32 word"
type_synonym u64 = "64 word"
type_synonym byte = "8 word"

section \<open>Error codes\<close>

text \<open>The values of \<^verbatim>\<open>osal_err_values.h\<close>, in its order.\<close>

datatype err =
    ERR_FAIL | ERR_OK | ERR_NO_MEM | ERR_INVALID_ARG | ERR_INVALID_STATE | ERR_TIMEOUT
  | ERR_NOT_FOUND | ERR_NOT_SUPPORTED | ERR_INVALID_RESPONSE | ERR_INVALID_SIZE | ERR_NOT_FINISHED
  | ERR_HTTP_CONNECTION_FAILED
  | ERR_MQTT_SEND_FAILED | ERR_MQTT_RECV_FAILED | ERR_MQTT_BAD_RESPONSE | ERR_MQTT_SERVER_REFUSED
  | ERR_MQTT_NO_DATA_AVAILABLE | ERR_MQTT_STATE_COLLISION | ERR_MQTT_KEEP_ALIVE_TIMEOUT
  | ERR_MQTT_NEED_MORE_BYTES | ERR_MQTT_NOT_CONNECTED
  | ERR_NVS_NOT_INITIALIZED | ERR_NVS_PARTITION_NOT_FOUND | ERR_NVS_NAMESPACE_NOT_FOUND
  | ERR_NVS_KEY_NOT_FOUND
  | ERR_OTA_INVALID_SIZE | ERR_OTA_PARTITION_CONFLICT | ERR_OTA_SELECT_INFO_INVALID
  | ERR_OTA_VALIDATE_FAILED | ERR_OTA_SMALL_SEC_VER | ERR_OTA_ROLLBACK_FAILED
  | ERR_OTA_ROLLBACK_INVALID_STATE
  | ERR_RMAKER_NOT_INITIALIZED | ERR_RMAKER_ALREADY_INITIALIZED | ERR_RMAKER_NOT_CONNECTED
  | ERR_RMAKER_ALREADY_CONNECTED | ERR_RMAKER_NOT_DISCONNECTED | ERR_RMAKER_ALREADY_EXISTS

section \<open>Outcomes of loops\<close>

text \<open>A loop returns, performs an operation that C leaves undefined, or is still running when the fuel
it was given is used up.\<close>

datatype 'a outcome = Returned 'a | Crashed | Running

definition obind :: "'a outcome \<Rightarrow> ('a \<Rightarrow> 'b outcome) \<Rightarrow> 'b outcome" where
  "obind r f = (case r of Returned x \<Rightarrow> f x | Crashed \<Rightarrow> Crashed | Running \<Rightarrow> Running)"

lemma obind_simps [simp]:
  "obind (Returned x) f = f x" "obind Crashed f = Crashed" "obind Running f = Running"
  by (simp_all add: obind_def)

text \<open>A read of one byte; outside the object it reads from, C leaves it undefined.\<close>

definition read_at :: "'a list \<Rightarrow> nat \<Rightarrow> 'a outcome" where
  "read_at buf i = (if i < length buf then Returned (buf ! i) else Crashed)"

lemma read_at_in [simp]: "i < length buf \<Longrightarrow> read_at buf i = Returned (buf ! i)"
  by (simp add: read_at_def)

section \<open>Collections\<close>

named_theorems inv_intros \<open>introduction rules for the invariants of the components\<close>
named_theorems codec_simps \<open>equations of the encoders and decoders\<close>

lemma find_SomeD: "List.find P xs = Some x \<Longrightarrow> x \<in> set xs \<and> P x"
  by (auto simp: find_Some_iff)

section \<open>Memory copies\<close>

text \<open>\<^verbatim>\<open>memcpy(buf + off, bs, n)\<close> with \<^verbatim>\<open>n\<close> the length of \<^verbatim>\<open>bs\<close>, and the read of \<^verbatim>\<open>n\<close> bytes at \<^verbatim>\<open>buf + off\<close>.\<close>

definition mem_write :: "'a list \<Rightarrow> nat \<Rightarrow> 'a list \<Rightarrow> 'a list" where
  "mem_write buf off bs = take off buf @ bs @ drop (off + length bs) buf"

definition mem_read :: "'a list \<Rightarrow> nat \<Rightarrow> nat \<Rightarrow> 'a list" where
  "mem_read buf off n = take n (drop off buf)"

lemma length_mem_write [simp]:
  "off + length bs \<le> length buf \<Longrightarrow> length (mem_write buf off bs) = length buf"
  by (simp add: mem_write_def)

lemma length_mem_read [simp]: "off + n \<le> length buf \<Longrightarrow> length (mem_read buf off n) = n"
  by (simp add: mem_read_def)

lemma mem_read_write_same [simp]:
  "off + length bs \<le> length buf \<Longrightarrow> n = length bs \<Longrightarrow> mem_read (mem_write buf off bs) off n = bs"
  by (simp add: mem_read_def mem_write_def)

lemma nth_mem_write:
  assumes "off + length bs \<le> length buf" "i < length buf"
  shows "mem_write buf off bs ! i =
    (if i < off then buf ! i else if i < off + length bs then bs ! (i - off) else buf ! i)"
  using assms by (auto simp: mem_write_def nth_append)

lemma mem_read_write_other:
  assumes "off + length bs \<le> length buf" "off' + n \<le> length buf"
    and "off' + n \<le> off \<or> off + length bs \<le> off'"
  shows "mem_read (mem_write buf off bs) off' n = mem_read buf off' n"
  by (rule nth_equalityI) (use assms in \<open>auto simp: mem_read_def nth_mem_write\<close>)

text \<open>Slots of equal size: slot \<^verbatim>\<open>i\<close> of size \<^verbatim>\<open>w\<close> lies at offset \<^verbatim>\<open>i * w\<close>.\<close>

lemma slot_fits: "i < n \<Longrightarrow> i * w + w \<le> n * (w::nat)"
  by (metis Suc_leI add.commute mult_Suc mult_le_mono1)

lemma slot_read_write_other:
  assumes "i < n" "j < n" "i \<noteq> j" "length bs = w" "length buf = n * w"
  shows "mem_read (mem_write buf (i * w) bs) (j * w) w = mem_read buf (j * w) w"
proof (rule mem_read_write_other)
  show "i * w + length bs \<le> length buf" using slot_fits [OF assms(1)] assms by simp
  show "j * w + w \<le> length buf" using slot_fits [OF assms(2)] assms by simp
  show "j * w + w \<le> i * w \<or> i * w + length bs \<le> j * w"
    using assms slot_fits [of j i w] slot_fits [of i j w] by (cases "i < j") auto
qed

section \<open>Words\<close>

lemma unat_add_one_lt:
  fixes x y :: "'a::len word"
  assumes "x < y" shows "unat (x + 1) = unat x + 1"
proof -
  have "unat x + 1 < 2 ^ LENGTH('a)"
  proof -
    have "unat y < 2 ^ LENGTH('a)" by (rule unsigned_less)
    then show ?thesis using assms [unfolded word_less_nat_alt] by linarith
  qed
  then show ?thesis by (simp add: unat_word_ariths)
qed

lemma unat_inc_mod:
  fixes x c :: "'a::len word"
  assumes "x < c" shows "unat ((x + 1) mod c) = (unat x + 1) mod unat c"
  using unat_add_one_lt [OF assms] by (simp add: unat_mod)

lemma unat_sub_one: "0 < x \<Longrightarrow> unat (x - 1) = unat x - 1" for x :: "'a::len word"
proof -
  assume "0 < x"
  then have "1 \<le> unat x" by (simp add: word_less_nat_alt)
  then have "1 \<le> x" by (simp add: word_le_nat_alt)
  then show ?thesis by (simp add: unat_sub)
qed

section \<open>Little-endian bytes\<close>

text \<open>The bytes of an integer as the code's \<^verbatim>\<open>memcpy\<close> of a struct lays them out.\<close>

primrec le_bytes :: "nat \<Rightarrow> 'a::len word \<Rightarrow> byte list" where
  "le_bytes 0 w = []"
| "le_bytes (Suc n) w = ucast w # le_bytes n (drop_bit 8 w)"

primrec of_le_bytes :: "byte list \<Rightarrow> 'a::len word" where
  "of_le_bytes [] = 0"
| "of_le_bytes (b # bs) = ucast b OR push_bit 8 (of_le_bytes bs)"

lemma length_le_bytes [simp]: "length (le_bytes n w) = n"
  by (induction n arbitrary: w) simp_all

lemma of_le_bytes_le_bytes: "of_le_bytes (le_bytes n w) = take_bit (8 * n) w"
proof (induction n arbitrary: w)
  case (Suc n)
  have "ucast (ucast w :: byte) OR push_bit 8 (take_bit (8 * n) (drop_bit 8 w)) = take_bit (8 * Suc n) w"
    by (rule bit_eqI) (auto simp: bit_simps)
  then show ?case by (simp add: Suc.IH)
qed simp

lemma of_le_bytes_le_bytes_full [codec_simps, simp]:
  fixes w :: "'a::len word"
  assumes "LENGTH('a) \<le> 8 * n"
  shows "of_le_bytes (le_bytes n w) = w"
  using assms by (simp add: of_le_bytes_le_bytes take_bit_word_eq_self)

section \<open>Iterated steps\<close>

text \<open>A step that keeps \<open>I\<close> and lowers a measure until \<open>D\<close> holds reaches \<open>D\<close> within the measure.\<close>

lemma funpow_reaches:
  fixes m :: "'s \<Rightarrow> nat"
  assumes "I s" and "\<And>t. I t \<Longrightarrow> \<not> D t \<Longrightarrow> I (f t) \<and> m (f t) < m t"
  shows "\<exists>n \<le> m s. D ((f ^^ n) s) \<and> I ((f ^^ n) s)"
  using assms(1)
proof (induction "m s" arbitrary: s rule: less_induct)
  case less
  show ?case
  proof (cases "D s")
    case True
    then show ?thesis using less.prems by (intro exI [of _ 0]) simp
  next
    case False
    then have "I (f s)" "m (f s) < m s" using assms(2) less.prems by blast+
    from less.hyps [OF this(2,1)] obtain n where
      "n \<le> m (f s)" "D ((f ^^ n) (f s))" "I ((f ^^ n) (f s))" by blast
    then show ?thesis
      using \<open>m (f s) < m s\<close> by (intro exI [of _ "Suc n"]) (simp add: funpow_swap1)
  qed
qed

end
