(* ===== verification/Osal_Queue.thy ===== *)
theory Osal_Queue
  imports Prelude
begin

text \<open>The POSIX queue of the platform layer, \<^verbatim>\<open>osal/platform/src/posix/queue_posix.c\<close>: a ring buffer of
fixed-size items in a byte array, guarded by a mutex, with blocking and timed sends and receives.

A condition variable wait releases the mutex, so other threads may change the queue before the wait
returns. A call that waits is therefore given the list of the wake-ups it sees: the return code of
the wait and the queue as the other threads left it. A list that ends while the call still waits
means that the call has not returned. The mutex, the clock and the heap are arguments too.

The refinement to a bounded list is the locale \<open>bounded_fifo\<close>, interpreted on the ring buffer; the
clients of the queue (the work queue, the OTA event queue) use its lemmas only.\<close>

section \<open>State\<close>

record posix_queue =
  q_buffer :: "byte list"
  q_capacity :: u32
  q_item_size :: u32
  q_count :: u32
  q_head :: u32
  q_tail :: u32

definition OSAL_MAX_DELAY :: u32 where "OSAL_MAX_DELAY = - 1"

section \<open>Timeouts\<close>

text \<open>The absolute deadline of a timed wait; \<open>now\<close> is the clock's answer, seconds and nanoseconds.\<close>

definition timespec_from_now_ms :: "(int \<times> u64) option \<Rightarrow> u32 \<Rightarrow> (int \<times> u64) option" where
  "timespec_from_now_ms now wait_ms = (case now of
     None \<Rightarrow> None
   | Some (tv_sec, tv_nsec) \<Rightarrow>
      (let nsec_total = tv_nsec + ucast (wait_ms mod 1000) * 1000000
       in Some (tv_sec + uint (wait_ms div 1000) + uint (nsec_total div 1000000000),
                nsec_total mod 1000000000)))"

datatype cond_rc = RC_OK | RC_ETIMEDOUT | RC_OTHER

type_synonym wakes = "(cond_rc \<times> posix_queue) list"

fun cond_timedwait_while :: "(posix_queue \<Rightarrow> bool) \<Rightarrow> posix_queue \<Rightarrow> wakes \<Rightarrow> (err \<times> posix_queue) option" where
  "cond_timedwait_while P q ws =
     (if \<not> P q then Some (ERR_OK, q)
      else (case ws of
              [] \<Rightarrow> None
            | (rc, q') # ws' \<Rightarrow>
                (case rc of
                   RC_ETIMEDOUT \<Rightarrow> Some (ERR_TIMEOUT, q')
                 | RC_OTHER \<Rightarrow> Some (ERR_FAIL, q')
                 | RC_OK \<Rightarrow> cond_timedwait_while P q' ws')))"

fun cond_wait_while :: "(posix_queue \<Rightarrow> bool) \<Rightarrow> posix_queue \<Rightarrow> wakes \<Rightarrow> (err \<times> posix_queue) option" where
  "cond_wait_while P q ws =
     (if \<not> P q then Some (ERR_OK, q)
      else (case ws of [] \<Rightarrow> None | (_, q') # ws' \<Rightarrow> cond_wait_while P q' ws'))"

declare cond_timedwait_while.simps [simp del] cond_wait_while.simps [simp del]

text \<open>The wait at the head of the three blocking calls: no wait at all, a wait with a deadline, or a
wait for ever. \<open>ERR_OK\<close> means that the awaited condition holds.\<close>

definition queue_wait ::
  "(posix_queue \<Rightarrow> bool) \<Rightarrow> (int \<times> u64) option \<Rightarrow> (u32 \<Rightarrow> u32) \<Rightarrow> u32 \<Rightarrow> wakes \<Rightarrow> posix_queue \<Rightarrow> (err \<times> posix_queue) option" where
  "queue_wait P now ms_from_ticks ticks ws q =
     (if ticks = 0 then (if P q then Some (ERR_TIMEOUT, q) else Some (ERR_OK, q))
      else if ticks \<noteq> OSAL_MAX_DELAY then
        (case timespec_from_now_ms now (ms_from_ticks ticks) of
           None \<Rightarrow> Some (ERR_FAIL, q)
         | Some abstime \<Rightarrow> cond_timedwait_while P q ws)
      else cond_wait_while P q ws)"

section \<open>Operations\<close>

definition osal_queue_create ::
  "bool \<Rightarrow> (nat \<Rightarrow> byte list option) \<Rightarrow> bool \<Rightarrow> bool \<Rightarrow> bool \<Rightarrow> u32 \<Rightarrow> u32 \<Rightarrow> posix_queue option" where
  "osal_queue_create calloc_ok malloc mutex_ok not_empty_ok not_full_ok queue_length item_size =
     (if queue_length = 0 \<or> item_size = 0 then None
      else if \<not> calloc_ok then None
      else (case malloc (unat queue_length * unat item_size) of
              None \<Rightarrow> None
            | Some mem \<Rightarrow>
                if \<not> mutex_ok \<or> \<not> not_empty_ok \<or> \<not> not_full_ok then None
                else Some \<lparr>q_buffer = mem, q_capacity = queue_length, q_item_size = item_size,
                           q_count = 0, q_head = 0, q_tail = 0\<rparr>))"

definition queue_full :: "posix_queue \<Rightarrow> bool" where
  "queue_full q \<longleftrightarrow> q_count q = q_capacity q"

definition queue_empty :: "posix_queue \<Rightarrow> bool" where
  "queue_empty q \<longleftrightarrow> q_count q = 0"

definition queue_put :: "byte list \<Rightarrow> posix_queue \<Rightarrow> posix_queue" where
  "queue_put item q =
     q\<lparr>q_buffer := mem_write (q_buffer q) (unat (q_tail q) * unat (q_item_size q)) (take (unat (q_item_size q)) item),
       q_tail := (q_tail q + 1) mod q_capacity q,
       q_count := q_count q + 1\<rparr>"

definition queue_front :: "posix_queue \<Rightarrow> byte list" where
  "queue_front q = mem_read (q_buffer q) (unat (q_head q) * unat (q_item_size q)) (unat (q_item_size q))"

definition queue_drop :: "posix_queue \<Rightarrow> posix_queue" where
  "queue_drop q = q\<lparr>q_head := (q_head q + 1) mod q_capacity q, q_count := q_count q - 1\<rparr>"

definition osal_queue_send ::
  "bool \<Rightarrow> (int \<times> u64) option \<Rightarrow> (u32 \<Rightarrow> u32) \<Rightarrow> wakes \<Rightarrow> posix_queue option \<Rightarrow> byte list option \<Rightarrow> u32
     \<Rightarrow> (err \<times> posix_queue option) option" where
  "osal_queue_send lock_ok now ms_from_ticks ws handle item_to_queue ticks =
     (case (handle, item_to_queue) of
        (Some q, Some item) \<Rightarrow>
          if \<not> lock_ok then Some (ERR_FAIL, handle)
          else (case queue_wait queue_full now ms_from_ticks ticks ws q of
                  None \<Rightarrow> None
                | Some (e, q') \<Rightarrow>
                    if e = ERR_OK then Some (ERR_OK, Some (queue_put item q'))
                    else Some (e, Some q'))
      | _ \<Rightarrow> Some (ERR_FAIL, handle))"

text \<open>The receiving calls return the bytes they copy into the caller's buffer, \<open>None\<close> when they copy
nothing; \<open>buffer_ok\<close> says that the caller's buffer is not \<^verbatim>\<open>NULL\<close>.\<close>

definition osal_queue_receive ::
  "bool \<Rightarrow> (int \<times> u64) option \<Rightarrow> (u32 \<Rightarrow> u32) \<Rightarrow> wakes \<Rightarrow> posix_queue option \<Rightarrow> bool \<Rightarrow> u32
     \<Rightarrow> (err \<times> byte list option \<times> posix_queue option) option" where
  "osal_queue_receive lock_ok now ms_from_ticks ws handle buffer_ok ticks =
     (case handle of
        None \<Rightarrow> Some (ERR_FAIL, None, handle)
      | Some q \<Rightarrow>
          if \<not> buffer_ok then Some (ERR_FAIL, None, handle)
          else if \<not> lock_ok then Some (ERR_FAIL, None, handle)
          else (case queue_wait queue_empty now ms_from_ticks ticks ws q of
                  None \<Rightarrow> None
                | Some (e, q') \<Rightarrow>
                    if e = ERR_OK then Some (ERR_OK, Some (queue_front q'), Some (queue_drop q'))
                    else Some (e, None, Some q')))"

definition osal_queue_peek ::
  "bool \<Rightarrow> (int \<times> u64) option \<Rightarrow> (u32 \<Rightarrow> u32) \<Rightarrow> wakes \<Rightarrow> posix_queue option \<Rightarrow> bool \<Rightarrow> u32
     \<Rightarrow> (err \<times> byte list option \<times> posix_queue option) option" where
  "osal_queue_peek lock_ok now ms_from_ticks ws handle buffer_ok ticks =
     (case handle of
        None \<Rightarrow> Some (ERR_FAIL, None, handle)
      | Some q \<Rightarrow>
          if \<not> buffer_ok then Some (ERR_FAIL, None, handle)
          else if \<not> lock_ok then Some (ERR_FAIL, None, handle)
          else (case queue_wait queue_empty now ms_from_ticks ticks ws q of
                  None \<Rightarrow> None
                | Some (e, q') \<Rightarrow>
                    if e = ERR_OK then Some (ERR_OK, Some (queue_front q'), Some q')
                    else Some (e, None, Some q')))"

section \<open>Well-formedness and the abstract contents\<close>

definition q_wf :: "posix_queue \<Rightarrow> bool" where
  "q_wf q \<longleftrightarrow> 0 < q_capacity q \<and> 0 < q_item_size q \<and> q_head q < q_capacity q
     \<and> q_count q \<le> q_capacity q
     \<and> unat (q_tail q) = (unat (q_head q) + unat (q_count q)) mod unat (q_capacity q)
     \<and> length (q_buffer q) = unat (q_capacity q) * unat (q_item_size q)"

definition q_slot :: "posix_queue \<Rightarrow> nat \<Rightarrow> byte list" where
  "q_slot q i = mem_read (q_buffer q) (i * unat (q_item_size q)) (unat (q_item_size q))"

definition q_items :: "posix_queue \<Rightarrow> byte list list" where
  "q_items q = map (\<lambda>k. q_slot q ((unat (q_head q) + k) mod unat (q_capacity q))) [0..<unat (q_count q)]"

abbreviation q_cap :: "posix_queue \<Rightarrow> nat" where "q_cap q \<equiv> unat (q_capacity q)"

lemma length_q_items [simp]: "length (q_items q) = unat (q_count q)"
  by (simp add: q_items_def)

lemma queue_full_iff: "queue_full q \<longleftrightarrow> length (q_items q) = q_cap q"
  by (simp add: queue_full_def word_unat_eq_iff)

lemma queue_empty_iff: "queue_empty q \<longleftrightarrow> q_items q = []"
  by (simp add: queue_empty_def unat_eq_0 flip: length_0_conv)

lemma add_mod_eq_iff:
  assumes "h < c" "i < c" "j < (c::nat)"
  shows "(h + i) mod c = (h + j) mod c \<longleftrightarrow> i = j"
  using assms by (auto simp: mod_if split: if_splits)

lemma q_wf_put [inv_intros]:
  assumes "q_wf q" "\<not> queue_full q" "length item = unat (q_item_size q)"
  shows "q_wf (queue_put item q)"
proof -
  have lt: "q_count q < q_capacity q" and tail: "q_tail q < q_capacity q"
    using assms by (auto simp: q_wf_def queue_full_def word_less_nat_alt word_le_nat_alt word_unat_eq_iff)
  have "unat (q_tail q) * unat (q_item_size q) + length item \<le> length (q_buffer q)"
    using tail assms slot_fits [of "unat (q_tail q)" "q_cap q" "unat (q_item_size q)"]
    by (simp add: q_wf_def word_less_nat_alt)
  then show ?thesis
    using assms lt tail unat_add_one_lt [OF lt] unat_inc_mod [OF tail]
    by (simp add: q_wf_def queue_put_def word_le_nat_alt word_less_nat_alt mod_simps)
qed

lemma q_items_put:
  assumes "q_wf q" "\<not> queue_full q" "length item = unat (q_item_size q)"
  shows "q_items (queue_put item q) = q_items q @ [item]"
proof -
  let ?c = "q_cap q" and ?n = "unat (q_count q)" and ?h = "unat (q_head q)" and ?w = "unat (q_item_size q)"
  have lt: "q_count q < q_capacity q" and h: "?h < ?c"
    using assms by (auto simp: q_wf_def queue_full_def word_less_nat_alt word_le_nat_alt word_unat_eq_iff)
  have n: "?n < ?c" using lt by (simp add: word_less_nat_alt)
  have t: "unat (q_tail q) = (?h + ?n) mod ?c" and b: "length (q_buffer q) = ?c * ?w"
    using assms by (auto simp: q_wf_def)
  have old: "q_slot (queue_put item q) ((?h + k) mod ?c) = q_slot q ((?h + k) mod ?c)" if "k < ?n" for k
  proof -
    have "(?h + ?n) mod ?c \<noteq> (?h + k) mod ?c" using add_mod_eq_iff [OF h n] that n by auto
    moreover have "(?h + ?n) mod ?c < ?c" "(?h + k) mod ?c < ?c" using n by auto
    ultimately show ?thesis
      using slot_read_write_other [of "(?h + ?n) mod ?c" ?c "(?h + k) mod ?c" item ?w "q_buffer q"] b t assms(3)
      by (simp add: q_slot_def queue_put_def)
  qed
  have new: "q_slot (queue_put item q) ((?h + ?n) mod ?c) = item"
    using slot_fits [of "(?h + ?n) mod ?c" ?c ?w] n b t assms(3)
    by (simp add: q_slot_def queue_put_def)
  have "q_items (queue_put item q) = map (\<lambda>k. q_slot (queue_put item q) ((?h + k) mod ?c)) [0..<Suc ?n]"
    using unat_add_one_lt [OF lt] by (simp add: q_items_def queue_put_def)
  also have "\<dots> = q_items q @ [item]" using old new by (simp add: q_items_def)
  finally show ?thesis .
qed

lemma q_front_items:
  assumes "q_wf q" "\<not> queue_empty q"
  shows "q_items q = queue_front q # q_items (queue_drop q)"
proof -
  let ?c = "q_cap q" and ?n = "unat (q_count q)" and ?h = "unat (q_head q)"
  have h: "?h < ?c" using assms by (simp add: q_wf_def word_less_nat_alt)
  obtain m where m: "?n = Suc m" using assms by (metis queue_empty_def unat_eq_zero not0_implies_Suc)
  have "0 < q_count q" using m by (simp add: word_less_nat_alt)
  then have cnt: "unat (q_count q - 1) = m" using m unat_sub_one by fastforce
  have hd: "unat ((q_head q + 1) mod q_capacity q) = (?h + 1) mod ?c"
    using assms by (intro unat_inc_mod) (simp add: q_wf_def)
  have "q_items (queue_drop q) = map (\<lambda>k. q_slot q ((?h + 1 + k) mod ?c)) [0..<m]"
    using cnt hd by (simp add: q_items_def queue_drop_def q_slot_def mod_simps)
  moreover have "q_items q = q_slot q (?h mod ?c) # map (\<lambda>k. q_slot q ((?h + Suc k) mod ?c)) [0..<m]"
    by (simp add: q_items_def m map_upt_Suc del: upt_Suc)
  moreover have "queue_front q = q_slot q (?h mod ?c)" using h by (simp add: queue_front_def q_slot_def)
  ultimately show ?thesis by simp
qed

lemma q_wf_drop [inv_intros]:
  assumes "q_wf q" "\<not> queue_empty q" shows "q_wf (queue_drop q)"
proof -
  have pos: "0 < q_count q" using assms by (simp add: queue_empty_def word_neq_0_conv)
  have hd: "unat ((q_head q + 1) mod q_capacity q) = (unat (q_head q) + 1) mod q_cap q"
    using assms by (intro unat_inc_mod) (simp add: q_wf_def)
  obtain m where m: "unat (q_count q) = Suc m"
    using pos by (metis word_less_nat_alt unat_0 gr0_implies_Suc)
  then show ?thesis
    using assms unat_sub_one [OF pos] hd
    by (simp add: q_wf_def queue_drop_def word_less_nat_alt word_le_nat_alt mod_simps)
qed

lemma q_fields_put [simp]:
  "q_capacity (queue_put item q) = q_capacity q" "q_item_size (queue_put item q) = q_item_size q"
  by (simp_all add: queue_put_def)

lemma q_fields_drop [simp]:
  "q_capacity (queue_drop q) = q_capacity q" "q_item_size (queue_drop q) = q_item_size q"
  by (simp_all add: queue_drop_def)

lemma q_items_length_le: "q_wf q \<Longrightarrow> length (q_items q) \<le> q_cap q"
  by (simp add: q_wf_def word_le_nat_alt)

lemma q_wf_create:
  assumes "osal_queue_create calloc_ok malloc m e f n w = Some q"
    and "\<And>k mem. malloc k = Some mem \<Longrightarrow> length mem = k"
  shows "q_wf q \<and> q_items q = [] \<and> q_capacity q = n \<and> q_item_size q = w"
proof -
  obtain mem where "malloc (unat n * unat w) = Some mem" "n \<noteq> 0" "w \<noteq> 0"
    and q: "q = \<lparr>q_buffer = mem, q_capacity = n, q_item_size = w, q_count = 0, q_head = 0, q_tail = 0\<rparr>"
    using assms(1) by (auto simp: osal_queue_create_def split: if_splits option.splits)
  then show ?thesis
    using assms(2) by (simp add: q_wf_def q_items_def word_neq_0_conv)
qed

section \<open>The interface the clients use\<close>

text \<open>The calls that do not wait, on a live handle.\<close>

definition queue_try_send :: "byte list \<Rightarrow> posix_queue \<Rightarrow> err \<times> posix_queue" where
  "queue_try_send item q =
     (case osal_queue_send True None id [] (Some q) (Some item) 0 of
        Some (e, Some q') \<Rightarrow> (e, q')
      | _ \<Rightarrow> (ERR_FAIL, q))"

definition queue_try_receive :: "posix_queue \<Rightarrow> err \<times> byte list option \<times> posix_queue" where
  "queue_try_receive q =
     (case osal_queue_receive True None id [] (Some q) True 0 of
        Some (e, out, Some q') \<Rightarrow> (e, out, q')
      | _ \<Rightarrow> (ERR_FAIL, None, q))"

lemma queue_try_send_eq:
  "queue_try_send item q = (if queue_full q then (ERR_TIMEOUT, q) else (ERR_OK, queue_put item q))"
  by (simp add: queue_try_send_def osal_queue_send_def queue_wait_def)

lemma queue_try_receive_eq:
  "queue_try_receive q =
     (if queue_empty q then (ERR_TIMEOUT, None, q) else (ERR_OK, Some (queue_front q), queue_drop q))"
  by (simp add: queue_try_receive_def osal_queue_receive_def queue_wait_def)

text \<open>Receiving until nothing is left, as the clients' loops do; \<open>None\<close> when the fuel runs out.\<close>

fun drain :: "('q \<Rightarrow> err \<times> 'i option \<times> 'q) \<Rightarrow> nat \<Rightarrow> 'q \<Rightarrow> ('i list \<times> 'q) option" where
  "drain recv 0 q = None"
| "drain recv (Suc n) q =
     (case recv q of
        (ERR_OK, Some x, q') \<Rightarrow> map_option (apfst ((#) x)) (drain recv n q')
      | (_, _, q') \<Rightarrow> Some ([], q'))"

datatype 'i qop = Put 'i | Get

text \<open>A sequence of sends and receives, with the answers it gives, on an implementation and on the
specification: a list that holds at most \<open>c\<close> items.\<close>

fun run_ops :: "('i \<Rightarrow> 'q \<Rightarrow> err \<times> 'q) \<Rightarrow> ('q \<Rightarrow> err \<times> 'i option \<times> 'q) \<Rightarrow> 'i qop list \<Rightarrow> 'q
    \<Rightarrow> (err \<times> 'i option) list \<times> 'q" where
  "run_ops send recv [] q = ([], q)"
| "run_ops send recv (Put x # ops) q =
     (case send x q of (e, q') \<Rightarrow> apfst ((#) (e, None)) (run_ops send recv ops q'))"
| "run_ops send recv (Get # ops) q =
     (case recv q of (e, y, q') \<Rightarrow> apfst ((#) (e, y)) (run_ops send recv ops q'))"

definition spec_send :: "nat \<Rightarrow> 'i \<Rightarrow> 'i list \<Rightarrow> err \<times> 'i list" where
  "spec_send c x xs = (if length xs < c then (ERR_OK, xs @ [x]) else (ERR_TIMEOUT, xs))"

definition spec_recv :: "'i list \<Rightarrow> err \<times> 'i option \<times> 'i list" where
  "spec_recv xs = (case xs of [] \<Rightarrow> (ERR_TIMEOUT, None, []) | x # xs' \<Rightarrow> (ERR_OK, Some x, xs'))"

locale bounded_fifo =
  fixes send :: "'i \<Rightarrow> 'q \<Rightarrow> err \<times> 'q"
    and recv :: "'q \<Rightarrow> err \<times> 'i option \<times> 'q"
    and items :: "'q \<Rightarrow> 'i list"
    and cap :: "'q \<Rightarrow> nat"
    and inv :: "'q \<Rightarrow> bool"
    and fits :: "'i \<Rightarrow> bool"
  assumes within: "inv q \<Longrightarrow> length (items q) \<le> cap q"
    and send_full: "inv q \<Longrightarrow> length (items q) = cap q \<Longrightarrow> send x q = (ERR_TIMEOUT, q)"
    and send_room: "inv q \<Longrightarrow> fits x \<Longrightarrow> length (items q) < cap q \<Longrightarrow>
          \<exists>q'. send x q = (ERR_OK, q') \<and> inv q' \<and> items q' = items q @ [x] \<and> cap q' = cap q"
    and recv_empty: "inv q \<Longrightarrow> items q = [] \<Longrightarrow> recv q = (ERR_TIMEOUT, None, q)"
    and recv_some: "inv q \<Longrightarrow> items q = x # xs \<Longrightarrow>
          \<exists>q'. recv q = (ERR_OK, Some x, q') \<and> inv q' \<and> items q' = xs \<and> cap q' = cap q"
begin

lemma send_spec:
  assumes "inv q" "fits x"
  obtains e q' where "send x q = (e, q')" "inv q'" "cap q' = cap q"
    "spec_send (cap q) x (items q) = (e, items q')"
proof (cases "length (items q) < cap q")
  case True
  then show thesis using send_room [OF assms True] that by (auto simp: spec_send_def)
next
  case False
  with within [OF assms(1)] have "length (items q) = cap q" by simp
  then show thesis using send_full [OF assms(1)] that assms by (auto simp: spec_send_def)
qed

lemma recv_spec:
  assumes "inv q"
  obtains e y q' where "recv q = (e, y, q')" "inv q'" "cap q' = cap q"
    "spec_recv (items q) = (e, y, items q')"
proof (cases "items q")
  case Nil
  then show thesis using recv_empty [OF assms Nil] that assms by (auto simp: spec_recv_def)
next
  case (Cons x xs)
  then show thesis using recv_some [OF assms Cons] that by (auto simp: spec_recv_def)
qed

lemma run_ops_spec:
  assumes "inv q" "\<forall>x. Put x \<in> set ops \<longrightarrow> fits x"
  shows "\<exists>q'. run_ops send recv ops q = (fst (run_ops (spec_send (cap q)) spec_recv ops (items q)), q')
    \<and> inv q' \<and> cap q' = cap q
    \<and> items q' = snd (run_ops (spec_send (cap q)) spec_recv ops (items q))"
  using assms
proof (induction ops arbitrary: q)
  case (Cons op ops)
  show ?case
  proof (cases op)
    case (Put x)
    then obtain e q1 where "send x q = (e, q1)" "inv q1" "cap q1 = cap q"
      "spec_send (cap q) x (items q) = (e, items q1)"
      using Cons.prems send_spec [of q x] by auto
    then show ?thesis using Cons.IH [of q1] Cons.prems Put by auto
  next
    case Get
    obtain e y q1 where "recv q = (e, y, q1)" "inv q1" "cap q1 = cap q"
      "spec_recv (items q) = (e, y, items q1)"
      using Cons.prems(1) by (rule recv_spec)
    then show ?thesis using Cons.IH [of q1] Cons.prems Get by auto
  qed
qed auto

lemma drain_items:
  assumes "inv q" "items q = xs" "length xs < n"
  shows "\<exists>q'. drain recv n q = Some (xs, q') \<and> inv q' \<and> items q' = [] \<and> cap q' = cap q"
  using assms
proof (induction xs arbitrary: q n)
  case Nil
  then show ?case using recv_empty [of q] by (cases n) auto
next
  case (Cons x xs)
  then obtain q1 where q1: "recv q = (ERR_OK, Some x, q1)" "inv q1" "items q1 = xs" "cap q1 = cap q"
    using recv_some by blast
  obtain m where m: "n = Suc m" "length xs < m" using Cons.prems(3) by (cases n) auto
  obtain q2 where "drain recv m q1 = Some (xs, q2)" "inv q2" "items q2 = []" "cap q2 = cap q1"
    using Cons.IH [OF q1(2,3) m(2)] by blast
  then show ?case using q1 m by simp
qed

lemmas drain_all = drain_items [OF _ refl]

end

interpretation ring: bounded_fifo queue_try_send queue_try_receive q_items q_cap
  "\<lambda>q. q_wf q \<and> q_item_size q = w" "\<lambda>item. length item = unat w"
  for w :: u32
proof (unfold_locales, goal_cases)
  case (1 q) then show ?case using q_items_length_le by simp
next
  case (2 q x) then show ?case by (simp add: queue_try_send_eq queue_full_iff)
next
  case (3 q x)
  then show ?case
    using queue_full_iff [of q] q_wf_put [of q x] q_items_put [of q x] by (simp add: queue_try_send_eq)
next
  case (4 q) then show ?case by (simp add: queue_try_receive_eq queue_empty_iff)
next
  case (5 q x xs)
  then show ?case
    using queue_empty_iff [of q] q_front_items [of q] q_wf_drop [of q] by (simp add: queue_try_receive_eq)
qed

section \<open>Waiting\<close>

lemma cond_wait_while_result:
  "cond_wait_while P q ws =
     map_option (Pair ERR_OK) (List.find (\<lambda>q'. \<not> P q') (q # map snd ws))"
  by (induction P q ws rule: cond_wait_while.induct)
    (subst cond_wait_while.simps, auto split: list.split)

lemma cond_timedwait_while_result:
  assumes "cond_timedwait_while P q ws = Some (e, q')"
  shows "q' \<in> set (q # map snd ws) \<and> (e = ERR_OK \<longrightarrow> \<not> P q')"
  using assms
proof (induction ws arbitrary: q)
  case Nil
  then show ?case by (simp add: cond_timedwait_while.simps [of P q] split: if_splits)
next
  case (Cons w ws)
  show ?case
  proof (cases "P q")
    case True
    obtain rc r where "w = (rc, r)" by fastforce
    then show ?thesis
      using True Cons.prems Cons.IH [of r]
      by (cases rc) (auto simp: cond_timedwait_while.simps [of P q])
  next
    case False
    then show ?thesis using Cons.prems by (auto simp: cond_timedwait_while.simps [of P q])
  qed
qed

lemma queue_wait_result:
  assumes "queue_wait P now ms ticks ws q = Some (e, q')"
  shows "q' \<in> set (q # map snd ws) \<and> (e = ERR_OK \<longrightarrow> \<not> P q')"
proof -
  consider "ticks = 0" | "ticks \<noteq> 0" "ticks \<noteq> OSAL_MAX_DELAY" | "ticks \<noteq> 0" "ticks = OSAL_MAX_DELAY" by blast
  then show ?thesis
  proof cases
    case 1
    then show ?thesis using assms by (auto simp: queue_wait_def split: if_splits)
  next
    case 2
    then show ?thesis
      using assms cond_timedwait_while_result [of P q ws e q']
      by (auto simp: queue_wait_def split: option.splits)
  next
    case 3
    then have "List.find (\<lambda>q'. \<not> P q') (q # map snd ws) = Some q'"
      using assms by (auto simp: queue_wait_def cond_wait_while_result simp del: find.simps)
    then show ?thesis by (auto dest: find_SomeD simp del: find.simps)
  qed
qed

section \<open>Properties\<close>

text \<open>C1: A sequence of non-blocking sends and receives on the ring buffer answers exactly as the same
sequence on a list bounded by the capacity: the same error codes, the same items in FIFO order; the
queue stays well formed and its contents stay those of the list.\<close>

theorem queue_is_bounded_fifo:
  assumes "q_wf q" "\<forall>x. Put x \<in> set ops \<longrightarrow> length x = unat (q_item_size q)"
  shows "\<exists>q'. run_ops queue_try_send queue_try_receive ops q
            = (fst (run_ops (spec_send (q_cap q)) spec_recv ops (q_items q)), q')
    \<and> q_wf q' \<and> q_items q' = snd (run_ops (spec_send (q_cap q)) spec_recv ops (q_items q))"
  using ring.run_ops_spec [of q "q_item_size q" ops] assms by auto

definition sample_queue :: posix_queue where
  "sample_queue = \<lparr>q_buffer = [9, 9, 9, 9], q_capacity = 2, q_item_size = 2,
                   q_count = 0, q_head = 1, q_tail = 1\<rparr>"

definition sample_ops :: "byte list qop list" where
  "sample_ops = [Put [1, 2], Put [3, 4], Put [5, 6], Get, Put [7, 8], Get, Get, Get]"

lemma sample_ops_fit: "Put x \<in> set sample_ops \<Longrightarrow> length x = 2"
  by (auto simp: sample_ops_def)

lemma queue_is_bounded_fifo_witness:
  "fst (run_ops queue_try_send queue_try_receive sample_ops sample_queue) =
     [(ERR_OK, None), (ERR_OK, None), (ERR_TIMEOUT, None), (ERR_OK, Some [1, 2]), (ERR_OK, None),
      (ERR_OK, Some [3, 4]), (ERR_OK, Some [7, 8]), (ERR_TIMEOUT, None)]"
proof -
  have "q_wf sample_queue" by (simp add: q_wf_def sample_queue_def)
  moreover have "\<forall>x. Put x \<in> set sample_ops \<longrightarrow> length x = unat (q_item_size sample_queue)"
    using sample_ops_fit by (simp add: sample_queue_def)
  ultimately have "fst (run_ops queue_try_send queue_try_receive sample_ops sample_queue) =
      fst (run_ops (spec_send (q_cap sample_queue)) spec_recv sample_ops (q_items sample_queue))"
    using queue_is_bounded_fifo by fastforce
  then show ?thesis
    by (simp add: sample_ops_def sample_queue_def q_items_def spec_send_def spec_recv_def)
qed

text \<open>C2: A send, blocking or not, whatever the other threads do to the queue while it waits: it
reports success exactly when it appended the item to the queue as it stood when the wait ended, which
then had room; on a timeout or an error it leaves that queue as it was; it stays blocked only when a
timeout was given and the queue was full.\<close>

theorem osal_queue_send_appends:
  assumes "\<forall>r \<in> set (q # map snd ws). q_wf r \<and> q_item_size r = w" and "length item = unat w"
  shows "case osal_queue_send True now ms ws (Some q) (Some item) ticks of
      None \<Rightarrow> ticks \<noteq> 0 \<and> queue_full q
    | Some (e, None) \<Rightarrow> False
    | Some (e, Some q') \<Rightarrow> q_wf q' \<and> (\<exists>r \<in> set (q # map snd ws).
        if e = ERR_OK then length (q_items r) < q_cap r \<and> q_items q' = q_items r @ [item] else q' = r)"
proof (cases "queue_wait queue_full now ms ticks ws q")
  case None
  then have "ticks \<noteq> 0 \<and> queue_full q"
    by (auto simp: queue_wait_def cond_timedwait_while.simps cond_wait_while.simps split: if_splits option.splits)
  then show ?thesis using None by (simp add: osal_queue_send_def)
next
  case (Some er)
  obtain e r where er: "er = (e, r)" by fastforce
  have r: "r \<in> set (q # map snd ws)" "e = ERR_OK \<longrightarrow> \<not> queue_full r"
    using queue_wait_result Some er by blast+
  have wf: "q_wf r" "q_item_size r = w" using r(1) assms(1) by blast+
  show ?thesis
  proof (cases "e = ERR_OK")
    case True
    then have "\<not> queue_full r" using r by blast
    then have "q_wf (queue_put item r)" "q_items (queue_put item r) = q_items r @ [item]"
      "length (q_items r) < q_cap r"
      using q_wf_put q_items_put wf assms(2) q_items_length_le [OF wf(1)] queue_full_iff [of r] by auto
    then show ?thesis using True Some er r(1) by (auto simp: osal_queue_send_def)
  next
    case False
    then show ?thesis using Some er r(1) wf by (auto simp: osal_queue_send_def)
  qed
qed

lemma osal_queue_send_appends_witness:
  "case osal_queue_send True (Some (0, 0)) id [(RC_OK, sample_queue)] (Some (queue_put [3, 4] (queue_put [1, 2] sample_queue)))
       (Some [5, 6]) 10 of
      None \<Rightarrow> False
    | Some (e, None) \<Rightarrow> False
    | Some (e, Some q') \<Rightarrow> e = ERR_OK \<and> q_items q' = [[5, 6]]"
proof -
  have wf: "q_wf sample_queue" "q_item_size sample_queue = 2" "\<not> queue_full sample_queue"
      "q_items sample_queue = []" "q_item_size (queue_put [1, 2] sample_queue) = 2"
      "\<not> queue_full (queue_put [1, 2] sample_queue)"
    by (simp_all add: q_wf_def sample_queue_def queue_full_def q_items_def queue_put_def)
  let ?q = "queue_put [3, 4] (queue_put [1, 2] sample_queue)"
  have full: "queue_full ?q" by (simp add: queue_full_def queue_put_def sample_queue_def)
  have run: "osal_queue_send True (Some (0, 0)) id [(RC_OK, sample_queue)] (Some ?q) (Some [5, 6]) 10
      = Some (ERR_OK, Some (queue_put [5, 6] sample_queue))"
    using full wf by (simp add: osal_queue_send_def queue_wait_def OSAL_MAX_DELAY_def timespec_from_now_ms_def
        cond_timedwait_while.simps Let_def)
  have "q_wf (queue_put [1, 2] sample_queue)" using wf by (simp add: q_wf_put)
  then have "q_wf ?q" "q_item_size ?q = 2" using wf by (simp_all add: q_wf_put)
  then have "\<forall>r \<in> set (?q # map snd [(RC_OK, sample_queue)]). q_wf r \<and> q_item_size r = 2" using wf by simp
  from osal_queue_send_appends [OF this, where item = "[5, 6]" and now = "Some (0, 0)" and ms = id and ticks = 10] run full wf
  show ?thesis by (auto simp: queue_full_iff)
qed

text \<open>C4: A receive that waits for ever returns exactly when, on entry or at one of its wake-ups, the
queue holds an item; it then takes the oldest item of that queue and nothing else.\<close>

theorem osal_queue_receive_forever:
  assumes "\<forall>r \<in> set (q # map snd ws). q_wf r"
  shows "(osal_queue_receive True now ms ws (Some q) True OSAL_MAX_DELAY = None
            \<longleftrightarrow> (\<forall>r \<in> set (q # map snd ws). q_items r = []))
    \<and> (\<forall>e out h. osal_queue_receive True now ms ws (Some q) True OSAL_MAX_DELAY = Some (e, out, h) \<longrightarrow>
         e = ERR_OK \<and> (\<exists>r \<in> set (q # map snd ws). \<exists>x xs q'. q_items r = x # xs
            \<and> out = Some x \<and> h = Some q' \<and> q_wf q' \<and> q_items q' = xs))"
proof -
  have run: "osal_queue_receive True now ms ws (Some q) True OSAL_MAX_DELAY =
      map_option (\<lambda>r. (ERR_OK, Some (queue_front r), Some (queue_drop r)))
        (List.find (\<lambda>r. \<not> queue_empty r) (q # map snd ws))"
    by (simp add: osal_queue_receive_def queue_wait_def OSAL_MAX_DELAY_def cond_wait_while_result
        del: find.simps split: option.split)
  have none: "osal_queue_receive True now ms ws (Some q) True OSAL_MAX_DELAY = None
            \<longleftrightarrow> (\<forall>r \<in> set (q # map snd ws). q_items r = [])"
    unfolding run queue_empty_iff by (auto simp: find_None_iff simp del: find.simps)
  have "e = ERR_OK \<and> (\<exists>r \<in> set (q # map snd ws). \<exists>x xs q'. q_items r = x # xs
            \<and> out = Some x \<and> h = Some q' \<and> q_wf q' \<and> q_items q' = xs)"
    if some: "osal_queue_receive True now ms ws (Some q) True OSAL_MAX_DELAY = Some (e, out, h)" for e out h
  proof -
    obtain r where r: "List.find (\<lambda>r. \<not> queue_empty r) (q # map snd ws) = Some r"
      and eq: "e = ERR_OK" "out = Some (queue_front r)" "h = Some (queue_drop r)"
      using some unfolding run by (auto simp del: find.simps)
    then have "r \<in> set (q # map snd ws)" "\<not> queue_empty r" using find_SomeD by fastforce+
    moreover have "q_wf r" using calculation(1) assms by blast
    ultimately show ?thesis using q_front_items [of r] q_wf_drop [of r] eq by blast
  qed
  then show ?thesis using none by blast
qed

lemma osal_queue_receive_forever_witness:
  "osal_queue_receive True None id [(RC_OK, sample_queue), (RC_OTHER, queue_put [1, 2] sample_queue)]
     (Some sample_queue) True OSAL_MAX_DELAY \<noteq> None"
proof -
  have wf: "q_wf sample_queue" "q_wf (queue_put [1, 2] sample_queue)"
    by (simp_all add: q_wf_def sample_queue_def queue_put_def mem_write_def)
  have ne: "q_items (queue_put [1, 2] sample_queue) \<noteq> []"
    by (simp add: q_items_def sample_queue_def queue_put_def)
  have "\<forall>r \<in> set (sample_queue # map snd [(RC_OK, sample_queue), (RC_OTHER, queue_put [1, 2] sample_queue)]). q_wf r"
    using wf by simp
  from conjunct1 [OF osal_queue_receive_forever [OF this]] ne show ?thesis by auto
qed

end
