(* ===== verification/Work_Queue.thy ===== *)
theory Work_Queue
  imports Osal_Queue
begin

text \<open>The work queue of \<^verbatim>\<open>esp_rmaker_neo_common/src/work_queue.c\<close>: one worker task that runs the functions
other tasks hand it, over the platform queue of \<open>Osal_Queue\<close>. The API calls are functions on the
module's state; the worker is a program counter advanced one atomic action at a time, and
\<open>wq_step\<close> interleaves it with the calls of the other tasks.\<close>

section \<open>State\<close>

datatype queue_state =
    WORK_QUEUE_STATE_DEINIT | WORK_QUEUE_STATE_INIT_DONE | WORK_QUEUE_STATE_RUNNING
  | WORK_QUEUE_STATE_STOP_REQUESTED | WORK_QUEUE_STATE_PARKED

text \<open>A queue entry is two pointers, copied through the queue as its bytes (64-bit pointers).\<close>

record wq_entry =
  work_fn :: u64
  priv_data :: u64

definition entry_bytes :: "wq_entry \<Rightarrow> byte list" where
  "entry_bytes e = le_bytes 8 (work_fn e) @ le_bytes 8 (priv_data e)"

definition entry_of_bytes :: "byte list \<Rightarrow> wq_entry" where
  "entry_of_bytes bs = \<lparr>work_fn = of_le_bytes (take 8 bs), priv_data = of_le_bytes (drop 8 bs)\<rparr>"

definition sizeof_entry :: u32 where "sizeof_entry = 16"

record work_queue =
  wq_queue :: "posix_queue option"
  wq_state :: queue_state
  wq_task :: "nat option"  \<comment> \<open>the running worker task\<close>

definition empty_work_task :: wq_entry where
  "empty_work_task = \<lparr>work_fn = 0, priv_data = 0\<rparr>"

section \<open>The API calls\<close>

definition work_queue_add_task :: "wq_entry \<Rightarrow> work_queue \<Rightarrow> err \<times> work_queue" where
  "work_queue_add_task e w =
     (case wq_queue w of
        None \<Rightarrow> (ERR_FAIL, w)
      | Some q \<Rightarrow>
          if wq_state w = WORK_QUEUE_STATE_PARKED then (ERR_FAIL, w)
          else (case queue_try_send (entry_bytes e) q of
                  (r, q') \<Rightarrow> (if r = ERR_OK then ERR_OK else ERR_FAIL, w\<lparr>wq_queue := Some q'\<rparr>)))"

text \<open>The flush receives until nothing is left; no producer interferes with it in this model, so one
more receive than the queue can hold is enough.\<close>

definition flush_work_queue :: "work_queue \<Rightarrow> work_queue" where
  "flush_work_queue w =
     (case wq_queue w of
        None \<Rightarrow> w
      | Some q \<Rightarrow>
          (case drain queue_try_receive (Suc (q_cap q)) q of
             Some (discarded, q') \<Rightarrow> w\<lparr>wq_queue := Some q'\<rparr>
           | None \<Rightarrow> w))"

text \<open>\<open>created\<close> is what \<^verbatim>\<open>osal_queue_create_ext\<close> returns when it is called.\<close>

definition work_queue_init :: "posix_queue option \<Rightarrow> work_queue \<Rightarrow> err \<times> work_queue" where
  "work_queue_init created w =
     (case wq_state w of
        WORK_QUEUE_STATE_DEINIT \<Rightarrow>
          (case created of
             None \<Rightarrow> (ERR_FAIL, w\<lparr>wq_queue := None\<rparr>)
           | Some q \<Rightarrow> (ERR_OK, flush_work_queue (w\<lparr>wq_queue := Some q, wq_state := WORK_QUEUE_STATE_INIT_DONE\<rparr>)))
      | WORK_QUEUE_STATE_PARKED \<Rightarrow> (ERR_OK, flush_work_queue (w\<lparr>wq_state := WORK_QUEUE_STATE_INIT_DONE\<rparr>))
      | WORK_QUEUE_STATE_INIT_DONE \<Rightarrow> (ERR_OK, flush_work_queue w)
      | _ \<Rightarrow> (ERR_OK, w))"

definition work_queue_start :: "bool \<Rightarrow> work_queue \<Rightarrow> err \<times> bool \<times> work_queue" where
  "work_queue_start task_ok w =
     (if wq_state w = WORK_QUEUE_STATE_RUNNING then (ERR_OK, False, w)
      else if wq_state w \<noteq> WORK_QUEUE_STATE_INIT_DONE then (ERR_FAIL, False, w)
      else if \<not> task_ok then (ERR_FAIL, False, w)
      else (ERR_OK, True, w\<lparr>wq_state := WORK_QUEUE_STATE_RUNNING\<rparr>))"

definition work_queue_stop :: "work_queue \<Rightarrow> err \<times> work_queue" where
  "work_queue_stop w =
     (if wq_state w = WORK_QUEUE_STATE_RUNNING
      then (ERR_OK, snd (work_queue_add_task empty_work_task (w\<lparr>wq_state := WORK_QUEUE_STATE_STOP_REQUESTED\<rparr>)))
      else (ERR_OK, w))"

text \<open>What \<^verbatim>\<open>deinit\<close> does once it no longer sees \<^verbatim>\<open>STOP_REQUESTED\<close>.\<close>

definition work_queue_park :: "work_queue \<Rightarrow> err \<times> work_queue" where
  "work_queue_park w =
     (if wq_state w = WORK_QUEUE_STATE_DEINIT \<or> wq_state w = WORK_QUEUE_STATE_PARKED then (ERR_OK, w)
      else if wq_state w \<noteq> WORK_QUEUE_STATE_INIT_DONE then (ERR_FAIL, w)
      else (ERR_OK, (flush_work_queue w)\<lparr>wq_state := WORK_QUEUE_STATE_PARKED\<rparr>))"

text \<open>\<^verbatim>\<open>deinit\<close> polls the state every two seconds; \<open>polls\<close> are the states it finds, and \<open>None\<close> means that
it is still waiting for the worker.\<close>

fun deinit_wait :: "work_queue \<Rightarrow> work_queue list \<Rightarrow> (err \<times> work_queue) option" where
  "deinit_wait w polls =
     (if wq_state w \<noteq> WORK_QUEUE_STATE_STOP_REQUESTED then Some (work_queue_park w)
      else (case polls of [] \<Rightarrow> None | w' # polls' \<Rightarrow> deinit_wait w' polls'))"

definition work_queue_deinit :: "work_queue list \<Rightarrow> work_queue \<Rightarrow> (err \<times> work_queue) option" where
  "work_queue_deinit polls w =
     deinit_wait (if wq_state w \<noteq> WORK_QUEUE_STATE_STOP_REQUESTED then snd (work_queue_stop w) else w) polls"

definition work_queue_is_current_task :: "nat \<Rightarrow> work_queue \<Rightarrow> bool" where
  "work_queue_is_current_task current w = (wq_task w = Some current)"

section \<open>The worker\<close>

datatype worker_pc =
    PC_NONE  \<comment> \<open>no worker task\<close>
  | PC_STARTED | PC_CHECK_STOP | PC_RECEIVE_WAIT | PC_RUN wq_entry | PC_RECEIVE_NOW
  | PC_CLEAR_TASK | PC_LEAVE

record wq_system =
  module_state :: work_queue
  worker :: worker_pc
  ran :: "wq_entry list"       \<comment> \<open>entries run since the last flush\<close>
  accepted :: "wq_entry list"  \<comment> \<open>entries accepted since the last flush\<close>

definition worker_receive :: "worker_pc \<Rightarrow> wq_system \<Rightarrow> wq_system" where
  "worker_receive pc s =
     (case wq_queue (module_state s) of
        None \<Rightarrow> s\<lparr>worker := pc\<rparr>
      | Some q \<Rightarrow>
          (case queue_try_receive q of
             (ERR_OK, Some bs, q') \<Rightarrow>
               s\<lparr>module_state := (module_state s)\<lparr>wq_queue := Some q'\<rparr>, worker := PC_RUN (entry_of_bytes bs)\<rparr>
           | _ \<Rightarrow> s\<lparr>worker := pc\<rparr>))"

text \<open>One action of the worker task \<open>tid\<close>. A blocking receive that finds nothing times out.\<close>

definition worker_step :: "nat \<Rightarrow> wq_system \<Rightarrow> wq_system" where
  "worker_step tid s =
     (case worker s of
        PC_NONE \<Rightarrow> s
      | PC_STARTED \<Rightarrow> s\<lparr>module_state := (module_state s)\<lparr>wq_task := Some tid\<rparr>, worker := PC_CHECK_STOP\<rparr>
      | PC_CHECK_STOP \<Rightarrow>
          s\<lparr>worker := (if wq_state (module_state s) \<noteq> WORK_QUEUE_STATE_STOP_REQUESTED then PC_RECEIVE_WAIT
                      else PC_CLEAR_TASK)\<rparr>
      | PC_RECEIVE_WAIT \<Rightarrow> worker_receive PC_CHECK_STOP s
      | PC_RUN e \<Rightarrow> s\<lparr>ran := ran s @ [e], worker := PC_RECEIVE_NOW\<rparr>
      | PC_RECEIVE_NOW \<Rightarrow> worker_receive PC_CHECK_STOP s
      | PC_CLEAR_TASK \<Rightarrow> s\<lparr>module_state := (module_state s)\<lparr>wq_task := None\<rparr>, worker := PC_LEAVE\<rparr>
      | PC_LEAVE \<Rightarrow>
          s\<lparr>module_state := (module_state s)\<lparr>wq_state := WORK_QUEUE_STATE_INIT_DONE\<rparr>, worker := PC_NONE\<rparr>)"

text \<open>The system: the worker's actions interleaved with calls from other tasks (or from the functions
the worker runs). A call that flushes starts new histories \<open>ran\<close> and \<open>accepted\<close>.\<close>

inductive wq_step :: "wq_system \<Rightarrow> wq_system \<Rightarrow> bool" where
  Worker: "worker s \<noteq> PC_NONE \<Longrightarrow> wq_step s (worker_step tid s)"
| Add: "work_queue_add_task e (module_state s) = (r, w') \<Longrightarrow>
    wq_step s (s\<lparr>module_state := w', accepted := (if r = ERR_OK then accepted s @ [e] else accepted s)\<rparr>)"
| Start: "work_queue_start task_ok (module_state s) = (r, spawned, w') \<Longrightarrow>
    wq_step s (s\<lparr>module_state := w', worker := (if spawned then PC_STARTED else worker s)\<rparr>)"
| Stop: "wq_state (module_state s) = WORK_QUEUE_STATE_RUNNING \<Longrightarrow>
    work_queue_add_task empty_work_task ((module_state s)\<lparr>wq_state := WORK_QUEUE_STATE_STOP_REQUESTED\<rparr>) = (r, w') \<Longrightarrow>
    wq_step s (s\<lparr>module_state := w', accepted := (if r = ERR_OK then accepted s @ [empty_work_task] else accepted s)\<rparr>)"
| Init: "(\<forall>q. created = Some q \<longrightarrow> q_wf q \<and> q_item_size q = sizeof_entry) \<Longrightarrow>
    work_queue_init created (module_state s) = (r, w') \<Longrightarrow>
    wq_step s (if wq_state (module_state s) \<in> {WORK_QUEUE_STATE_RUNNING, WORK_QUEUE_STATE_STOP_REQUESTED}
               then s\<lparr>module_state := w'\<rparr> else s\<lparr>module_state := w', ran := [], accepted := []\<rparr>)"
| Park: "wq_state (module_state s) = WORK_QUEUE_STATE_INIT_DONE \<Longrightarrow>
    work_queue_park (module_state s) = (r, w') \<Longrightarrow>
    wq_step s (s\<lparr>module_state := w', ran := [], accepted := []\<rparr>)"

definition wq_initial :: wq_system where
  "wq_initial = \<lparr>module_state = \<lparr>wq_queue = None, wq_state = WORK_QUEUE_STATE_DEINIT, wq_task = None\<rparr>,
                 worker = PC_NONE, ran = [], accepted = []\<rparr>"

inductive wq_reachable :: "wq_system \<Rightarrow> bool" where
  init: "wq_reachable wq_initial"
| step: "wq_reachable s \<Longrightarrow> wq_step s s' \<Longrightarrow> wq_reachable s'"

section \<open>Entries and bytes\<close>

lemma entry_of_bytes_bytes [codec_simps, simp]: "entry_of_bytes (entry_bytes e) = e"
  by (simp add: entry_of_bytes_def entry_bytes_def)

lemma length_entry_bytes [simp]: "length (entry_bytes e) = unat sizeof_entry"
  by (simp add: entry_bytes_def sizeof_entry_def)

text \<open>The pending entries of the module.\<close>

definition wq_pending :: "work_queue \<Rightarrow> wq_entry list" where
  "wq_pending w = (case wq_queue w of None \<Rightarrow> [] | Some q \<Rightarrow> map entry_of_bytes (q_items q))"

definition wq_ok :: "work_queue \<Rightarrow> bool" where
  "wq_ok w \<longleftrightarrow> (case wq_queue w of None \<Rightarrow> wq_state w = WORK_QUEUE_STATE_DEINIT
                 | Some q \<Rightarrow> q_wf q \<and> q_item_size q = sizeof_entry \<and> wq_state w \<noteq> WORK_QUEUE_STATE_DEINIT)"

lemma add_task_cases:
  assumes "wq_ok w"
  obtains (rejected) "work_queue_add_task e w = (ERR_FAIL, w)"
  | (added) w' where "work_queue_add_task e w = (ERR_OK, w')" "wq_ok w'" "wq_state w' = wq_state w"
      "wq_pending w' = wq_pending w @ [e]" "wq_task w' = wq_task w" "wq_state w \<noteq> WORK_QUEUE_STATE_PARKED"
      "wq_state w \<noteq> WORK_QUEUE_STATE_DEINIT"
proof (cases "wq_queue w")
  case None
  then show thesis using rejected by (simp add: work_queue_add_task_def)
next
  case (Some q)
  show thesis
  proof (cases "wq_state w = WORK_QUEUE_STATE_PARKED \<or> queue_full q")
    case True
    then show thesis using rejected Some by (auto simp: work_queue_add_task_def queue_try_send_eq)
  next
    case False
    let ?q = "queue_put (entry_bytes e) q"
    have q: "q_wf q" "q_item_size q = sizeof_entry" "\<not> queue_full q" using assms Some False by (auto simp: wq_ok_def)
    then have "q_wf ?q" "q_items ?q = q_items q @ [entry_bytes e]" "q_item_size ?q = sizeof_entry"
      using q_wf_put q_items_put by simp_all
    then show thesis
      using added [of "w\<lparr>wq_queue := Some ?q\<rparr>"] Some False q assms
      by (simp add: work_queue_add_task_def queue_try_send_eq wq_ok_def wq_pending_def)
  qed
qed

lemma flush_ok:
  assumes "wq_ok w"
  shows "wq_ok (flush_work_queue w)" "wq_pending (flush_work_queue w) = []"
    "wq_state (flush_work_queue w) = wq_state w" "wq_task (flush_work_queue w) = wq_task w"
proof -
  have "wq_ok (flush_work_queue w) \<and> wq_pending (flush_work_queue w) = []
    \<and> wq_state (flush_work_queue w) = wq_state w \<and> wq_task (flush_work_queue w) = wq_task w"
  proof (cases "wq_queue w")
    case None
    then show ?thesis using assms by (simp add: flush_work_queue_def wq_pending_def)
  next
    case (Some q)
    then have q: "q_wf q \<and> q_item_size q = sizeof_entry" using assms by (simp add: wq_ok_def)
    then have "length (q_items q) < Suc (q_cap q)" using q_items_length_le [of q] by simp
    from ring.drain_all [OF q this] obtain q' where
      "drain queue_try_receive (Suc (q_cap q)) q = Some (q_items q, q')" "q_wf q'"
      "q_item_size q' = sizeof_entry" "q_items q' = []" by blast
    then show ?thesis using Some assms by (simp add: flush_work_queue_def wq_pending_def wq_ok_def)
  qed
  then show "wq_ok (flush_work_queue w)" "wq_pending (flush_work_queue w) = []"
    "wq_state (flush_work_queue w) = wq_state w" "wq_task (flush_work_queue w) = wq_task w" by blast+
qed

lemma receive_cases:
  assumes "wq_ok (module_state s)"
  obtains (none) "worker_receive pc s = s\<lparr>worker := pc\<rparr>" "wq_pending (module_state s) = []"
  | (got) e w' where "worker_receive pc s = s\<lparr>module_state := w', worker := PC_RUN e\<rparr>" "wq_ok w'"
      "wq_pending (module_state s) = e # wq_pending w'" "wq_state w' = wq_state (module_state s)"
      "wq_task w' = wq_task (module_state s)"
proof (cases "wq_queue (module_state s)")
  case None
  then show thesis using none by (simp add: worker_receive_def wq_pending_def)
next
  case (Some q)
  show thesis
  proof (cases "queue_empty q")
    case True
    then show thesis
      using none Some queue_empty_iff [of q] by (simp add: worker_receive_def wq_pending_def queue_try_receive_eq)
  next
    case False
    have q: "q_wf q" "q_item_size q = sizeof_entry" using assms Some by (simp_all add: wq_ok_def)
    have "q_wf (queue_drop q)" "q_items q = queue_front q # q_items (queue_drop q)"
      using q_wf_drop q_front_items q False by blast+
    then show thesis
      using got [of "entry_of_bytes (queue_front q)" "(module_state s)\<lparr>wq_queue := Some (queue_drop q)\<rparr>"]
        Some False q assms
      by (simp add: worker_receive_def wq_pending_def queue_try_receive_eq wq_ok_def)
  qed
qed

section \<open>The invariant\<close>

definition current_entry :: "worker_pc \<Rightarrow> wq_entry list" where
  "current_entry pc = (case pc of PC_RUN e \<Rightarrow> [e] | _ \<Rightarrow> [])"

definition wq_inv :: "wq_system \<Rightarrow> bool" where
  "wq_inv s \<longleftrightarrow> wq_ok (module_state s)
    \<and> (worker s \<noteq> PC_NONE \<longleftrightarrow>
        wq_state (module_state s) \<in> {WORK_QUEUE_STATE_RUNNING, WORK_QUEUE_STATE_STOP_REQUESTED})
    \<and> (worker s \<in> {PC_CLEAR_TASK, PC_LEAVE} \<longrightarrow> wq_state (module_state s) = WORK_QUEUE_STATE_STOP_REQUESTED)
    \<and> (wq_task (module_state s) \<noteq> None \<longleftrightarrow> worker s \<notin> {PC_NONE, PC_STARTED, PC_LEAVE})
    \<and> (wq_state (module_state s) = WORK_QUEUE_STATE_PARKED \<longrightarrow> wq_pending (module_state s) = [])
    \<and> accepted s = ran s @ current_entry (worker s) @ wq_pending (module_state s)"

lemma wq_inv_initial: "wq_inv wq_initial"
  by (simp add: wq_inv_def wq_initial_def wq_ok_def wq_pending_def current_entry_def)

lemma wq_inv_receive:
  assumes "wq_inv s" "worker s = PC_RECEIVE_WAIT \<or> worker s = PC_RECEIVE_NOW"
  shows "wq_inv (worker_receive PC_CHECK_STOP s)"
proof -
  have "wq_ok (module_state s)" using assms(1) by (simp add: wq_inv_def)
  then show ?thesis
  proof (cases rule: receive_cases [where pc = PC_CHECK_STOP])
    case none
    then show ?thesis using assms by (auto simp: wq_inv_def current_entry_def)
  next
    case (got e w')
    then show ?thesis using assms by (auto simp: wq_inv_def current_entry_def)
  qed
qed

lemma wq_inv_worker:
  assumes "wq_inv s" shows "wq_inv (worker_step tid s)"
proof (cases "worker s")
  case PC_RECEIVE_WAIT
  then show ?thesis using wq_inv_receive assms by (simp add: worker_step_def)
next
  case PC_RECEIVE_NOW
  then show ?thesis using wq_inv_receive assms by (simp add: worker_step_def)
qed (use assms in \<open>auto simp: wq_inv_def worker_step_def current_entry_def wq_ok_def wq_pending_def split: option.splits\<close>)

lemma wq_inv_add:
  assumes "wq_inv s" "work_queue_add_task e (module_state s) = (r, w')"
  shows "wq_inv (s\<lparr>module_state := w', accepted := (if r = ERR_OK then accepted s @ [e] else accepted s)\<rparr>)"
proof -
  have "wq_ok (module_state s)" using assms(1) by (simp add: wq_inv_def)
  then show ?thesis
    using assms by (cases rule: add_task_cases [where e = e]) (auto simp: wq_inv_def)
qed

lemma wq_inv_stop:
  assumes "wq_inv s" "wq_state (module_state s) = WORK_QUEUE_STATE_RUNNING"
    "work_queue_add_task empty_work_task ((module_state s)\<lparr>wq_state := WORK_QUEUE_STATE_STOP_REQUESTED\<rparr>) = (r, w')"
  shows "wq_inv (s\<lparr>module_state := w', accepted := (if r = ERR_OK then accepted s @ [empty_work_task] else accepted s)\<rparr>)"
proof -
  have "wq_inv (s\<lparr>module_state := (module_state s)\<lparr>wq_state := WORK_QUEUE_STATE_STOP_REQUESTED\<rparr>\<rparr>)"
    using assms(1,2) by (auto simp: wq_inv_def wq_ok_def wq_pending_def split: option.splits)
  from wq_inv_add [OF this, of empty_work_task r w'] assms(3) show ?thesis
    by (cases "r = ERR_OK") simp_all
qed

lemma wq_inv_flush:
  assumes "wq_inv s" "worker s = PC_NONE" "wq_ok w" "wq_task w = None"
    "st \<in> {WORK_QUEUE_STATE_INIT_DONE, WORK_QUEUE_STATE_PARKED}" "wq_state w = WORK_QUEUE_STATE_INIT_DONE"
  shows "wq_inv (s\<lparr>module_state := (flush_work_queue w)\<lparr>wq_state := st\<rparr>, ran := [], accepted := []\<rparr>)"
  using assms flush_ok [OF assms(3)]
  by (auto simp: wq_inv_def current_entry_def wq_ok_def wq_pending_def split: option.splits)

lemma flush_same_state: "wq_ok w \<Longrightarrow> wq_state w = st \<Longrightarrow> (flush_work_queue w)\<lparr>wq_state := st\<rparr> = flush_work_queue w"
  using flush_ok(3) [of w] by (cases "flush_work_queue w") auto

lemma set_same_state: "wq_state w = st \<Longrightarrow> w\<lparr>wq_state := st\<rparr> = w" for w :: work_queue
  by (cases w) auto

lemma wq_inv_init:
  assumes "wq_inv s" "\<forall>q. created = Some q \<longrightarrow> q_wf q \<and> q_item_size q = sizeof_entry"
    "work_queue_init created (module_state s) = (r, w')"
  shows "wq_inv (if wq_state (module_state s) \<in> {WORK_QUEUE_STATE_RUNNING, WORK_QUEUE_STATE_STOP_REQUESTED}
               then s\<lparr>module_state := w'\<rparr> else s\<lparr>module_state := w', ran := [], accepted := []\<rparr>)"
proof (cases "wq_state (module_state s) \<in> {WORK_QUEUE_STATE_RUNNING, WORK_QUEUE_STATE_STOP_REQUESTED}")
  case True
  then show ?thesis using assms by (auto simp: work_queue_init_def)
next
  case False
  then have idle: "worker s = PC_NONE" "wq_task (module_state s) = None" using assms(1) by (auto simp: wq_inv_def)
  have reset: "wq_inv (s\<lparr>module_state := flush_work_queue w, ran := [], accepted := []\<rparr>)"
    if "wq_ok w" "wq_task w = None" "wq_state w = WORK_QUEUE_STATE_INIT_DONE" for w
    using wq_inv_flush [OF assms(1) idle(1) that(1,2) _ that(3)] flush_same_state [OF that(1,3)] by force
  show ?thesis
  proof (cases "wq_state (module_state s) = WORK_QUEUE_STATE_DEINIT \<and> created = None")
    case True
    then have "w' = (module_state s)\<lparr>wq_queue := None\<rparr>" using assms(3) by (auto simp: work_queue_init_def)
    then show ?thesis using True False idle assms(1)
      by (auto simp: wq_inv_def wq_ok_def wq_pending_def current_entry_def)
  next
    case start: False
    let ?w = "case created of
       Some q \<Rightarrow> (if wq_state (module_state s) = WORK_QUEUE_STATE_DEINIT then (module_state s)\<lparr>wq_queue := Some q, wq_state := WORK_QUEUE_STATE_INIT_DONE\<rparr>
                   else (module_state s)\<lparr>wq_state := WORK_QUEUE_STATE_INIT_DONE\<rparr>)
     | None \<Rightarrow> (module_state s)\<lparr>wq_state := WORK_QUEUE_STATE_INIT_DONE\<rparr>"
    have "w' = flush_work_queue ?w"
      using assms(3) start False by (auto simp: work_queue_init_def set_same_state split: queue_state.splits option.splits)
    moreover have "wq_ok ?w" "wq_task ?w = None" "wq_state ?w = WORK_QUEUE_STATE_INIT_DONE"
      using assms(1,2) start idle by (auto simp: wq_inv_def wq_ok_def split: option.splits)
    ultimately show ?thesis using reset [of ?w] False by auto
  qed
qed

lemma wq_inv_step: "wq_step s s' \<Longrightarrow> wq_inv s \<Longrightarrow> wq_inv s'"
proof (induction rule: wq_step.induct)
  case (Worker s tid) then show ?case using wq_inv_worker by blast
next
  case (Add e s r w') then show ?case using wq_inv_add by blast
next
  case (Start task_ok s r spawned w')
  then show ?case
    by (auto simp: work_queue_start_def wq_inv_def wq_ok_def wq_pending_def current_entry_def
        split: if_splits option.splits)
next
  case (Stop s r w') then show ?case using wq_inv_stop by blast
next
  case (Init created s r w') then show ?case using wq_inv_init by blast
next
  case (Park s r w')
  then have "wq_inv s" "worker s = PC_NONE" "wq_ok (module_state s)" "wq_task (module_state s) = None"
    "w' = (flush_work_queue (module_state s))\<lparr>wq_state := WORK_QUEUE_STATE_PARKED\<rparr>"
    by (auto simp: wq_inv_def work_queue_park_def)
  then show ?case using wq_inv_flush [of s "module_state s" WORK_QUEUE_STATE_PARKED] Park by simp
qed

lemma wq_inv_reachable: "wq_reachable s \<Longrightarrow> wq_inv s"
  by (induction rule: wq_reachable.induct) (auto intro: wq_inv_initial wq_inv_step)

section \<open>Progress of the worker\<close>

fun stop_rank :: "worker_pc \<Rightarrow> nat \<Rightarrow> nat" where
  "stop_rank PC_NONE p = 0"
| "stop_rank PC_LEAVE p = 1"
| "stop_rank PC_CLEAR_TASK p = 2"
| "stop_rank PC_CHECK_STOP p = 3"
| "stop_rank PC_STARTED p = 4"
| "stop_rank (PC_RUN e) p = 2 * p + 5"
| "stop_rank _ p = 2 * p + 4"

fun run_rank :: "worker_pc \<Rightarrow> nat \<Rightarrow> nat" where
  "run_rank (PC_RUN e) p = 2 * p + 1"
| "run_rank PC_CHECK_STOP p = 2 * p + 1"
| "run_rank PC_STARTED p = 2 * p + 2"
| "run_rank _ p = 2 * p"

abbreviation pending_count :: "wq_system \<Rightarrow> nat" where
  "pending_count s \<equiv> length (wq_pending (module_state s))"

definition stopping :: "wq_system \<Rightarrow> bool" where
  "stopping s \<longleftrightarrow> wq_inv s
     \<and> wq_state (module_state s) \<in> {WORK_QUEUE_STATE_STOP_REQUESTED, WORK_QUEUE_STATE_INIT_DONE}"

lemma worker_step_stopping:
  assumes "stopping s" and "worker s \<noteq> PC_NONE"
  shows "stopping (worker_step tid s)
    \<and> stop_rank (worker (worker_step tid s)) (pending_count (worker_step tid s)) < stop_rank (worker s) (pending_count s)"
proof -
  have inv: "wq_inv (worker_step tid s)" using wq_inv_worker assms by (simp add: stopping_def)
  have st: "wq_state (module_state s) = WORK_QUEUE_STATE_STOP_REQUESTED" and ok: "wq_ok (module_state s)"
    using assms by (auto simp: wq_inv_def stopping_def)
  show ?thesis
  proof (cases "worker s = PC_RECEIVE_WAIT \<or> worker s = PC_RECEIVE_NOW")
    case True
    from ok show ?thesis
      by (cases rule: receive_cases [where pc = PC_CHECK_STOP])
        (use True st inv in \<open>auto simp: worker_step_def stopping_def\<close>)
  next
    case False
    then show ?thesis
      using assms(2) st inv by (cases "worker s") (auto simp: worker_step_def stopping_def wq_pending_def)
  qed
qed

lemma worker_step_running:
  assumes "wq_inv s \<and> accepted s = a \<and> wq_state (module_state s) = WORK_QUEUE_STATE_RUNNING"
    and "\<not> ran s = a"
  shows "(wq_inv (worker_step tid s) \<and> accepted (worker_step tid s) = a
          \<and> wq_state (module_state (worker_step tid s)) = WORK_QUEUE_STATE_RUNNING)
    \<and> run_rank (worker (worker_step tid s)) (pending_count (worker_step tid s)) < run_rank (worker s) (pending_count s)"
proof -
  have inv: "wq_inv (worker_step tid s)" using wq_inv_worker assms by blast
  have ok: "wq_ok (module_state s)" using assms by (simp add: wq_inv_def)
  have pc: "worker s \<notin> {PC_NONE, PC_CLEAR_TASK, PC_LEAVE}" using assms by (auto simp: wq_inv_def)
  have todo: "current_entry (worker s) @ wq_pending (module_state s) \<noteq> []" using assms by (auto simp: wq_inv_def)
  show ?thesis
  proof (cases "worker s = PC_RECEIVE_WAIT \<or> worker s = PC_RECEIVE_NOW")
    case True
    from ok show ?thesis
      by (cases rule: receive_cases [where pc = PC_CHECK_STOP])
        (use True assms inv todo in \<open>auto simp: worker_step_def current_entry_def\<close>)
  next
    case False
    then show ?thesis
      using assms inv pc by (cases "worker s") (auto simp: worker_step_def wq_pending_def)
  qed
qed

section \<open>Properties\<close>


definition sample_wq_queue :: posix_queue where
  "sample_wq_queue = \<lparr>q_buffer = replicate 48 0, q_capacity = 3, q_item_size = 16,
                      q_count = 0, q_head = 0, q_tail = 0\<rparr>"

definition sample_wq_idle :: wq_system where
  "sample_wq_idle = \<lparr>module_state = \<lparr>wq_queue = Some sample_wq_queue, wq_state = WORK_QUEUE_STATE_INIT_DONE, wq_task = None\<rparr>,
                     worker = PC_NONE, ran = [], accepted = []\<rparr>"

lemma sample_wq_queue_ok: "q_wf sample_wq_queue" "q_items sample_wq_queue = []" "q_item_size sample_wq_queue = sizeof_entry"
    "queue_empty sample_wq_queue" "\<not> queue_full sample_wq_queue"
  by (simp_all add: q_wf_def sample_wq_queue_def q_items_def sizeof_entry_def queue_empty_def queue_full_def)

lemma sample_wq_idle_reachable: "wq_reachable sample_wq_idle"
proof -
  have "work_queue_init (Some sample_wq_queue) (module_state wq_initial) = (ERR_OK, module_state sample_wq_idle)"
    using sample_wq_queue_ok
    by (simp add: work_queue_init_def wq_initial_def flush_work_queue_def sample_wq_idle_def queue_try_receive_eq)
  from wq_step.Init [OF _ this] sample_wq_queue_ok have "wq_step wq_initial sample_wq_idle"
    by (simp add: wq_initial_def sample_wq_idle_def)
  then show ?thesis using wq_reachable.init wq_reachable.step by blast
qed


definition sample_running :: "posix_queue \<Rightarrow> worker_pc \<Rightarrow> queue_state \<Rightarrow> nat option \<Rightarrow> wq_entry list \<Rightarrow> wq_system" where
  "sample_running q pc st t acc =
     \<lparr>module_state = \<lparr>wq_queue = Some q, wq_state = st, wq_task = t\<rparr>, worker = pc, ran = [], accepted = acc\<rparr>"

lemma sample_running_reachable:
  "wq_reachable (sample_running sample_wq_queue PC_STARTED WORK_QUEUE_STATE_RUNNING None [])"
  "wq_reachable (sample_running sample_wq_queue PC_CHECK_STOP WORK_QUEUE_STATE_RUNNING (Some tid) [])"
proof -
  have "wq_step sample_wq_idle (sample_running sample_wq_queue PC_STARTED WORK_QUEUE_STATE_RUNNING None [])"
    using wq_step.Start [of True sample_wq_idle ERR_OK True]
    by (simp add: work_queue_start_def sample_wq_idle_def sample_running_def)
  then show r: "wq_reachable (sample_running sample_wq_queue PC_STARTED WORK_QUEUE_STATE_RUNNING None [])"
    using sample_wq_idle_reachable wq_reachable.step by blast
  have work: "wq_reachable s \<Longrightarrow> worker s \<noteq> PC_NONE \<Longrightarrow> wq_reachable (worker_step tid s)" for s
    using wq_reachable.step wq_step.Worker by blast
  have "sample_running sample_wq_queue PC_CHECK_STOP WORK_QUEUE_STATE_RUNNING (Some tid) []
      = worker_step tid (sample_running sample_wq_queue PC_STARTED WORK_QUEUE_STATE_RUNNING None [])"
    by (simp add: worker_step_def sample_running_def)
  with work [OF r] show "wq_reachable (sample_running sample_wq_queue PC_CHECK_STOP WORK_QUEUE_STATE_RUNNING (Some tid) [])"
    by (simp add: sample_running_def)
qed

lemma sample_add:
  assumes "q_wf q" "q_item_size q = sizeof_entry" "\<not> queue_full q" "st \<noteq> WORK_QUEUE_STATE_PARKED"
  shows "work_queue_add_task e \<lparr>wq_queue = Some q, wq_state = st, wq_task = t\<rparr> =
    (ERR_OK, \<lparr>wq_queue = Some (queue_put (entry_bytes e) q), wq_state = st, wq_task = t\<rparr>)"
  using assms by (simp add: work_queue_add_task_def queue_try_send_eq)

lemma sample_busy:
  fixes e :: wq_entry and tid :: nat
  defines "q1 \<equiv> queue_put (entry_bytes e) sample_wq_queue"
  defines "q2 \<equiv> queue_put (entry_bytes empty_work_task) q1"
  defines "s0 \<equiv> sample_running sample_wq_queue PC_CHECK_STOP WORK_QUEUE_STATE_RUNNING (Some tid) []"
  defines "s1 \<equiv> sample_running q1 PC_CHECK_STOP WORK_QUEUE_STATE_RUNNING (Some tid) [e]"
  defines "s2 \<equiv> sample_running q2 PC_CHECK_STOP WORK_QUEUE_STATE_STOP_REQUESTED (Some tid) [e, empty_work_task]"
  shows "wq_reachable s0" "wq_reachable s1" "wq_reachable s2"
    "work_queue_add_task e (module_state s0) = (ERR_OK, module_state s1)"
    "snd (work_queue_stop (module_state s1)) = module_state s2"
    "wq_pending (module_state s1) = [e]" "wq_pending (module_state s2) = [e, empty_work_task]"
proof -
  have q1: "q_wf q1" "q_item_size q1 = sizeof_entry" "\<not> queue_full q1" "q_items q1 = [entry_bytes e]"
    using sample_wq_queue_ok q_wf_put [of sample_wq_queue "entry_bytes e"] q_items_put [of sample_wq_queue "entry_bytes e"]
    by (simp_all add: q1_def queue_full_def queue_put_def sample_wq_queue_def)
  have q2: "q_items q2 = [entry_bytes e, entry_bytes empty_work_task]"
    using q1 q_items_put [of q1 "entry_bytes empty_work_task"] by (simp add: q2_def)
  show r0: "wq_reachable s0" using sample_running_reachable(2) by (simp add: s0_def)
  show a1: "work_queue_add_task e (module_state s0) = (ERR_OK, module_state s1)"
    using sample_add [of sample_wq_queue] sample_wq_queue_ok by (simp add: sample_running_def s0_def s1_def q1_def)
  then have "wq_step s0 s1" using wq_step.Add [OF a1] by (simp add: sample_running_def s0_def s1_def)
  then show r1: "wq_reachable s1" using r0 wq_reachable.step by blast
  have a2: "work_queue_add_task empty_work_task ((module_state s1)\<lparr>wq_state := WORK_QUEUE_STATE_STOP_REQUESTED\<rparr>)
      = (ERR_OK, module_state s2)"
    using sample_add [of q1] q1 by (simp add: sample_running_def s1_def s2_def q2_def)
  then have "wq_step s1 s2" using wq_step.Stop [OF _ a2] by (simp add: sample_running_def s1_def s2_def)
  then show "wq_reachable s2" using r1 wq_reachable.step by blast
  show "snd (work_queue_stop (module_state s1)) = module_state s2"
    using a2 by (simp add: work_queue_stop_def s1_def sample_running_def)
  show "wq_pending (module_state s1) = [e]" "wq_pending (module_state s2) = [e, empty_work_task]"
    using q1 q2 by (simp_all add: wq_pending_def s1_def s2_def sample_running_def)
qed

text \<open>C14: When the worker is running and no more work arrives, it runs every accepted entry within a
number of its own actions linear in the entries pending.\<close>

theorem work_queue_worker_drains:
  assumes "wq_reachable s" "wq_state (module_state s) = WORK_QUEUE_STATE_RUNNING"
  shows "\<exists>n \<le> 2 * pending_count s + 2. ran ((worker_step tid ^^ n) s) = accepted s"
proof -
  have "\<exists>n \<le> run_rank (worker s) (pending_count s). ran ((worker_step tid ^^ n) s) = accepted s
     \<and> (wq_inv ((worker_step tid ^^ n) s) \<and> accepted ((worker_step tid ^^ n) s) = accepted s
     \<and> wq_state (module_state ((worker_step tid ^^ n) s)) = WORK_QUEUE_STATE_RUNNING)"
    by (rule funpow_reaches [where I = "\<lambda>t. wq_inv t \<and> accepted t = accepted s
          \<and> wq_state (module_state t) = WORK_QUEUE_STATE_RUNNING"
        and D = "\<lambda>t. ran t = accepted s" and m = "\<lambda>t. run_rank (worker t) (pending_count t)"])
      (use assms wq_inv_reachable worker_step_running in blast)+
  moreover have "run_rank (worker s) (pending_count s) \<le> 2 * pending_count s + 2" by (cases "worker s") auto
  ultimately show ?thesis using le_trans by blast
qed

lemma work_queue_worker_drains_witness:
  "\<exists>n \<le> 4. ran ((worker_step 7 ^^ n)
     (sample_running (queue_put (entry_bytes \<lparr>work_fn = 5, priv_data = 6\<rparr>) sample_wq_queue)
        PC_CHECK_STOP WORK_QUEUE_STATE_RUNNING (Some 7) [\<lparr>work_fn = 5, priv_data = 6\<rparr>])) = [\<lparr>work_fn = 5, priv_data = 6\<rparr>]"
  using work_queue_worker_drains [where tid = 7, OF sample_busy(2)] sample_busy(6)
  by (simp add: sample_running_def)

text \<open>C16: Once a stop has been requested, the worker's own actions bring the module back to the
initialised state with no worker task, within a number of actions linear in the entries pending, so
that a deinit waiting for it gets past its polling loop.\<close>

theorem work_queue_stop_completes:
  assumes "wq_reachable s" "wq_state (module_state s) = WORK_QUEUE_STATE_STOP_REQUESTED"
  shows "\<exists>n \<le> 2 * pending_count s + 5. let t = (worker_step tid ^^ n) s in
     worker t = PC_NONE \<and> wq_state (module_state t) = WORK_QUEUE_STATE_INIT_DONE \<and> wq_task (module_state t) = None
     \<and> (\<exists>w'. work_queue_deinit [module_state t] (module_state s) = Some (ERR_OK, w')
           \<and> wq_state w' = WORK_QUEUE_STATE_PARKED \<and> wq_pending w' = [])"
proof -
  have inv: "wq_inv s" by (rule wq_inv_reachable [OF assms(1)])
  have "stopping s" using inv assms(2) by (simp add: stopping_def)
  then have "\<exists>n \<le> stop_rank (worker s) (pending_count s). worker ((worker_step tid ^^ n) s) = PC_NONE
     \<and> stopping ((worker_step tid ^^ n) s)"
    using worker_step_stopping
    by (intro funpow_reaches [where I = stopping and m = "\<lambda>t. stop_rank (worker t) (pending_count t)"
          and D = "\<lambda>t. worker t = PC_NONE"]) blast+
  then obtain n where n: "n \<le> stop_rank (worker s) (pending_count s)"
    and t: "worker ((worker_step tid ^^ n) s) = PC_NONE" "stopping ((worker_step tid ^^ n) s)" by blast
  let ?w = "module_state ((worker_step tid ^^ n) s)"
  have "stop_rank (worker s) (pending_count s) \<le> 2 * pending_count s + 5" by (cases "worker s") auto
  then have bound: "n \<le> 2 * pending_count s + 5" using n by linarith
  have w: "wq_state ?w = WORK_QUEUE_STATE_INIT_DONE" "wq_task ?w = None" "wq_ok ?w"
    using t by (auto simp: stopping_def wq_inv_def)
  have "work_queue_deinit [?w] (module_state s) = Some (work_queue_park ?w)"
    using assms(2) w(1) by (simp add: work_queue_deinit_def)
  moreover have "wq_pending ((flush_work_queue ?w)\<lparr>wq_state := WORK_QUEUE_STATE_PARKED\<rparr>) = []"
    using flush_ok(2) [OF w(3)] by (simp add: wq_pending_def)
  ultimately have "\<exists>w'. work_queue_deinit [?w] (module_state s) = Some (ERR_OK, w')
           \<and> wq_state w' = WORK_QUEUE_STATE_PARKED \<and> wq_pending w' = []"
    using w(1) by (simp add: work_queue_park_def)
  then show ?thesis using bound t(1) w by (auto simp: Let_def)
qed

lemma work_queue_stop_completes_witness:
  "\<exists>n \<le> 9. worker ((worker_step 7 ^^ n)
     (sample_running (queue_put (entry_bytes empty_work_task) (queue_put (entry_bytes \<lparr>work_fn = 5, priv_data = 6\<rparr>) sample_wq_queue))
        PC_CHECK_STOP WORK_QUEUE_STATE_STOP_REQUESTED (Some 7) [\<lparr>work_fn = 5, priv_data = 6\<rparr>, empty_work_task])) = PC_NONE"
proof -
  let ?e = "\<lparr>work_fn = 5, priv_data = 6\<rparr>"
  let ?s = "sample_running (queue_put (entry_bytes empty_work_task) (queue_put (entry_bytes ?e) sample_wq_queue))
        PC_CHECK_STOP WORK_QUEUE_STATE_STOP_REQUESTED (Some 7) [?e, empty_work_task]"
  have r: "wq_reachable ?s" by (rule sample_busy(3))
  have st: "wq_state (module_state ?s) = WORK_QUEUE_STATE_STOP_REQUESTED" by (simp add: sample_running_def)
  have len: "pending_count ?s = 2" using sample_busy(7) [of ?e] by simp
  from work_queue_stop_completes [OF r st, of 7] show ?thesis unfolding len Let_def by auto
qed

text \<open>C18: A stop does not always run what was queued before it: there is a reachable state in which an
entry was accepted before the stop request, the stop completed, and the entry was never run and is
still pending with no worker to run it. (The worker's last receive had found the queue empty; the
entry and the stop request both arrived before it tested the stop flag.)\<close>

theorem work_queue_stop_strands_entry:
  "\<exists>s0 (s1 :: wq_system) s2. wq_reachable s0 \<and> wq_state (module_state s0) = WORK_QUEUE_STATE_RUNNING
     \<and> work_queue_add_task e (module_state s0) = (ERR_OK, module_state s1)
     \<and> snd (work_queue_stop (module_state s1)) = module_state s2 \<and> wq_reachable s2
     \<and> (let t = (worker_step tid ^^ 3) s2 in wq_reachable t \<and> worker t = PC_NONE
          \<and> wq_state (module_state t) = WORK_QUEUE_STATE_INIT_DONE
          \<and> ran t = [] \<and> wq_pending (module_state t) = [e, empty_work_task])"
proof -
  note busy = sample_busy
  let ?q2 = "queue_put (entry_bytes empty_work_task) (queue_put (entry_bytes e) sample_wq_queue)"
  let ?s2 = "sample_running ?q2 PC_CHECK_STOP WORK_QUEUE_STATE_STOP_REQUESTED (Some tid) [e, empty_work_task]"
  let ?t = "sample_running ?q2 PC_NONE WORK_QUEUE_STATE_INIT_DONE None [e, empty_work_task]"
  have work: "wq_reachable s \<Longrightarrow> worker s \<noteq> PC_NONE \<Longrightarrow> wq_reachable (worker_step tid s)" for s
    using wq_reachable.step wq_step.Worker by blast
  have t: "(worker_step tid ^^ 3) ?s2 = ?t"
    by (simp add: numeral_3_eq_3 worker_step_def sample_running_def)
  have "wq_reachable ?t"
    using work [OF busy(3)] work [OF work [OF busy(3)]] work [OF work [OF work [OF busy(3)]]]
    by (simp add: worker_step_def sample_running_def)
  moreover have "wq_pending (module_state ?t) = [e, empty_work_task]"
    using busy(7) by (simp add: wq_pending_def sample_running_def)
  ultimately have end_state: "let t = (worker_step tid ^^ 3) ?s2 in wq_reachable t \<and> worker t = PC_NONE
      \<and> wq_state (module_state t) = WORK_QUEUE_STATE_INIT_DONE \<and> ran t = []
      \<and> wq_pending (module_state t) = [e, empty_work_task]"
    unfolding t by (simp add: sample_running_def)
  let ?s0 = "sample_running sample_wq_queue PC_CHECK_STOP WORK_QUEUE_STATE_RUNNING (Some tid) []"
  let ?s1 = "sample_running (queue_put (entry_bytes e) sample_wq_queue) PC_CHECK_STOP WORK_QUEUE_STATE_RUNNING (Some tid) [e]"
  have st: "wq_state (module_state ?s0) = WORK_QUEUE_STATE_RUNNING" by (simp add: sample_running_def)
  show ?thesis
  proof (rule exI [of _ ?s0], rule exI [of _ ?s1], rule exI [of _ ?s2], intro conjI)
    show "wq_reachable ?s0" by (rule busy(1))
    show "wq_state (module_state ?s0) = WORK_QUEUE_STATE_RUNNING" by (rule st)
    show "work_queue_add_task e (module_state ?s0) = (ERR_OK, module_state ?s1)" by (rule busy(4))
    show "snd (work_queue_stop (module_state ?s1)) = module_state ?s2" by (rule busy(5))
    show "wq_reachable ?s2" by (rule busy(3))
  qed (rule end_state)
qed

end
