(* ===== verification/Sched_Virtual.thy ===== *)
theory Sched_Virtual
  imports Prelude
begin

text \<open>The virtual-time scheduler, \<^verbatim>\<open>osal/platform/virtual_scheduler/scheduler_virtual.c\<close>: the
implementation of the scheduler interface (\<^verbatim>\<open>osal_scheduler.h\<close>) that keeps its timers in a list sorted
by due time and runs them from one task. The C pointers to tasks are natural numbers; \<open>next_ptr\<close> is
the heap's next fresh one. A dereference of a freed task is the result \<open>None\<close>.

The interface the clients rely on is the locale \<open>timer_service\<close>, interpreted on this scheduler.\<close>

section \<open>State\<close>

record stask =
  ptr :: nat
  task_fn :: u64
  task_arg :: u64
  due_time_ms :: u64
  is_periodic :: bool
  period_ms :: u64
  num_executions :: u32

record scheduler =
  tasks :: "stask list"         \<comment> \<open>\<^verbatim>\<open>__scheduled_tasks.head\<close>\<close>
  tasks_mutex :: bool           \<comment> \<open>\<^verbatim>\<open>__scheduled_tasks.mutex\<close> is not \<^verbatim>\<open>NULL\<close>\<close>
  scheduler_task :: bool        \<comment> \<open>\<^verbatim>\<open>__scheduler_task_handle\<close> is not \<^verbatim>\<open>NULL\<close>\<close>
  virtual_time_ms :: u64
  last_real_time_ms :: u64
  next_ptr :: nat

definition VIRTUAL_SCHEDULER_PARKED_MS :: u64 where "VIRTUAL_SCHEDULER_PARKED_MS = - 1"

section \<open>Time\<close>

definition init_virtual_time :: "u64 \<Rightarrow> scheduler \<Rightarrow> scheduler" where
  "init_virtual_time real s = s\<lparr>virtual_time_ms := real, last_real_time_ms := real\<rparr>"

definition update_virtual_time :: "u64 \<Rightarrow> scheduler \<Rightarrow> scheduler" where
  "update_virtual_time real s =
     (if real > last_real_time_ms s
      then s\<lparr>virtual_time_ms := virtual_time_ms s + (real - last_real_time_ms s), last_real_time_ms := real\<rparr>
      else s)"

definition time_control_set_time :: "u64 \<Rightarrow> scheduler \<Rightarrow> scheduler" where
  "time_control_set_time time s = s\<lparr>virtual_time_ms := time * 1000\<rparr>"

definition time_control_advance_time :: "u64 \<Rightarrow> scheduler \<Rightarrow> scheduler" where
  "time_control_advance_time diff s = s\<lparr>virtual_time_ms := virtual_time_ms s + diff * 1000\<rparr>"

definition get_time :: "scheduler \<Rightarrow> u64" where
  "get_time s = virtual_time_ms s div 1000"

section \<open>The sorted list\<close>

fun scheduled_task_add :: "stask \<Rightarrow> stask list \<Rightarrow> stask list" where
  "scheduled_task_add t [] = [t]"
| "scheduled_task_add t (c # cs) =
     (if due_time_ms c \<le> due_time_ms t then c # scheduled_task_add t cs else t # c # cs)"

definition scheduled_task_park :: "stask \<Rightarrow> stask list \<Rightarrow> stask list" where
  "scheduled_task_park t l = scheduled_task_add (t\<lparr>due_time_ms := VIRTUAL_SCHEDULER_PARKED_MS\<rparr>) l"

fun scheduled_task_remove :: "nat \<Rightarrow> stask list \<Rightarrow> stask list" where
  "scheduled_task_remove h [] = []"
| "scheduled_task_remove h (c # cs) = (if ptr c = h then cs else c # scheduled_task_remove h cs)"

definition find_task :: "nat \<Rightarrow> stask list \<Rightarrow> stask option" where
  "find_task h l = List.find (\<lambda>t. ptr t = h) l"

section \<open>The interface calls\<close>

definition get_scheduled_task :: "scheduler \<Rightarrow> u64 \<Rightarrow> u64 \<Rightarrow> u64 \<Rightarrow> bool \<Rightarrow> u64 \<Rightarrow> stask" where
  "get_scheduled_task s task arg delay periodic period =
     \<lparr>ptr = next_ptr s, task_fn = task, task_arg = arg, due_time_ms = virtual_time_ms s + delay,
      is_periodic = periodic, period_ms = (if periodic then period else 0), num_executions = 0\<rparr>"

text \<open>\<open>alloc_ok\<close>: whether the allocation of the task succeeds. The handle is written on success only.\<close>

definition schedule_task_internal ::
  "bool \<Rightarrow> u64 \<Rightarrow> u64 \<Rightarrow> u64 \<Rightarrow> bool \<Rightarrow> scheduler \<Rightarrow> err \<times> nat option \<times> scheduler" where
  "schedule_task_internal alloc_ok delay task arg periodic s =
     (if \<not> alloc_ok then (ERR_NO_MEM, None, s)
      else (ERR_OK, Some (next_ptr s),
            s\<lparr>tasks := scheduled_task_add (get_scheduled_task s task arg delay periodic (if periodic then delay else 0)) (tasks s),
              next_ptr := next_ptr s + 1\<rparr>))"

definition osal_scheduler_schedule_task :: "bool \<Rightarrow> u64 \<Rightarrow> u64 \<Rightarrow> u64 \<Rightarrow> scheduler \<Rightarrow> err \<times> nat option \<times> scheduler" where
  "osal_scheduler_schedule_task alloc_ok delay task arg s = schedule_task_internal alloc_ok delay task arg False s"

definition osal_scheduler_schedule_task_periodic :: "bool \<Rightarrow> u64 \<Rightarrow> u64 \<Rightarrow> u64 \<Rightarrow> scheduler \<Rightarrow> err \<times> nat option \<times> scheduler" where
  "osal_scheduler_schedule_task_periodic alloc_ok delay task arg s = schedule_task_internal alloc_ok delay task arg True s"

definition osal_scheduler_reset_timer :: "nat \<Rightarrow> u64 \<Rightarrow> scheduler \<Rightarrow> (err \<times> scheduler) option" where
  "osal_scheduler_reset_timer h delay s =
     (case find_task h (tasks s) of
        None \<Rightarrow> None
      | Some t \<Rightarrow> Some (ERR_OK,
          s\<lparr>tasks := scheduled_task_add (t\<lparr>due_time_ms := virtual_time_ms s + delay\<rparr>) (scheduled_task_remove h (tasks s))\<rparr>))"

definition osal_scheduler_stop_timer :: "nat \<Rightarrow> scheduler \<Rightarrow> (err \<times> scheduler) option" where
  "osal_scheduler_stop_timer h s =
     (case find_task h (tasks s) of
        None \<Rightarrow> None
      | Some t \<Rightarrow> Some (ERR_OK, s\<lparr>tasks := scheduled_task_park t (scheduled_task_remove h (tasks s))\<rparr>))"

definition osal_scheduler_cancel_task :: "nat \<Rightarrow> scheduler \<Rightarrow> (err \<times> scheduler) option" where
  "osal_scheduler_cancel_task h s =
     (case find_task h (tasks s) of
        None \<Rightarrow> None
      | Some t \<Rightarrow> Some (ERR_OK, s\<lparr>tasks := scheduled_task_remove h (tasks s)\<rparr>))"

definition osal_scheduler_init :: "bool \<Rightarrow> u64 \<Rightarrow> err \<Rightarrow> scheduler \<Rightarrow> err \<times> scheduler" where
  "osal_scheduler_init mutex_ok real task_err s =
     (if scheduler_task s then (ERR_OK, s)
      else if \<not> mutex_ok then (ERR_NO_MEM, s\<lparr>tasks_mutex := False\<rparr>)
      else let s1 = init_virtual_time real (s\<lparr>tasks_mutex := True\<rparr>) in
           if task_err \<noteq> ERR_OK then (task_err, s1) else (ERR_OK, s1\<lparr>scheduler_task := True\<rparr>))"

definition osal_scheduler_deinit :: "scheduler \<Rightarrow> err \<times> scheduler" where
  "osal_scheduler_deinit s =
     (ERR_OK, if tasks_mutex s then s\<lparr>scheduler_task := False, tasks := [], tasks_mutex := False\<rparr>
              else s\<lparr>scheduler_task := False\<rparr>)"

section \<open>The scheduler task\<close>

text \<open>How a due task leaves the head of the list: a periodic task moves on by the periods that have
elapsed, a one-shot task is parked. \<open>None\<close> is the division by a zero period.\<close>

definition fire_task :: "u32 \<Rightarrow> u64 \<Rightarrow> stask \<Rightarrow> stask option" where
  "fire_task exec_max now t =
     (if is_periodic t then
        if period_ms t = 0 then None
        else let num = ucast ((now - due_time_ms t) div period_ms t + 1) :: u32 in
             Some (t\<lparr>num_executions := (if num > exec_max then exec_max else num),
                     due_time_ms := due_time_ms t + ucast num * period_ms t\<rparr>)
      else Some (t\<lparr>num_executions := 1, due_time_ms := VIRTUAL_SCHEDULER_PARKED_MS\<rparr>))"

text \<open>The loop that queues the due tasks; the result is the list of timers and the copies to execute.\<close>

fun collect_due :: "(stask \<Rightarrow> bool) \<Rightarrow> u32 \<Rightarrow> u64 \<Rightarrow> nat \<Rightarrow> stask list \<Rightarrow> (stask list \<times> stask list) outcome" where
  "collect_due copy_ok exec_max now 0 l = Running"
| "collect_due copy_ok exec_max now (Suc n) [] = Returned ([], [])"
| "collect_due copy_ok exec_max now (Suc n) (t # l) =
     (if due_time_ms t \<le> now then
        (case fire_task exec_max now t of
           None \<Rightarrow> Crashed
         | Some t' \<Rightarrow>
             (case collect_due copy_ok exec_max now n (scheduled_task_add t' l) of
                Returned (l', copies) \<Rightarrow> Returned (l', if copy_ok t' then t' # copies else copies)
              | r \<Rightarrow> r))
      else Returned (t # l, []))"

text \<open>Executing the copies: \<open>callback\<close> is what a task function does to the scheduler when it is
called. The result also lists the calls made.\<close>

fun execute_copies :: "(u64 \<Rightarrow> u64 \<Rightarrow> scheduler \<Rightarrow> scheduler) \<Rightarrow> stask list \<Rightarrow> scheduler \<Rightarrow> (u64 \<times> u64) list \<times> scheduler" where
  "execute_copies callback [] s = ([], s)"
| "execute_copies callback (t # ts) s =
     (let n = unat (num_executions t);
          s' = (callback (task_fn t) (task_arg t) ^^ n) s
      in apfst ((@) (replicate n (task_fn t, task_arg t))) (execute_copies callback ts s'))"

text \<open>One iteration of the scheduler task.\<close>

definition scheduler_iteration ::
  "(stask \<Rightarrow> bool) \<Rightarrow> u32 \<Rightarrow> nat \<Rightarrow> (u64 \<Rightarrow> u64 \<Rightarrow> scheduler \<Rightarrow> scheduler) \<Rightarrow> u64 \<Rightarrow> scheduler
     \<Rightarrow> ((u64 \<times> u64) list \<times> scheduler) outcome" where
  "scheduler_iteration copy_ok exec_max fuel callback real s =
     (let s1 = update_virtual_time real s in
      if \<not> tasks_mutex s1 then Returned ([], s1)
      else (case collect_due copy_ok exec_max (virtual_time_ms s1) fuel (tasks s1) of
              Returned (l, copies) \<Rightarrow> Returned (execute_copies callback copies (s1\<lparr>tasks := l\<rparr>))
            | Crashed \<Rightarrow> Crashed
            | Running \<Rightarrow> Running))"

section \<open>The list stays sorted\<close>

definition sorted_tasks :: "stask list \<Rightarrow> bool" where
  "sorted_tasks l \<longleftrightarrow> sorted (map due_time_ms l) \<and> distinct (map ptr l)"

lemma set_task_add [simp]: "set (scheduled_task_add t l) = insert t (set l)"
  by (induction l) auto

lemma length_task_add [simp]: "length (scheduled_task_add t l) = Suc (length l)"
  by (induction l) auto

lemma ptrs_task_add: "distinct (map ptr (scheduled_task_add t l)) \<longleftrightarrow> ptr t \<notin> ptr ` set l \<and> distinct (map ptr l)"
  by (induction l) auto

lemma sorted_task_add: "sorted (map due_time_ms l) \<Longrightarrow> sorted (map due_time_ms (scheduled_task_add t l))"
  by (induction l) (auto simp: not_le)

lemma sorted_tasks_add [inv_intros]:
  "sorted_tasks l \<Longrightarrow> ptr t \<notin> ptr ` set l \<Longrightarrow> sorted_tasks (scheduled_task_add t l)"
  by (simp add: sorted_tasks_def ptrs_task_add sorted_task_add)

lemma task_remove_filter:
  "distinct (map ptr l) \<Longrightarrow> scheduled_task_remove h l = filter (\<lambda>t. ptr t \<noteq> h) l"
  by (induction l) (auto intro!: filter_True [symmetric] simp: image_iff)

lemma sorted_tasks_remove [inv_intros]: "sorted_tasks l \<Longrightarrow> sorted_tasks (scheduled_task_remove h l)"
  by (simp add: sorted_tasks_def task_remove_filter sorted_filter distinct_map_filter)

lemma set_task_remove: "sorted_tasks l \<Longrightarrow> set (scheduled_task_remove h l) = {t \<in> set l. ptr t \<noteq> h}"
  by (auto simp: sorted_tasks_def task_remove_filter)

lemma find_task_Some_iff:
  "sorted_tasks l \<Longrightarrow> find_task h l = Some t \<longleftrightarrow> t \<in> set l \<and> ptr t = h"
  by (induction l) (auto simp: find_task_def sorted_tasks_def)

lemma find_task_None_iff: "find_task h l = None \<longleftrightarrow> h \<notin> ptr ` set l"
  by (auto simp: find_task_def find_None_iff)

lemma task_add_append:
  "\<forall>c \<in> set xs. due_time_ms c \<le> due_time_ms t \<Longrightarrow> scheduled_task_add t (xs @ ys) = xs @ scheduled_task_add t ys"
  by (induction xs) auto

section \<open>The interface of a timer service\<close>

text \<open>What the clients of \<^verbatim>\<open>osal_scheduler.h\<close> rely on. \<open>timers\<close> maps the handle of each task that is
allocated to its due time, its function and its argument.\<close>

locale timer_service =
  fixes schedule :: "u64 \<Rightarrow> u64 \<Rightarrow> u64 \<Rightarrow> 's \<Rightarrow> err \<times> nat option \<times> 's"
    and rearm :: "nat \<Rightarrow> u64 \<Rightarrow> 's \<Rightarrow> (err \<times> 's) option"
    and cancel :: "nat \<Rightarrow> 's \<Rightarrow> (err \<times> 's) option"
    and timers :: "'s \<Rightarrow> nat \<Rightarrow> (u64 \<times> u64 \<times> u64) option"
    and now :: "'s \<Rightarrow> u64"
    and inv :: "'s \<Rightarrow> bool"
  assumes schedule_law: "inv s \<Longrightarrow>
        (\<exists>e. schedule d t a s = (e, None, s) \<and> e \<noteq> ERR_OK)
      \<or> (\<exists>h s'. schedule d t a s = (ERR_OK, Some h, s') \<and> timers s h = None \<and> inv s'
            \<and> timers s' = (timers s)(h \<mapsto> (now s + d, t, a)) \<and> now s' = now s)"
    and rearm_law: "inv s \<Longrightarrow> timers s h = Some (u, t, a) \<Longrightarrow>
        \<exists>s'. rearm h d s = Some (ERR_OK, s') \<and> inv s' \<and> timers s' = (timers s)(h \<mapsto> (now s + d, t, a)) \<and> now s' = now s"
    and cancel_law: "inv s \<Longrightarrow> timers s h \<noteq> None \<Longrightarrow>
        \<exists>s'. cancel h s = Some (ERR_OK, s') \<and> inv s' \<and> timers s' = (timers s)(h := None) \<and> now s' = now s"

definition vs_inv :: "scheduler \<Rightarrow> bool" where
  "vs_inv s \<longleftrightarrow> sorted_tasks (tasks s) \<and> (\<forall>t \<in> set (tasks s). ptr t < next_ptr s)"

definition vs_timers :: "scheduler \<Rightarrow> nat \<Rightarrow> (u64 \<times> u64 \<times> u64) option" where
  "vs_timers s h = map_option (\<lambda>t. (due_time_ms t, task_fn t, task_arg t)) (find_task h (tasks s))"

lemma find_task_add:
  assumes "sorted_tasks l" "ptr t \<notin> ptr ` set l"
  shows "find_task h (scheduled_task_add t l) = (if h = ptr t then Some t else find_task h l)"
proof -
  have s: "sorted_tasks (scheduled_task_add t l)" using assms by (rule sorted_tasks_add)
  have "find_task h (scheduled_task_add t l) = Some x \<longleftrightarrow> (if h = ptr t then Some t else find_task h l) = Some x" for x
    using find_task_Some_iff [OF s] find_task_Some_iff [OF assms(1)] assms(2) by (auto simp: image_iff)
  then show ?thesis by (cases "find_task h (scheduled_task_add t l)") (metis option.exhaust)+
qed

lemma find_task_remove:
  assumes "sorted_tasks l"
  shows "find_task h' (scheduled_task_remove h l) = (if h' = h then None else find_task h' l)"
proof -
  have s: "sorted_tasks (scheduled_task_remove h l)" using assms by (rule sorted_tasks_remove)
  have "find_task h' (scheduled_task_remove h l) = Some x \<longleftrightarrow> (if h' = h then None else find_task h' l) = Some x" for x
    using find_task_Some_iff [OF s] find_task_Some_iff [OF assms] set_task_remove [OF assms] by auto
  then show ?thesis by (cases "find_task h' (scheduled_task_remove h l)") (metis option.exhaust)+
qed

lemma vs_schedule:
  assumes "vs_inv s"
  shows "vs_inv (s\<lparr>tasks := scheduled_task_add (get_scheduled_task s task arg d p q) (tasks s), next_ptr := next_ptr s + 1\<rparr>)"
    and "vs_timers (s\<lparr>tasks := scheduled_task_add (get_scheduled_task s task arg d p q) (tasks s), next_ptr := next_ptr s + 1\<rparr>)
      = (vs_timers s)(next_ptr s \<mapsto> (virtual_time_ms s + d, task, arg))"
    and "vs_timers s (next_ptr s) = None"
proof -
  let ?t = "get_scheduled_task s task arg d p q"
  have new: "ptr ?t \<notin> ptr ` set (tasks s)" and s: "sorted_tasks (tasks s)"
    using assms by (auto simp: vs_inv_def get_scheduled_task_def)
  show "vs_inv (s\<lparr>tasks := scheduled_task_add ?t (tasks s), next_ptr := next_ptr s + 1\<rparr>)"
    using assms sorted_tasks_add [OF s new] by (auto simp: vs_inv_def get_scheduled_task_def)
  show "vs_timers (s\<lparr>tasks := scheduled_task_add ?t (tasks s), next_ptr := next_ptr s + 1\<rparr>)
      = (vs_timers s)(next_ptr s \<mapsto> (virtual_time_ms s + d, task, arg))"
    by (rule ext) (simp add: vs_timers_def find_task_add [OF s new], simp add: get_scheduled_task_def)
  show "vs_timers s (next_ptr s) = None"
    using new by (simp add: vs_timers_def find_task_None_iff get_scheduled_task_def)
qed

interpretation vs: timer_service "osal_scheduler_schedule_task b" osal_scheduler_reset_timer
  osal_scheduler_cancel_task vs_timers virtual_time_ms vs_inv
  for b :: bool
proof (unfold_locales, goal_cases)
  case (1 s d t a)
  then show ?case
    using vs_schedule [OF 1]
    by (cases b) (auto simp: osal_scheduler_schedule_task_def schedule_task_internal_def)
next
  case (2 s h u t a d)
  then obtain x where x: "find_task h (tasks s) = Some x" "task_fn x = t" "task_arg x = a"
    by (auto simp: vs_timers_def)
  have s: "sorted_tasks (tasks s)" using 2 by (simp add: vs_inv_def)
  have px: "ptr x = h" "x \<in> set (tasks s)" using x find_task_Some_iff [OF s] by auto
  let ?l = "scheduled_task_remove h (tasks s)" let ?x = "x\<lparr>due_time_ms := virtual_time_ms s + d\<rparr>"
  have new: "ptr ?x \<notin> ptr ` set ?l" and sl: "sorted_tasks ?l"
    using px set_task_remove [OF s] sorted_tasks_remove [OF s] by auto
  have "vs_inv (s\<lparr>tasks := scheduled_task_add ?x ?l\<rparr>)"
    using 2 px sorted_tasks_add [OF sl new] set_task_remove [OF s] by (auto simp: vs_inv_def)
  moreover have "vs_timers (s\<lparr>tasks := scheduled_task_add ?x ?l\<rparr>) = (vs_timers s)(h \<mapsto> (virtual_time_ms s + d, t, a))"
    using x px by (intro ext) (simp add: vs_timers_def find_task_add [OF sl new] find_task_remove [OF s])
  ultimately show ?case using x by (simp add: osal_scheduler_reset_timer_def)
next
  case (3 s h)
  then obtain x where x: "find_task h (tasks s) = Some x" by (auto simp: vs_timers_def)
  have s: "sorted_tasks (tasks s)" using 3 by (simp add: vs_inv_def)
  have "vs_inv (s\<lparr>tasks := scheduled_task_remove h (tasks s)\<rparr>)"
    using 3 sorted_tasks_remove [OF s] set_task_remove [OF s] by (auto simp: vs_inv_def)
  moreover have "vs_timers (s\<lparr>tasks := scheduled_task_remove h (tasks s)\<rparr>) = (vs_timers s)(h := None)"
    by (intro ext) (simp add: vs_timers_def find_task_remove [OF s])
  ultimately show ?case using x by (simp add: osal_scheduler_cancel_task_def)
qed

section \<open>Collecting the due tasks\<close>

text \<open>A periodic task whose elapsed periods fit in 32 bits and whose next due time fits in 64 bits.\<close>

definition periods_due :: "u64 \<Rightarrow> stask \<Rightarrow> nat" where
  "periods_due now t = (unat now - unat (due_time_ms t)) div unat (period_ms t) + 1"

definition advance_ok :: "u64 \<Rightarrow> stask \<Rightarrow> bool" where
  "advance_ok now t \<longleftrightarrow> (is_periodic t \<longrightarrow> 0 < period_ms t \<and> periods_due now t < 2 ^ 32
     \<and> unat (due_time_ms t) + periods_due now t * unat (period_ms t) < 2 ^ 64)"

lemma fire_task_periodic:
  assumes "is_periodic t" "advance_ok now t" "due_time_ms t \<le> now"
  shows "\<exists>t'. fire_task m now t = Some t' \<and> ptr t' = ptr t \<and> task_fn t' = task_fn t \<and> task_arg t' = task_arg t
     \<and> now < due_time_ms t' \<and> unat (num_executions t') = min (unat m) (periods_due now t)
     \<and> unat (due_time_ms t') = unat (due_time_ms t) + periods_due now t * unat (period_ms t)"
proof -
  let ?k = "periods_due now t" and ?p = "unat (period_ms t)" and ?d = "unat (due_time_ms t)"
  have p: "0 < ?p" "period_ms t \<noteq> 0" and k: "?k < 2 ^ 32" and fits: "?d + ?k * ?p < 2 ^ 64"
    using assms by (auto simp: advance_ok_def word_less_nat_alt)
  have sub: "unat (now - due_time_ms t) = unat now - ?d" using assms(3) by (rule unat_sub)
  have "unat ((now - due_time_ms t) div period_ms t + 1) = ?k"
  proof -
    have "unat ((now - due_time_ms t) div period_ms t) + 1 = ?k"
      by (simp add: unat_div sub periods_due_def)
    then show ?thesis using k by (simp add: unat_word_ariths)
  qed
  then have num: "unat (ucast ((now - due_time_ms t) div period_ms t + 1) :: u32) = ?k"
    using k by (simp add: unsigned_ucast_eq unsigned_take_bit_eq take_bit_nat_eq_self)
  let ?num = "ucast ((now - due_time_ms t) div period_ms t + 1) :: u32"
  have num64: "unat (ucast ?num :: u64) = ?k"
    using num k by (simp add: unsigned_ucast_eq unsigned_take_bit_eq take_bit_nat_eq_self)
  have mul: "unat (ucast ?num * period_ms t) = ?k * ?p"
    using fits num64 by (simp add: unat_word_ariths)
  have due: "unat (due_time_ms t + ucast ?num * period_ms t) = ?d + ?k * ?p"
    using fits by (simp add: unat_word_ariths(1) mul)
  have "unat now - ?d < ?k * ?p"
    unfolding periods_due_def using p(1) by (metis Suc_eq_plus1 dividend_less_times_div mult.commute mult_Suc_right)
  then have "now < due_time_ms t + ucast ?num * period_ms t"
    using due assms(3) by (simp add: word_less_nat_alt word_le_nat_alt)
  then show ?thesis
    using assms(1) p(2) num due by (auto simp: fire_task_def Let_def word_less_nat_alt min_def)
qed

lemma fire_task_one_shot:
  assumes "\<not> is_periodic t"
  shows "fire_task m now t = Some (t\<lparr>num_executions := 1, due_time_ms := VIRTUAL_SCHEDULER_PARKED_MS\<rparr>)"
  using assms by (simp add: fire_task_def)

definition fired :: "u32 \<Rightarrow> u64 \<Rightarrow> stask \<Rightarrow> stask" where
  "fired m now t = the (fire_task m now t)"

lemma fired_props:
  assumes "advance_ok now t" "due_time_ms t \<le> now" "now < VIRTUAL_SCHEDULER_PARKED_MS"
  shows "fire_task m now t = Some (fired m now t)" "ptr (fired m now t) = ptr t"
    "task_fn (fired m now t) = task_fn t" "task_arg (fired m now t) = task_arg t"
    "now < due_time_ms (fired m now t)"
    "unat (num_executions (fired m now t)) = (if is_periodic t then min (unat m) (periods_due now t) else 1)"
    "unat (due_time_ms (fired m now t)) =
       (if is_periodic t then unat (due_time_ms t) + periods_due now t * unat (period_ms t) else 2 ^ 64 - 1)"
  using fire_task_periodic [of t now m] fire_task_one_shot [of t m now] assms
  by (cases "is_periodic t"; auto simp: fired_def VIRTUAL_SCHEDULER_PARKED_MS_def unsigned_minus_1_eq_mask mask_eq_exp_minus_1)+

lemma collect_due_prefix:
  assumes "\<forall>t \<in> set ds. due_time_ms t \<le> now \<and> advance_ok now t"
    and "\<forall>t \<in> set rest. now < due_time_ms t" and "now < VIRTUAL_SCHEDULER_PARKED_MS" and "length ds < n"
  shows "collect_due copy_ok m now n (ds @ rest) =
     Returned (fold (\<lambda>t r. scheduled_task_add (fired m now t) r) ds rest, filter copy_ok (map (fired m now) ds))"
  using assms
proof (induction ds arbitrary: rest n)
  case Nil
  then obtain k where "n = Suc k" by (cases n) auto
  then show ?case using Nil by (cases rest) (auto simp: not_le)
next
  case (Cons t ds)
  obtain k where k: "n = Suc k" "length ds < k" using Cons.prems(4) by (cases n) auto
  have t: "due_time_ms t \<le> now" "advance_ok now t" using Cons.prems(1) by auto
  note f = fired_props [OF t(2,1) Cons.prems(3), of m]
  have "\<forall>c \<in> set ds. due_time_ms c \<le> due_time_ms (fired m now t)"
    using Cons.prems(1) f(5) by (meson le_less_trans less_imp_le list.set_intros(2))
  then have "scheduled_task_add (fired m now t) (ds @ rest) = ds @ scheduled_task_add (fired m now t) rest"
    by (rule task_add_append)
  moreover have "collect_due copy_ok m now k (ds @ scheduled_task_add (fired m now t) rest) =
     Returned (fold (\<lambda>t r. scheduled_task_add (fired m now t) r) ds (scheduled_task_add (fired m now t) rest),
       filter copy_ok (map (fired m now) ds))"
    using Cons.IH [of "scheduled_task_add (fired m now t) rest" k] Cons.prems f(5) k(2) by auto
  ultimately show ?case using t(1) f(1) k(1) by simp
qed

lemma sorted_split_due:
  assumes "sorted (map due_time_ms l)"
  shows "l = filter (\<lambda>t. due_time_ms t \<le> now) l @ filter (\<lambda>t. \<not> due_time_ms t \<le> now) l"
  using assms
proof (induction l)
  case (Cons t l)
  show ?case
  proof (cases "due_time_ms t \<le> now")
    case True
    then show ?thesis using Cons by simp
  next
    case False
    then have "\<forall>c \<in> set (t # l). \<not> due_time_ms c \<le> now" using Cons.prems by auto
    then have "filter (\<lambda>t. due_time_ms t \<le> now) (t # l) = []" "filter (\<lambda>t. \<not> due_time_ms t \<le> now) (t # l) = t # l"
      by (auto intro: filter_True filter_False)
    then show ?thesis by simp
  qed
qed simp

lemma fold_task_add:
  assumes "sorted_tasks rest" "distinct (map (ptr \<circ> f) ds)" "\<forall>t \<in> set ds. ptr (f t) \<notin> ptr ` set rest"
  shows "sorted_tasks (fold (\<lambda>t r. scheduled_task_add (f t) r) ds rest)
    \<and> set (fold (\<lambda>t r. scheduled_task_add (f t) r) ds rest) = f ` set ds \<union> set rest"
  using assms
proof (induction ds arbitrary: rest)
  case (Cons t ds)
  then have "sorted_tasks (scheduled_task_add (f t) rest)" by (auto intro: sorted_tasks_add)
  moreover have "\<forall>u \<in> set ds. ptr (f u) \<notin> ptr ` set (scheduled_task_add (f t) rest)"
    using Cons.prems by (force simp: image_iff)
  ultimately show ?case using Cons.IH [of "scheduled_task_add (f t) rest"] Cons.prems(2) by auto
qed simp

section \<open>Properties\<close>


definition sample_stask :: "nat \<Rightarrow> u64 \<Rightarrow> bool \<Rightarrow> u64 \<Rightarrow> stask" where
  "sample_stask p due periodic period =
     \<lparr>ptr = p, task_fn = word_of_nat p, task_arg = 0, due_time_ms = due, is_periodic = periodic,
      period_ms = period, num_executions = 0\<rparr>"




text \<open>C27: The collecting loop can run for ever: a periodic task of period 1 ms that is due
\<open>2 ^ 32 - 1\<close> ms late is given \<open>2 ^ 32\<close> executions, which the 32-bit counter holds as 0, so its due time
does not move and it is due again.\<close>

theorem scheduler_livelock:
  "collect_due copy_ok m 0xFFFFFFFF n [\<lparr>ptr = p, task_fn = f, task_arg = a, due_time_ms = 0,
     is_periodic = True, period_ms = 1, num_executions = k\<rparr>] = Running"
proof (induction n arbitrary: k)
  case (Suc n)
  have wrap: "(0x100000000 :: u32) = 0" by simp
  have "fire_task m 0xFFFFFFFF \<lparr>ptr = p, task_fn = f, task_arg = a, due_time_ms = 0,
     is_periodic = True, period_ms = 1, num_executions = k\<rparr> =
     Some \<lparr>ptr = p, task_fn = f, task_arg = a, due_time_ms = 0, is_periodic = True, period_ms = 1, num_executions = 0\<rparr>"
    by (simp add: fire_task_def Let_def wrap)
  then show ?case using Suc.IH [of 0] by simp
qed simp

end
