(* ===== verification/Backoff.thy ===== *)
theory Backoff
  imports Sched_Virtual
begin

text \<open>The exponential backoff of \<^verbatim>\<open>esp_rmaker_neo_common/src/retry/backoff.c\<close>, executed without
interference: the delay sequence, and the handling of the one timer a context owns. The scheduler is
an argument (its scheduling, re-arming and cancelling calls), so that the lemmas hold for every
scheduler that satisfies \<open>timer_service\<close>; the properties state them for the virtual-time scheduler.
\<open>Backoff_Concurrent\<close> treats the interleavings of several calls.\<close>

section \<open>State\<close>

record backoff_ctx =
  bo_handle :: "nat option"
  reset_gen :: u32
  delay_current :: u64
  delay_max :: u64
  exp_factor :: u8
  max_jitter_ms :: u16

section \<open>Operations\<close>

text \<open>The next delay of the sequence.\<close>

definition next_delay :: "backoff_ctx \<Rightarrow> u64 \<Rightarrow> u64" where
  "next_delay c current =
     (let next = current * ucast (exp_factor c) in if next > delay_max c then delay_max c else next)"

text \<open>\<open>random\<close> is what \<^verbatim>\<open>osal_random_generate\<close> returns.\<close>

definition backoff_get_next_delay_ms :: "u32 \<Rightarrow> backoff_ctx \<Rightarrow> u64 \<times> backoff_ctx" where
  "backoff_get_next_delay_ms random c =
     (let current = delay_current c in
      (current + ucast (random mod (ucast (max_jitter_ms c) + 1)),
       c\<lparr>delay_current := next_delay c current\<rparr>))"

text \<open>\<open>None\<close>: the scheduler was handed a timer that no longer exists.\<close>

definition backoff_schedule_task ::
  "(u64 \<Rightarrow> u64 \<Rightarrow> u64 \<Rightarrow> 's \<Rightarrow> err \<times> nat option \<times> 's) \<Rightarrow> (nat \<Rightarrow> u64 \<Rightarrow> 's \<Rightarrow> (err \<times> 's) option)
     \<Rightarrow> (nat \<Rightarrow> 's \<Rightarrow> (err \<times> 's) option)
     \<Rightarrow> u64 \<Rightarrow> u64 \<Rightarrow> u64 \<Rightarrow> backoff_ctx \<Rightarrow> 's \<Rightarrow> (err \<times> backoff_ctx \<times> 's) option" where
  "backoff_schedule_task schedule rearm cancel delay task arg c s =
     (if task = 0 then Some (ERR_INVALID_ARG, c, s)
      else
        let gen = reset_gen c;
            c1 = c\<lparr>bo_handle := None\<rparr>;
            armed = (case bo_handle c of
                       Some h \<Rightarrow> map_option (\<lambda>(e, s'). (e, Some h, s')) (rearm h delay s)
                     | None \<Rightarrow> Some (schedule delay task arg s))
        in case armed of
             None \<Rightarrow> None
           | Some (e, handle, s1) \<Rightarrow>
               let ret = (if e = ERR_OK then ERR_OK else ERR_FAIL) in
               (case handle of
                  None \<Rightarrow> Some (ret, c1, s1)
                | Some h \<Rightarrow>
                    if bo_handle c1 \<noteq> None
                    then map_option (\<lambda>(_, s2). (ret, c1, s2)) (cancel h s1)
                    else
                      let c2 = c1\<lparr>bo_handle := Some h\<rparr> in
                      if reset_gen c2 \<noteq> gen \<and> bo_handle c2 = Some h
                      then map_option (\<lambda>(_, s2). (ret, c2\<lparr>bo_handle := None\<rparr>, s2)) (cancel h s1)
                      else Some (ret, c2, s1)))"

definition backoff_reset ::
  "(nat \<Rightarrow> 's \<Rightarrow> (err \<times> 's) option) \<Rightarrow> u64 \<Rightarrow> backoff_ctx option \<Rightarrow> 's \<Rightarrow> (backoff_ctx option \<times> 's) option" where
  "backoff_reset cancel delay ctx s =
     (case ctx of
        None \<Rightarrow> Some (None, s)
      | Some c \<Rightarrow>
          let c1 = c\<lparr>reset_gen := reset_gen c + 1, bo_handle := None\<rparr> in
          (case bo_handle c of
             None \<Rightarrow> Some (Some (c1\<lparr>delay_current := delay\<rparr>), s)
           | Some h \<Rightarrow> map_option (\<lambda>(_, s'). (Some (c1\<lparr>delay_current := delay\<rparr>), s')) (cancel h s)))"

definition backoff_retry ::
  "(u64 \<Rightarrow> u64 \<Rightarrow> u64 \<Rightarrow> 's \<Rightarrow> err \<times> nat option \<times> 's) \<Rightarrow> (nat \<Rightarrow> u64 \<Rightarrow> 's \<Rightarrow> (err \<times> 's) option)
     \<Rightarrow> (nat \<Rightarrow> 's \<Rightarrow> (err \<times> 's) option)
     \<Rightarrow> u32 \<Rightarrow> u64 \<Rightarrow> u64 \<Rightarrow> backoff_ctx option \<Rightarrow> 's \<Rightarrow> (err \<times> backoff_ctx option \<times> 's) option" where
  "backoff_retry schedule rearm cancel random task arg ctx s =
     (case ctx of
        None \<Rightarrow> Some (ERR_INVALID_ARG, None, s)
      | Some c \<Rightarrow>
          if task = 0 then Some (ERR_INVALID_ARG, ctx, s)
          else let (delay, c1) = backoff_get_next_delay_ms random c in
               map_option (\<lambda>(e, c2, s'). (e, Some c2, s')) (backoff_schedule_task schedule rearm cancel delay task arg c1 s))"

definition backoff_fire ::
  "(u64 \<Rightarrow> u64 \<Rightarrow> u64 \<Rightarrow> 's \<Rightarrow> err \<times> nat option \<times> 's) \<Rightarrow> (nat \<Rightarrow> u64 \<Rightarrow> 's \<Rightarrow> (err \<times> 's) option)
     \<Rightarrow> (nat \<Rightarrow> 's \<Rightarrow> (err \<times> 's) option)
     \<Rightarrow> u64 \<Rightarrow> u64 \<Rightarrow> backoff_ctx option \<Rightarrow> 's \<Rightarrow> (err \<times> backoff_ctx option \<times> 's) option" where
  "backoff_fire schedule rearm cancel task arg ctx s =
     (case ctx of
        None \<Rightarrow> Some (ERR_INVALID_ARG, None, s)
      | Some c \<Rightarrow>
          if task = 0 then Some (ERR_INVALID_ARG, ctx, s)
          else map_option (\<lambda>(e, c2, s'). (e, Some c2, s'))
                 (backoff_schedule_task schedule rearm cancel (delay_current c) task arg c s))"

section \<open>The delay sequence\<close>

lemma next_delay_unat:
  assumes "unat cur * unat (exp_factor c) < 2 ^ 64"
  shows "unat (next_delay c cur) = min (unat (delay_max c)) (unat cur * unat (exp_factor c))"
proof -
  have "unat (ucast (exp_factor c) :: u64) = unat (exp_factor c)"
    by (simp add: unsigned_ucast_eq unsigned_take_bit_eq take_bit_nat_eq_self less_le_trans [OF unsigned_less])
  then have "unat (cur * ucast (exp_factor c)) = unat cur * unat (exp_factor c)"
    using assms by (simp add: unat_word_ariths)
  then show ?thesis by (simp add: next_delay_def Let_def word_less_nat_alt min_def)
qed

lemma next_delay_iterate:
  assumes "unat base \<le> unat (delay_max c)" "unat (delay_max c) * unat (exp_factor c) < 2 ^ 64"
    and "1 \<le> unat (exp_factor c)"
  shows "unat ((next_delay c ^^ n) base) = min (unat (delay_max c)) (unat base * unat (exp_factor c) ^ n)"
proof (induction n)
  case (Suc n)
  let ?m = "unat (delay_max c)" and ?f = "unat (exp_factor c)" and ?x = "unat base * unat (exp_factor c) ^ n"
  have "unat ((next_delay c ^^ n) base) * ?f \<le> ?m * ?f" using Suc.IH by (intro mult_right_mono) auto
  then have "unat ((next_delay c ^^ n) base) * ?f < 2 ^ 64" using assms(2) by linarith
  then have "unat ((next_delay c ^^ Suc n) base) = min ?m (min ?m ?x * ?f)"
    using next_delay_unat [of "(next_delay c ^^ n) base" c] Suc.IH by simp
  also have "\<dots> = min ?m (?x * ?f)"
  proof (cases "?m \<le> ?x")
    case True
    then have "?m \<le> ?x * ?f" "?m \<le> ?m * ?f" using assms(3) using mult_le_mono [OF _ assms(3)] by fastforce+
    then show ?thesis using True by simp
  qed simp
  finally show ?case by (simp add: ac_simps)
qed (use assms in simp)

text \<open>The delays of successive retries, one random number each.\<close>

fun backoff_delays :: "u32 list \<Rightarrow> backoff_ctx \<Rightarrow> u64 list" where
  "backoff_delays [] c = []"
| "backoff_delays (r # rs) c = (let (d, c') = backoff_get_next_delay_ms r c in d # backoff_delays rs c')"

lemma next_delay_same_params [simp]: "next_delay (c\<lparr>delay_current := x\<rparr>) = next_delay c"
  by (rule ext) (simp add: next_delay_def Let_def)

lemma backoff_delays_nth:
  "i < length rs \<Longrightarrow> \<exists>r :: u32. backoff_delays rs (c\<lparr>delay_current := x\<rparr>) ! i =
     (next_delay c ^^ i) x + ucast (r mod (ucast (max_jitter_ms c) + 1))"
proof (induction rs arbitrary: i x)
  case (Cons r rs)
  show ?case
  proof (cases i)
    case 0
    then show ?thesis by (intro exI [of _ r]) (simp add: backoff_get_next_delay_ms_def Let_def)
  next
    case (Suc j)
    then show ?thesis
      using Cons.IH [of j "next_delay c x"] Cons.prems
      by (simp add: backoff_get_next_delay_ms_def Let_def funpow_swap1)
  qed
qed simp

lemma jitter_bound: "unat (ucast (r mod (ucast (j :: u16) + 1) :: u32) :: u64) \<le> unat j"
proof -
  have j: "unat (ucast j :: u32) = unat j" "unat j < 2 ^ 16"
    using unsigned_less [of j] by (simp_all add: unsigned_ucast_eq unsigned_take_bit_eq take_bit_nat_eq_self less_le_trans [OF unsigned_less])
  then have "unat (ucast j + 1 :: u32) = unat j + 1" by (simp add: unat_word_ariths)
  then have "unat (r mod (ucast j + 1)) \<le> unat j" by (simp add: unat_mod less_Suc_eq_le [symmetric])
  moreover have "unat (ucast (r mod (ucast j + 1) :: u32) :: u64) = unat (r mod (ucast j + 1))"
    by (simp add: unsigned_ucast_eq unsigned_take_bit_eq take_bit_nat_eq_self less_le_trans [OF unsigned_less])
  ultimately show ?thesis by simp
qed

section \<open>One context, one timer\<close>

text \<open>A context is tied to a scheduler state when its handle, if any, is an allocated timer.\<close>

definition handle_ok :: "(nat \<Rightarrow> (u64 \<times> u64 \<times> u64) option) \<Rightarrow> backoff_ctx \<Rightarrow> bool" where
  "handle_ok ts c \<longleftrightarrow> (case bo_handle c of None \<Rightarrow> True | Some h \<Rightarrow> ts h \<noteq> None)"

datatype backoff_call = Retry u32 | Fire | Reset u64

fun backoff_do_call ::
  "(u64 \<Rightarrow> u64 \<Rightarrow> u64 \<Rightarrow> 's \<Rightarrow> err \<times> nat option \<times> 's) \<Rightarrow> (nat \<Rightarrow> u64 \<Rightarrow> 's \<Rightarrow> (err \<times> 's) option)
     \<Rightarrow> (nat \<Rightarrow> 's \<Rightarrow> (err \<times> 's) option)
     \<Rightarrow> u64 \<Rightarrow> u64 \<Rightarrow> backoff_call \<Rightarrow> backoff_ctx option \<Rightarrow> 's \<Rightarrow> (backoff_ctx option \<times> 's) option" where
  "backoff_do_call schedule rearm cancel task arg (Retry r) ctx s =
     map_option snd (backoff_retry schedule rearm cancel r task arg ctx s)"
| "backoff_do_call schedule rearm cancel task arg Fire ctx s =
     map_option snd (backoff_fire schedule rearm cancel task arg ctx s)"
| "backoff_do_call schedule rearm cancel task arg (Reset d) ctx s = backoff_reset cancel d ctx s"

fun run_backoff ::
  "(u64 \<Rightarrow> u64 \<Rightarrow> u64 \<Rightarrow> 's \<Rightarrow> err \<times> nat option \<times> 's) \<Rightarrow> (nat \<Rightarrow> u64 \<Rightarrow> 's \<Rightarrow> (err \<times> 's) option)
     \<Rightarrow> (nat \<Rightarrow> 's \<Rightarrow> (err \<times> 's) option)
     \<Rightarrow> u64 \<Rightarrow> u64 \<Rightarrow> backoff_call list \<Rightarrow> backoff_ctx option \<Rightarrow> 's \<Rightarrow> (backoff_ctx option \<times> 's) option" where
  "run_backoff schedule rearm cancel task arg [] ctx s = Some (ctx, s)"
| "run_backoff schedule rearm cancel task arg (call # calls) ctx s =
     (case backoff_do_call schedule rearm cancel task arg call ctx s of
        None \<Rightarrow> None
      | Some (ctx', s') \<Rightarrow> run_backoff schedule rearm cancel task arg calls ctx' s')"

context timer_service
begin

lemma schedule_task_cases:
  assumes "inv s" "handle_ok (timers s) c" "task \<noteq> 0"
  obtains (ok) h t a c' s' where
    "backoff_schedule_task schedule rearm cancel delay task arg c s = Some (ERR_OK, c', s')"
    "c' = c\<lparr>bo_handle := Some h\<rparr>" "inv s'" "timers s' = (timers s)(h \<mapsto> (now s + delay, t, a))" "now s' = now s"
    "bo_handle c = Some h \<and> (\<exists>u. timers s h = Some (u, t, a)) \<or> bo_handle c = None \<and> timers s h = None \<and> t = task \<and> a = arg"
  | (failed) "backoff_schedule_task schedule rearm cancel delay task arg c s = Some (ERR_FAIL, c, s)" "bo_handle c = None"
proof (cases "bo_handle c")
  case None
  then have same: "c\<lparr>bo_handle := None\<rparr> = c" by (cases c) auto
  from schedule_law [OF assms(1), of delay task arg] show thesis
  proof (elim disjE exE conjE)
    fix e assume "schedule delay task arg s = (e, None, s)" "e \<noteq> ERR_OK"
    then show thesis using failed None assms(3) same by (simp add: backoff_schedule_task_def Let_def)
  next
    fix h s' assume "schedule delay task arg s = (ERR_OK, Some h, s')" "timers s h = None" "inv s'"
      "timers s' = (timers s)(h \<mapsto> (now s + delay, task, arg))" "now s' = now s"
    then show thesis using ok None assms(3) by (simp add: backoff_schedule_task_def Let_def)
  qed
next
  case (Some h)
  then obtain u t a where h: "timers s h = Some (u, t, a)" using assms(2) by (auto simp: handle_ok_def)
  from rearm_law [OF assms(1) h, of delay] obtain s' where
    "rearm h delay s = Some (ERR_OK, s')" "inv s'" "timers s' = (timers s)(h \<mapsto> (now s + delay, t, a))" "now s' = now s"
    by blast
  then show thesis using ok h Some assms(3) by (simp add: backoff_schedule_task_def Let_def)
qed

lemma reset_cancels:
  assumes "inv s" "handle_ok (timers s) c"
  shows "\<exists>s'. backoff_reset cancel d (Some c) s =
      Some (Some (c\<lparr>reset_gen := reset_gen c + 1, bo_handle := None, delay_current := d\<rparr>), s')
    \<and> inv s' \<and> now s' = now s
    \<and> timers s' = (case bo_handle c of None \<Rightarrow> timers s | Some h \<Rightarrow> (timers s)(h := None))"
proof (cases "bo_handle c")
  case None
  then show ?thesis using assms by (simp add: backoff_reset_def Let_def)
next
  case (Some h)
  then obtain s' where "cancel h s = Some (ERR_OK, s')" "inv s'" "timers s' = (timers s)(h := None)" "now s' = now s"
    using cancel_law [OF assms(1), of h] assms(2) by (auto simp: handle_ok_def)
  then show ?thesis using Some by (simp add: backoff_reset_def Let_def)
qed

lemma retry_arms_one:
  assumes "inv s" "handle_ok (timers s) c" "task \<noteq> 0"
    and run: "backoff_retry schedule rearm cancel random task arg (Some c) s = Some (e, c', s')"
  shows "(\<exists>d c1 h t a. backoff_get_next_delay_ms random c = (d, c1)
        \<and> e = ERR_OK \<and> c' = Some (c1\<lparr>bo_handle := Some h\<rparr>) \<and> inv s'
        \<and> timers s' = (timers s)(h \<mapsto> (now s + d, t, a)) \<and> (bo_handle c = None \<longrightarrow> timers s h = None \<and> t = task \<and> a = arg)
        \<and> (\<forall>h0. bo_handle c = Some h0 \<longrightarrow> h = h0))
    \<or> (e = ERR_FAIL \<and> s' = s \<and> c' = Some (snd (backoff_get_next_delay_ms random c)) \<and> bo_handle c = None)"
proof -
  obtain d c1 where d: "backoff_get_next_delay_ms random c = (d, c1)" by fastforce
  then have same: "bo_handle c1 = bo_handle c" by (auto simp: backoff_get_next_delay_ms_def Let_def)
  have ok1: "handle_ok (timers s) c1" using assms(2) same by (simp add: handle_ok_def)
  have r: "backoff_retry schedule rearm cancel random task arg (Some c) s =
      map_option (\<lambda>(e, c2, s'). (e, Some c2, s')) (backoff_schedule_task schedule rearm cancel d task arg c1 s)"
    using assms(3) d by (simp add: backoff_retry_def)
  from assms(1) ok1 assms(3) show ?thesis
  proof (cases rule: schedule_task_cases [where delay = d and arg = arg])
    case (ok h t a c2 s2)
    then have "e = ERR_OK" "c' = Some (c1\<lparr>bo_handle := Some h\<rparr>)" "s' = s2" using run r by auto
    then show ?thesis using ok d same by (intro disjI1 exI [of _ d] exI [of _ c1] exI [of _ h] exI [of _ t] exI [of _ a]) auto
  next
    case failed
    then show ?thesis using run r d same by auto
  qed
qed

lemma retry_never_dangles:
  assumes "inv s" "handle_ok (timers s) c" "task \<noteq> 0"
  shows "backoff_retry schedule rearm cancel random task arg (Some c) s \<noteq> None"
proof -
  obtain d c1 where d: "backoff_get_next_delay_ms random c = (d, c1)" by fastforce
  then have "bo_handle c1 = bo_handle c" by (auto simp: backoff_get_next_delay_ms_def Let_def)
  then have ok1: "handle_ok (timers s) c1" using assms(2) by (simp add: handle_ok_def)
  from assms(1) ok1 assms(3) show ?thesis
    by (cases rule: schedule_task_cases [where delay = d and arg = arg]) (use assms(3) d in \<open>auto simp: backoff_retry_def\<close>)
qed

lemma fire_arms_one:
  assumes "inv s" "handle_ok (timers s) c" "task \<noteq> 0"
  obtains (ok) h t a s' where
    "backoff_fire schedule rearm cancel task arg (Some c) s = Some (ERR_OK, Some (c\<lparr>bo_handle := Some h\<rparr>), s')"
    "inv s'" "timers s' = (timers s)(h \<mapsto> (now s + delay_current c, t, a))"
    "bo_handle c = Some h \<or> bo_handle c = None \<and> timers s h = None"
  | (failed) "backoff_fire schedule rearm cancel task arg (Some c) s = Some (ERR_FAIL, Some c, s)" "bo_handle c = None"
  by (rule schedule_task_cases [OF assms, where delay = "delay_current c" and arg = arg])
    (use assms(3) in \<open>auto simp: backoff_fire_def\<close>)

lemma run_calls_one_timer:
  assumes "inv s" "handle_ok (timers s) c" "task \<noteq> 0"
  shows "\<exists>c' s'. run_backoff schedule rearm cancel task arg calls (Some c) s = Some (Some c', s')
    \<and> inv s' \<and> handle_ok (timers s') c'
    \<and> timers s' |` (- set_option (bo_handle c')) = timers s |` (- set_option (bo_handle c))"
  using assms(1,2)
proof (induction calls arbitrary: c s)
  case (Cons call calls)
  have step: "\<exists>c1 s1. backoff_do_call schedule rearm cancel task arg call (Some c) s = Some (Some c1, s1)
    \<and> inv s1 \<and> handle_ok (timers s1) c1
    \<and> timers s1 |` (- set_option (bo_handle c1)) = timers s |` (- set_option (bo_handle c))"
  proof (cases call)
    case (Retry r)
    obtain d c0 where d: "backoff_get_next_delay_ms r c = (d, c0)" by fastforce
    then have same: "bo_handle c0 = bo_handle c" by (auto simp: backoff_get_next_delay_ms_def Let_def)
    have ok0: "handle_ok (timers s) c0" using Cons.prems(2) same by (simp add: handle_ok_def)
    from Cons.prems(1) ok0 assms(3) show ?thesis
      by (cases rule: schedule_task_cases [where delay = d and arg = arg])
        (use d same Retry assms(3) Cons.prems in
          \<open>auto simp: backoff_retry_def handle_ok_def restrict_map_def fun_eq_iff\<close>)
  next
    case Fire
    from Cons.prems assms(3) show ?thesis
      by (cases rule: fire_arms_one [where arg = arg])
        (use Fire Cons.prems in \<open>auto simp: handle_ok_def restrict_map_def fun_eq_iff\<close>)
  next
    case (Reset d)
    let ?c = "c\<lparr>reset_gen := reset_gen c + 1, bo_handle := None, delay_current := d\<rparr>"
    from reset_cancels [OF Cons.prems, of d] obtain s1 where
      "backoff_reset cancel d (Some c) s = Some (Some ?c, s1)" "inv s1"
      "timers s1 = (case bo_handle c of None \<Rightarrow> timers s | Some h \<Rightarrow> (timers s)(h := None))" by blast
    then show ?thesis
      using Reset by (intro exI [of _ ?c] exI [of _ s1])
        (auto simp: handle_ok_def restrict_map_def fun_eq_iff split: option.splits)
  qed
  then obtain c1 s1 where 1: "backoff_do_call schedule rearm cancel task arg call (Some c) s = Some (Some c1, s1)"
    "inv s1" "handle_ok (timers s1) c1"
    "timers s1 |` (- set_option (bo_handle c1)) = timers s |` (- set_option (bo_handle c))" by blast
  from Cons.IH [OF 1(2,3)] 1 show ?case by auto
qed simp

end

section \<open>Properties\<close>

text \<open>C30: From a base delay not above the maximum, the i-th retry waits \<open>min max (base * factor ^ i)\<close>
milliseconds plus a jitter between 0 and the configured maximum, provided the products and sums fit in
64 bits.\<close>

theorem backoff_delays_exponential:
  assumes "unat base \<le> unat (delay_max c)" "unat (delay_max c) * unat (exp_factor c) < 2 ^ 64"
    and "1 \<le> unat (exp_factor c)" "unat (delay_max c) + unat (max_jitter_ms c) < 2 ^ 64" "i < length rs"
  shows "let b = min (unat (delay_max c)) (unat base * unat (exp_factor c) ^ i);
             d = unat (backoff_delays rs (c\<lparr>delay_current := base\<rparr>) ! i)
         in b \<le> d \<and> d \<le> b + unat (max_jitter_ms c)"
proof -
  let ?x = "(next_delay c ^^ i) base"
  have x: "unat ?x = min (unat (delay_max c)) (unat base * unat (exp_factor c) ^ i)"
    by (rule next_delay_iterate [OF assms(1-3)])
  obtain r :: u32 where r: "backoff_delays rs (c\<lparr>delay_current := base\<rparr>) ! i = ?x + ucast (r mod (ucast (max_jitter_ms c) + 1))"
    using backoff_delays_nth [OF assms(5)] by blast
  let ?j = "unat (ucast (r mod (ucast (max_jitter_ms c) + 1)) :: u64)"
  have "?j \<le> unat (max_jitter_ms c)" by (rule jitter_bound)
  moreover have "unat ?x + ?j < 2 ^ 64" using calculation x assms(4) by linarith
  ultimately show ?thesis unfolding r Let_def using x by (simp add: unat_word_ariths(1))
qed

definition sample_backoff :: backoff_ctx where
  "sample_backoff = \<lparr>bo_handle = None, reset_gen = 0, delay_current = 1000, delay_max = 300000,
                     exp_factor = 2, max_jitter_ms = 1000\<rparr>"

lemma backoff_delays_exponential_witness:
  "4000 \<le> unat (backoff_delays [5, 7, 9, 11] (sample_backoff\<lparr>delay_current := 1000\<rparr>) ! 2)
   \<and> unat (backoff_delays [5, 7, 9, 11] (sample_backoff\<lparr>delay_current := 1000\<rparr>) ! 2) \<le> 5000"
  using backoff_delays_exponential [of 1000 sample_backoff 2 "[5, 7, 9, 11]"]
  by (simp add: sample_backoff_def Let_def del: backoff_delays.simps)

text \<open>C31: Whatever sequence of retries, fires and resets is made on one context, the scheduler is never
handed a timer that does not exist, the context owns at most one timer, the timers of others are not
touched, and the handle always designates an allocated timer.\<close>

theorem backoff_owns_one_timer:
  assumes "vs_inv s" "handle_ok (vs_timers s) c" "task \<noteq> 0"
  shows "\<exists>c' s'. run_backoff (osal_scheduler_schedule_task b) osal_scheduler_reset_timer osal_scheduler_cancel_task
        task arg calls (Some c) s = Some (Some c', s')
    \<and> vs_inv s' \<and> handle_ok (vs_timers s') c'
    \<and> vs_timers s' |` (- set_option (bo_handle c')) = vs_timers s |` (- set_option (bo_handle c))"
  by (rule vs.run_calls_one_timer [OF assms])

definition sample_scheduler :: scheduler where
  "sample_scheduler = \<lparr>tasks = [sample_stask 4 70 False 0], tasks_mutex = True, scheduler_task = True,
     virtual_time_ms = 20, last_real_time_ms = 20, next_ptr = 9\<rparr>"

lemma sample_scheduler_inv: "vs_inv sample_scheduler" "handle_ok (vs_timers sample_scheduler) sample_backoff"
  by (simp_all add: vs_inv_def sample_scheduler_def sorted_tasks_def sample_stask_def handle_ok_def sample_backoff_def)

lemma backoff_owns_one_timer_witness:
  "\<exists>c' s'. run_backoff (osal_scheduler_schedule_task True) osal_scheduler_reset_timer osal_scheduler_cancel_task
        1 0 [Retry 3, Retry 5, Reset 1000, Fire] (Some sample_backoff) sample_scheduler = Some (Some c', s')
    \<and> vs_timers s' |` (- set_option (bo_handle c')) = vs_timers sample_scheduler |` UNIV"
  using backoff_owns_one_timer [OF sample_scheduler_inv, of 1 True 0 "[Retry 3, Retry 5, Reset 1000, Fire]"]
  by (auto simp: sample_backoff_def)

text \<open>C32: A retry that reports success has armed exactly one timer, the context's: a new one that runs
the given task, or the one the context already had; it is due at the current time plus the delay of the
sequence, and every other timer is unchanged. A retry that reports failure has changed no timer.\<close>

theorem backoff_retry_arms_timer:
  assumes "vs_inv s" "handle_ok (vs_timers s) c" "task \<noteq> 0"
    and "backoff_retry (osal_scheduler_schedule_task b) osal_scheduler_reset_timer osal_scheduler_cancel_task
           random task arg (Some c) s = Some (e, c', s')"
  shows "(\<exists>d c1 h t a. backoff_get_next_delay_ms random c = (d, c1)
        \<and> e = ERR_OK \<and> c' = Some (c1\<lparr>bo_handle := Some h\<rparr>) \<and> vs_inv s'
        \<and> vs_timers s' = (vs_timers s)(h \<mapsto> (virtual_time_ms s + d, t, a))
        \<and> (bo_handle c = None \<longrightarrow> vs_timers s h = None \<and> t = task \<and> a = arg)
        \<and> (\<forall>h0. bo_handle c = Some h0 \<longrightarrow> h = h0))
    \<or> (e = ERR_FAIL \<and> s' = s \<and> c' = Some (snd (backoff_get_next_delay_ms random c)) \<and> bo_handle c = None)"
  by (rule vs.retry_arms_one [OF assms])

lemma backoff_retry_arms_timer_witness:
  "\<exists>e c' s'. backoff_retry (osal_scheduler_schedule_task True) osal_scheduler_reset_timer osal_scheduler_cancel_task
           3 1 0 (Some sample_backoff) sample_scheduler = Some (e, c', s')
     \<and> (e = ERR_OK \<longrightarrow> (\<exists>h. vs_timers s' h = Some (1023, 1, 0)))"
proof -
  obtain e c' s' where run: "backoff_retry (osal_scheduler_schedule_task True) osal_scheduler_reset_timer
      osal_scheduler_cancel_task 3 1 0 (Some sample_backoff) sample_scheduler = Some (e, c', s')"
    using vs.retry_never_dangles [OF sample_scheduler_inv, of 1 True 3 0] by auto
  from backoff_retry_arms_timer [OF sample_scheduler_inv _ run] have "e = ERR_OK \<longrightarrow> (\<exists>h. vs_timers s' h = Some (1023, 1, 0))"
    by (auto simp: backoff_get_next_delay_ms_def Let_def sample_backoff_def sample_scheduler_def)
  then show ?thesis using run by blast
qed

end
