(* ===== verification/Backoff_Concurrent.thy ===== *)
theory Backoff_Concurrent
  imports Prelude
begin

text \<open>The lock-free handling of the timer handle in \<^verbatim>\<open>backoff.c\<close>, under every interleaving of retries and
resets made by several tasks on one context. Each atomic operation of
\<^verbatim>\<open>esp_rmaker_backoff_schedule_task\<close> and \<^verbatim>\<open>esp_rmaker_backoff_reset\<close>, and each call of the
scheduler, is one action of the task that makes it. The scheduler is reduced to the set of timers it
has allocated: a new timer's handle is any that is not allocated (so a freed handle may come back), and
re-arming or cancelling a handle that is not allocated is recorded as a use after free.\<close>

section \<open>State\<close>

datatype bo_pc =
    Idle
  | R_LoadGen                      \<comment> \<open>line 64\<close>
  | R_Take u32                     \<comment> \<open>line 67\<close>
  | R_Arm u32 "nat option"         \<comment> \<open>lines 69 to 73\<close>
  | R_Put u32 nat                  \<comment> \<open>line 77\<close>
  | R_Cancel nat                   \<comment> \<open>line 78\<close>
  | R_CheckGen u32 nat             \<comment> \<open>line 79\<close>
  | R_Remove nat                   \<comment> \<open>line 82\<close>
  | R_CancelRemoved nat            \<comment> \<open>line 83\<close>
  | Z_Increment                    \<comment> \<open>line 98\<close>
  | Z_Take                         \<comment> \<open>line 99\<close>
  | Z_Cancel nat                   \<comment> \<open>line 101\<close>
  | Z_Store                        \<comment> \<open>line 105\<close>

datatype bo_op = RetryOp | ResetOp

datatype bo_event = Began nat bo_op | Ended nat bo_op bool

record bo_system =
  ctx_handle :: "nat option"
  ctx_gen :: u32
  allocated :: "nat set"
  pcs :: "nat \<Rightarrow> bo_pc"
  use_after_free :: bool
  armed_gen :: "nat \<Rightarrow> u32"  \<comment> \<open>the generation read by the retry that last armed the timer\<close>
  events :: "bo_event list"

section \<open>Actions\<close>

definition goto_pc :: "nat \<Rightarrow> bo_pc \<Rightarrow> bo_system \<Rightarrow> bo_system" where
  "goto_pc tid pc s = s\<lparr>pcs := (pcs s)(tid := pc)\<rparr>"

definition finish :: "nat \<Rightarrow> bo_op \<Rightarrow> bool \<Rightarrow> bo_system \<Rightarrow> bo_system" where
  "finish tid op ok s = s\<lparr>pcs := (pcs s)(tid := Idle), events := events s @ [Ended tid op ok]\<rparr>"

definition cancel_timer :: "nat \<Rightarrow> bo_system \<Rightarrow> bo_system" where
  "cancel_timer h s =
     (if h \<in> allocated s then s\<lparr>allocated := allocated s - {h}\<rparr> else s\<lparr>use_after_free := True\<rparr>)"

definition begin_op :: "nat \<Rightarrow> bo_op \<Rightarrow> bo_system \<Rightarrow> bo_system" where
  "begin_op tid op s =
     s\<lparr>pcs := (pcs s)(tid := (case op of RetryOp \<Rightarrow> R_LoadGen | ResetOp \<Rightarrow> Z_Increment)),
       events := events s @ [Began tid op]\<rparr>"

text \<open>The next action of task \<open>tid\<close>; \<open>fresh\<close> is what an allocation in it returns.\<close>

definition bo_action :: "nat option \<Rightarrow> nat \<Rightarrow> bo_system \<Rightarrow> bo_system" where
  "bo_action fresh tid s =
     (case pcs s tid of
        Idle \<Rightarrow> s
      | R_LoadGen \<Rightarrow> goto_pc tid (R_Take (ctx_gen s)) s
      | R_Take g \<Rightarrow> goto_pc tid (R_Arm g (ctx_handle s)) (s\<lparr>ctx_handle := None\<rparr>)
      | R_Arm g (Some h) \<Rightarrow>
          if h \<in> allocated s then goto_pc tid (R_Put g h) (s\<lparr>armed_gen := (armed_gen s)(h := g)\<rparr>)
          else s\<lparr>use_after_free := True\<rparr>
      | R_Arm g None \<Rightarrow>
          (case fresh of
             None \<Rightarrow> finish tid RetryOp False s
           | Some h \<Rightarrow> goto_pc tid (R_Put g h)
               (s\<lparr>allocated := insert h (allocated s), armed_gen := (armed_gen s)(h := g)\<rparr>))
      | R_Put g h \<Rightarrow>
          if ctx_handle s = None then goto_pc tid (R_CheckGen g h) (s\<lparr>ctx_handle := Some h\<rparr>)
          else goto_pc tid (R_Cancel h) s
      | R_Cancel h \<Rightarrow> finish tid RetryOp True (cancel_timer h s)
      | R_CheckGen g h \<Rightarrow>
          if ctx_gen s \<noteq> g then goto_pc tid (R_Remove h) s else finish tid RetryOp True s
      | R_Remove h \<Rightarrow>
          if ctx_handle s = Some h then goto_pc tid (R_CancelRemoved h) (s\<lparr>ctx_handle := None\<rparr>)
          else finish tid RetryOp True s
      | R_CancelRemoved h \<Rightarrow> finish tid RetryOp True (cancel_timer h s)
      | Z_Increment \<Rightarrow> goto_pc tid Z_Take (s\<lparr>ctx_gen := ctx_gen s + 1\<rparr>)
      | Z_Take \<Rightarrow>
          goto_pc tid (case ctx_handle s of None \<Rightarrow> Z_Store | Some h \<Rightarrow> Z_Cancel h) (s\<lparr>ctx_handle := None\<rparr>)
      | Z_Cancel h \<Rightarrow> goto_pc tid Z_Store (cancel_timer h s)
      | Z_Store \<Rightarrow> finish tid ResetOp True s)"

inductive bo_step :: "bo_system \<Rightarrow> bo_system \<Rightarrow> bool" where
  Begin: "pcs s tid = Idle \<Longrightarrow> bo_step s (begin_op tid op s)"
| Action: "(\<forall>h. fresh = Some h \<longrightarrow> h \<notin> allocated s) \<Longrightarrow> pcs s tid \<noteq> Idle \<Longrightarrow> bo_step s (bo_action fresh tid s)"

definition bo_initial :: bo_system where
  "bo_initial = \<lparr>ctx_handle = None, ctx_gen = 0, allocated = {}, pcs = (\<lambda>_. Idle),
                 use_after_free = False, armed_gen = (\<lambda>_. 0), events = []\<rparr>"

inductive bo_reachable :: "bo_system \<Rightarrow> bool" where
  init: "bo_reachable bo_initial"
| step: "bo_reachable s \<Longrightarrow> bo_step s s' \<Longrightarrow> bo_reachable s'"

inductive_cases bo_stepE: "bo_step s s'"

section \<open>Ownership\<close>

text \<open>The timer a task holds exclusively, between taking it out of the context and giving it up.\<close>

fun held :: "bo_pc \<Rightarrow> nat option" where
  "held (R_Arm g h) = h"
| "held (R_Put g h) = Some h"
| "held (R_Cancel h) = Some h"
| "held (R_CancelRemoved h) = Some h"
| "held (Z_Cancel h) = Some h"
| "held _ = None"

text \<open>Every allocated timer is in the context or held by exactly one task, never both.\<close>

definition owned :: "nat option \<Rightarrow> nat set \<Rightarrow> (nat \<Rightarrow> nat option) \<Rightarrow> bool" where
  "owned H A hs \<longleftrightarrow>
       (\<forall>h. H = Some h \<longrightarrow> h \<in> A \<and> (\<forall>t. hs t \<noteq> Some h))
     \<and> (\<forall>t h. hs t = Some h \<longrightarrow> h \<in> A \<and> (\<forall>t'. hs t' = Some h \<longrightarrow> t' = t))
     \<and> (\<forall>h \<in> A. H = Some h \<or> (\<exists>t. hs t = Some h))"

lemma ownedI:
  assumes "\<And>h. H = Some h \<Longrightarrow> h \<in> A" "\<And>h t. H = Some h \<Longrightarrow> hs t \<noteq> Some h"
    and "\<And>t h. hs t = Some h \<Longrightarrow> h \<in> A" "\<And>t t' h. hs t = Some h \<Longrightarrow> hs t' = Some h \<Longrightarrow> t' = t"
    and "\<And>h. h \<in> A \<Longrightarrow> H \<noteq> Some h \<Longrightarrow> \<exists>t. hs t = Some h"
  shows "owned H A hs"
  unfolding owned_def using assms by blast

lemma ownedD:
  assumes "owned H A hs"
  shows "H = Some h \<Longrightarrow> h \<in> A" "H = Some h \<Longrightarrow> hs t \<noteq> Some h" "hs t = Some h \<Longrightarrow> h \<in> A"
    "hs t = Some h \<Longrightarrow> hs t' = Some h \<Longrightarrow> t' = t" "h \<in> A \<Longrightarrow> H \<noteq> Some h \<Longrightarrow> \<exists>t. hs t = Some h"
  using assms unfolding owned_def by blast+

lemma owned_same: "owned H A hs \<Longrightarrow> hs t = x \<Longrightarrow> owned H A (hs(t := x))"
  by (simp add: fun_upd_idem)

lemma owned_take: "owned H A hs \<Longrightarrow> hs t = None \<Longrightarrow> owned None A (hs(t := H))"
proof (rule ownedI, goal_cases)
  case (5 h)
  show ?case
  proof (cases "H = Some h")
    case True then show ?thesis by (intro exI [of _ t]) simp
  next
    case False
    then obtain u where "hs u = Some h" using ownedD(5) [OF 5(1,3)] by blast
    then show ?thesis using 5(2) by (intro exI [of _ u]) auto
  qed
qed (auto dest: ownedD split: if_splits)

lemma owned_put:
  assumes "owned None A hs" "hs t = Some h" shows "owned (Some h) A (hs(t := None))"
proof (rule ownedI, goal_cases)
  case (5 g)
  then obtain u where "hs u = Some g" using ownedD(5) [OF assms(1)] by blast
  then show ?case using 5 assms(2) by (intro exI [of _ u]) auto
qed (use assms in \<open>auto dest: ownedD split: if_splits\<close>)

lemma owned_alloc:
  assumes "owned H A hs" "h \<notin> A" "hs t = None" shows "owned H (insert h A) (hs(t := Some h))"
proof (rule ownedI, goal_cases)
  case (5 g)
  show ?case
  proof (cases "g = h")
    case True then show ?thesis by (intro exI [of _ t]) simp
  next
    case False
    then obtain u where "hs u = Some g" using ownedD(5) [OF assms(1)] 5 by blast
    then show ?thesis using assms(3) by (intro exI [of _ u]) auto
  qed
qed (use assms in \<open>auto dest: ownedD split: if_splits\<close>)

lemma owned_free:
  assumes "owned H A hs" "hs t = Some h" shows "owned H (A - {h}) (hs(t := None))"
proof (rule ownedI, goal_cases)
  case (5 g)
  then obtain u where "hs u = Some g" using ownedD(5) [OF assms(1)] by blast
  then show ?case using 5 assms(2) by (intro exI [of _ u]) auto
qed (use assms in \<open>auto dest: ownedD split: if_splits\<close>)

definition bo_owned :: "bo_system \<Rightarrow> bool" where
  "bo_owned s \<longleftrightarrow> \<not> use_after_free s \<and> owned (ctx_handle s) (allocated s) (held \<circ> pcs s)"

text \<open>A timer of an older generation in the context is about to be removed: by the retry that put it
there, by one that is removing it, or by a reset.\<close>

definition bo_fresh :: "bo_system \<Rightarrow> bool" where
  "bo_fresh s \<longleftrightarrow>
     (\<forall>t g h. pcs s t = R_Put g h \<longrightarrow> armed_gen s h = g)
   \<and> (\<forall>h. ctx_handle s = Some h \<and> armed_gen s h \<noteq> ctx_gen s \<longrightarrow>
        (\<exists>t. pcs s t = R_CheckGen (armed_gen s h) h \<or> pcs s t = R_Remove h \<or> pcs s t = Z_Take))"

lemma held_upd: "held \<circ> (f(tid := pc)) = (held \<circ> f)(tid := held pc)"
  by auto

lemma held_allocated: "bo_owned s \<Longrightarrow> held (pcs s t) = Some h \<Longrightarrow> h \<in> allocated s"
  by (auto simp: bo_owned_def owned_def)

lemma bo_owned_begin: "bo_owned s \<Longrightarrow> pcs s tid = Idle \<Longrightarrow> bo_owned (begin_op tid op s)"
  by (cases op) (simp_all add: bo_owned_def begin_op_def held_upd owned_same)

lemma bo_owned_action:
  assumes "bo_owned s" "\<forall>h. fresh = Some h \<longrightarrow> h \<notin> allocated s"
  shows "bo_owned (bo_action fresh tid s)"
proof -
  have u: "\<not> use_after_free s" and o: "owned (ctx_handle s) (allocated s) (held \<circ> pcs s)"
    using assms(1) by (auto simp: bo_owned_def)
  note defs = bo_owned_def bo_action_def goto_pc_def finish_def cancel_timer_def held_upd
  note live = held_allocated [OF assms(1), of tid]
  show ?thesis
  proof (cases "pcs s tid")
    case (R_Arm g ho)
    then show ?thesis
      using u o assms(2) live
      by (cases ho; cases fresh) (simp_all add: defs owned_same owned_alloc)
  next
    case (R_Put g h)
    then show ?thesis using u o by (cases "ctx_handle s") (simp_all add: defs owned_same owned_put)
  next
    case Z_Take
    then show ?thesis using u owned_take [OF o, of tid] by (cases "ctx_handle s") (simp_all add: defs)
  next
    case (R_Remove h)
    then show ?thesis using u o owned_take [OF o, of tid]
      by (cases "ctx_handle s = Some h") (simp_all add: defs owned_same)
  qed (use u o live in \<open>simp_all add: defs owned_same owned_take owned_free\<close>)
qed

lemma held_unique:
  assumes "bo_owned s" "held (pcs s t) = Some h"
  shows "held (pcs s t') = Some h \<Longrightarrow> t' = t" "ctx_handle s \<noteq> Some h"
  using assms ownedD(4) [of "ctx_handle s" "allocated s" "held \<circ> pcs s" t h t']
    ownedD(2) [of "ctx_handle s" "allocated s" "held \<circ> pcs s" h t]
  by (auto simp: bo_owned_def)

definition removing :: "bo_pc \<Rightarrow> u32 \<Rightarrow> nat \<Rightarrow> bool" where
  "removing pc g h \<longleftrightarrow> pc = R_CheckGen g h \<or> pc = R_Remove h \<or> pc = Z_Take"

lemma bo_freshI:
  assumes "\<And>t g h. pcs s t = R_Put g h \<Longrightarrow> armed_gen s h = g"
    and "\<And>h. ctx_handle s = Some h \<Longrightarrow> armed_gen s h \<noteq> ctx_gen s \<Longrightarrow> \<exists>t. removing (pcs s t) (armed_gen s h) h"
  shows "bo_fresh s"
  using assms unfolding bo_fresh_def removing_def by blast

lemma bo_freshD:
  assumes "bo_fresh s"
  shows "pcs s t = R_Put g h \<Longrightarrow> armed_gen s h = g"
    and "ctx_handle s = Some h \<Longrightarrow> armed_gen s h \<noteq> ctx_gen s \<Longrightarrow> \<exists>t. removing (pcs s t) (armed_gen s h) h"
  using assms unfolding bo_fresh_def removing_def by blast+

text \<open>An action by a task that is not removing the context's timer, and that leaves the context, the
generation and the arming of that timer alone, keeps the second half of \<open>bo_fresh\<close>.\<close>

lemma removing_frame:
  assumes "bo_fresh s" "ctx_handle s = Some h" "armed_gen s h \<noteq> ctx_gen s"
    and "\<not> removing (pcs s tid) (armed_gen s h) h" "\<And>t. t \<noteq> tid \<Longrightarrow> pcs' t = pcs s t"
  shows "\<exists>t. removing (pcs' t) (armed_gen s h) h"
  using bo_freshD(2) [OF assms(1-3)] assms(4,5) by metis

lemma bo_fresh_begin: "bo_fresh s \<Longrightarrow> pcs s tid = Idle \<Longrightarrow> bo_fresh (begin_op tid op s)"
proof (rule bo_freshI, goal_cases)
  case (1 t g h)
  then show ?case by (auto simp: begin_op_def dest: bo_freshD(1) split: if_splits bo_op.splits)
next
  case (2 h)
  then show ?case
    using removing_frame [of s h tid "pcs (begin_op tid op s)"] by (simp add: begin_op_def removing_def)
qed

lemma bo_fresh_action:
  assumes "bo_fresh s" "bo_owned s" "\<forall>h. fresh = Some h \<longrightarrow> h \<notin> allocated s"
  shows "bo_fresh (bo_action fresh tid s)"
proof (rule bo_freshI, goal_cases)
  case (1 t g h)
  note put = bo_freshD(1) [OF assms(1)]
  have other: "h' \<noteq> h" if "t \<noteq> tid" "held (pcs s tid) = Some h'" for h'
    using held_unique(1) [OF assms(2) that(2), of t] that(1) 1
    by (auto simp: bo_action_def goto_pc_def finish_def cancel_timer_def split: bo_pc.splits option.splits if_splits)
  have mine: "h' \<noteq> h" if "t \<noteq> tid" "h' \<notin> allocated s" "pcs s t = R_Put g h" for h'
    using held_allocated [OF assms(2), of t h] that by auto
  show ?case
    using 1 other mine put [of t g h] assms(3)
    by (cases "t = tid") (auto simp: bo_action_def goto_pc_def finish_def cancel_timer_def
        split: bo_pc.splits option.splits if_splits)
next
  case (2 h)
  let ?s = "bo_action fresh tid s"
  note defs = bo_action_def goto_pc_def finish_def cancel_timer_def
  have frame: "\<exists>t. removing (pcs ?s t) (armed_gen ?s h) h"
    if "ctx_handle s = ctx_handle ?s" "ctx_gen s = ctx_gen ?s" "armed_gen s h = armed_gen ?s h"
      "\<not> removing (pcs s tid) (armed_gen s h) h"
  proof -
    have "\<And>t. t \<noteq> tid \<Longrightarrow> pcs ?s t = pcs s t"
      by (auto simp: defs split: bo_pc.splits option.splits)
    then show ?thesis using removing_frame [OF assms(1), of h tid "pcs ?s"] that 2 by simp
  qed
  note nofree = held_unique(2) [OF assms(2), of tid]
  have alloc: "h \<in> allocated s" if "ctx_handle s = Some h"
    using assms(2) that by (auto simp: bo_owned_def owned_def)
  show ?case
  proof (cases "pcs s tid")
    case (R_Arm g ho)
    then show ?thesis
      using 2 nofree alloc assms(3)
      by (intro frame; cases ho; cases fresh) (auto simp: defs removing_def split: if_splits)
  next
    case (R_Put g h0)
    show ?thesis
    proof (cases "ctx_handle s")
      case None
      then have "removing (pcs ?s tid) (armed_gen ?s h) h"
        using R_Put 2 bo_freshD(1) [OF assms(1) R_Put] by (auto simp: defs removing_def)
      then show ?thesis by blast
    next
      case (Some h1)
      then show ?thesis using R_Put by (intro frame) (simp_all add: defs removing_def)
    qed
  next
    case (R_CheckGen g h0)
    then have same: "ctx_handle ?s = ctx_handle s" "ctx_gen ?s = ctx_gen s" "armed_gen ?s = armed_gen s"
      by (simp_all add: defs)
    then obtain t where t: "removing (pcs s t) (armed_gen s h) h" using bo_freshD(2) [OF assms(1), of h] 2 same by metis
    have "removing (pcs ?s t) (armed_gen s h) h"
      using t R_CheckGen 2(2) same by (cases "t = tid") (auto simp: defs removing_def)
    then show ?thesis using same by auto
  next
    case Z_Increment
    then have "removing (pcs ?s tid) (armed_gen ?s h) h" by (simp add: defs removing_def)
    then show ?thesis by blast
  next
    case (R_Remove h0)
    show ?thesis
    proof (cases "ctx_handle s = Some h0")
      case True
      then show ?thesis using 2 R_Remove by (simp add: defs)
    next
      case False
      then have "ctx_handle ?s = ctx_handle s" "ctx_gen ?s = ctx_gen s" "armed_gen ?s = armed_gen s"
        using R_Remove by (simp_all add: defs)
      moreover have "h \<noteq> h0" using False 2(1) calculation(1) by auto
      ultimately show ?thesis using R_Remove by (intro frame) (simp_all add: removing_def)
    qed
  next
    case (R_Take g)
    then show ?thesis using 2 by (simp add: defs)
  next
    case Z_Take
    then show ?thesis using 2 by (simp add: defs)
  qed (rule frame; simp add: defs removing_def)+
qed

lemma bo_reachable_inv: "bo_reachable s \<Longrightarrow> bo_owned s \<and> bo_fresh s"
proof (induction rule: bo_reachable.induct)
  case init
  show ?case by (simp add: bo_initial_def bo_owned_def owned_def bo_fresh_def)
next
  case (step s s')
  from step.hyps(2) show ?case
    by (cases rule: bo_step.cases)
      (use step.IH in \<open>auto intro: bo_owned_begin bo_owned_action bo_fresh_begin bo_fresh_action\<close>)
qed

section \<open>Properties\<close>

text \<open>C33: Under every interleaving of any number of concurrent retries and resets, no call re-arms or
cancels a timer that no longer exists; and once all calls have returned, at most one timer is
allocated, the one in the context, and it was armed by a retry that read the current generation, one
that no later reset missed.\<close>

theorem backoff_concurrent_safe:
  assumes "bo_reachable s"
  shows "\<not> use_after_free s
    \<and> ((\<forall>t. pcs s t = Idle) \<longrightarrow> allocated s = set_option (ctx_handle s)
         \<and> (\<forall>h. ctx_handle s = Some h \<longrightarrow> armed_gen s h = ctx_gen s))"
proof (intro conjI impI)
  have o: "bo_owned s" and f: "bo_fresh s" using bo_reachable_inv [OF assms] by blast+
  show "\<not> use_after_free s" using o by (simp add: bo_owned_def)
  assume idle: "\<forall>t. pcs s t = Idle"
  show "allocated s = set_option (ctx_handle s)"
    using o idle by (cases "ctx_handle s") (auto simp: bo_owned_def owned_def)
  show "\<forall>h. ctx_handle s = Some h \<longrightarrow> armed_gen s h = ctx_gen s"
    using f idle by (auto simp: bo_fresh_def)
qed

text \<open>Runs given by the task and allocation result of each action.\<close>

fun bo_run :: "(nat \<times> nat option) list \<Rightarrow> bo_system \<Rightarrow> bo_system" where
  "bo_run [] s = s"
| "bo_run ((tid, fresh) # as) s = bo_run as (bo_action fresh tid s)"

fun bo_run_ok :: "(nat \<times> nat option) list \<Rightarrow> bo_system \<Rightarrow> bool" where
  "bo_run_ok [] s = True"
| "bo_run_ok ((tid, fresh) # as) s =
     (pcs s tid \<noteq> Idle \<and> (case fresh of None \<Rightarrow> True | Some h \<Rightarrow> h \<notin> allocated s) \<and> bo_run_ok as (bo_action fresh tid s))"

lemma bo_run_reachable: "bo_reachable s \<Longrightarrow> bo_run_ok as s \<Longrightarrow> bo_reachable (bo_run as s)"
proof (induction as arbitrary: s)
  case (Cons a as)
  obtain tid fresh where a: "a = (tid, fresh)" by fastforce
  then have "bo_step s (bo_action fresh tid s)"
    using Cons.prems(2) by (intro bo_step.Action) (auto split: option.splits)
  then have "bo_reachable (bo_action fresh tid s)" using Cons.prems(1) bo_reachable.step by blast
  then show ?case using Cons.IH Cons.prems(2) a by simp
qed simp

lemma bo_begin_reachable: "bo_reachable s \<Longrightarrow> pcs s tid = Idle \<Longrightarrow> bo_reachable (begin_op tid op s)"
  using bo_reachable.step bo_step.Begin by blast

text \<open>The run of the next property, in five stages: task 1 retries and is interrupted before it puts its
timer into the context; task 3 resets; task 1 goes on until it has seen the new generation; task 2 then
retries to completion; task 1 finishes.\<close>

definition bo_stage :: "nat option \<Rightarrow> u32 \<Rightarrow> nat set \<Rightarrow> bo_pc \<Rightarrow> u32 \<Rightarrow> bo_event list \<Rightarrow> bo_system" where
  "bo_stage h g al pc1 ag es = \<lparr>ctx_handle = h, ctx_gen = g, allocated = al, pcs = (\<lambda>_. Idle)(1 := pc1),
     use_after_free = False, armed_gen = (\<lambda>_. 0)(7 := ag), events = es\<rparr>"

lemmas bo_exec = begin_op_def bo_action_def goto_pc_def finish_def cancel_timer_def

lemma stage1: "bo_run [(1, None), (1, None), (1, Some 7)] (begin_op 1 RetryOp bo_initial) =
    bo_stage None 0 {7} (R_Put 0 7) 0 [Began 1 RetryOp]"
  by (simp add: bo_exec bo_initial_def bo_stage_def fun_upd_idem)

lemma stage2: "bo_run [(3, None), (3, None), (3, None)] (begin_op 3 ResetOp (bo_stage None 0 {7} (R_Put 0 7) 0 es)) =
    bo_stage None 1 {7} (R_Put 0 7) 0 (es @ [Began 3 ResetOp, Ended 3 ResetOp True])"
  by (simp add: bo_exec bo_stage_def fun_upd_idem)

lemma stage3: "bo_run [(1, None), (1, None)] (bo_stage None 1 {7} (R_Put 0 7) 0 es) = bo_stage (Some 7) 1 {7} (R_Remove 7) 0 es"
  by (simp add: bo_exec bo_stage_def)

lemma stage4: "bo_run [(2, None), (2, None), (2, None), (2, None), (2, None)] (begin_op 2 RetryOp (bo_stage (Some 7) 1 {7} (R_Remove 7) 0 es)) =
    bo_stage (Some 7) 1 {7} (R_Remove 7) 1 (es @ [Began 2 RetryOp, Ended 2 RetryOp True])"
  by (simp add: bo_exec bo_stage_def fun_upd_idem)

lemma stage5: "bo_run [(1, None), (1, None)] (bo_stage (Some 7) 1 {7} (R_Remove 7) 1 es) =
    bo_stage None 1 {} Idle 1 (es @ [Ended 1 RetryOp True])"
  by (simp add: bo_exec bo_stage_def)

text \<open>C34: A retry can be lost: a reachable state has all calls returned, the last call to begin was a
retry made after the only reset had completed and it reported success, and yet no timer is allocated.
(The interrupted retry compares the context's handle with its own pointer, which the other retry has
taken and put back, and removes it.)\<close>

theorem backoff_retry_lost:
  "\<exists>s. bo_reachable s \<and> (\<forall>t. pcs s t = Idle)
     \<and> events s = [Began 1 RetryOp, Began 3 ResetOp, Ended 3 ResetOp True, Began 2 RetryOp, Ended 2 RetryOp True,
                   Ended 1 RetryOp True]
     \<and> ctx_handle s = None \<and> allocated s = {}"
proof -
  let ?p = "bo_stage None 0 {7} (R_Put 0 7) 0" and ?r = "bo_stage (Some 7) 1 {7} (R_Remove 7)"
  have 1: "bo_reachable (?p [Began 1 RetryOp])"
    unfolding stage1 [symmetric]
    by (intro bo_run_reachable bo_begin_reachable bo_reachable.init) (simp_all add: bo_exec bo_initial_def)
  have 2: "bo_reachable (bo_stage None 1 {7} (R_Put 0 7) 0 ([Began 1 RetryOp] @ [Began 3 ResetOp, Ended 3 ResetOp True]))"
    unfolding stage2 [symmetric]
    by (intro bo_run_reachable bo_begin_reachable 1) (simp_all add: bo_exec bo_stage_def)
  have 3: "bo_reachable (?r 0 ([Began 1 RetryOp] @ [Began 3 ResetOp, Ended 3 ResetOp True]))"
    unfolding stage3 [symmetric] by (intro bo_run_reachable 2) (simp add: bo_exec bo_stage_def)
  have 4: "bo_reachable (?r 1 (([Began 1 RetryOp] @ [Began 3 ResetOp, Ended 3 ResetOp True]) @ [Began 2 RetryOp, Ended 2 RetryOp True]))"
    unfolding stage4 [symmetric]
    by (intro bo_run_reachable bo_begin_reachable 3) (simp_all add: bo_exec bo_stage_def)
  have "bo_reachable (bo_stage None 1 {} Idle 1
      ((([Began 1 RetryOp] @ [Began 3 ResetOp, Ended 3 ResetOp True]) @ [Began 2 RetryOp, Ended 2 RetryOp True]) @ [Ended 1 RetryOp True]))"
    unfolding stage5 [symmetric] by (intro bo_run_reachable 4) (simp add: bo_exec bo_stage_def)
  then show ?thesis
    by (intro exI [of _ "bo_stage None 1 {} Idle 1
      ((([Began 1 RetryOp] @ [Began 3 ResetOp, Ended 3 ResetOp True]) @ [Began 2 RetryOp, Ended 2 RetryOp True]) @ [Ended 1 RetryOp True])"])
      (simp add: bo_stage_def)
qed

lemma backoff_concurrent_safe_witness: "\<not> use_after_free (begin_op 1 RetryOp bo_initial)"
  using backoff_concurrent_safe [OF bo_begin_reachable [OF bo_reachable.init, of 1 RetryOp]]
  by (simp add: bo_initial_def)

end
