(* ===== verification/Trigger_Codec.thy ===== *)
theory Trigger_Codec
  imports Prelude
begin

text \<open>The compact binary codec of automation triggers,
\<^verbatim>\<open>esp_rmaker_neo/src/util/esp_rmaker_trigger_codec.c\<close>: one pass from the cloud's JSON array to a blob
that is stored and from which every trigger list is rebuilt, and the bounds-checked cursor that reads
the blob. The JSON parser is a library outside the repository; an object it has entered is the record
of the answers its getters give. Pointers the decoder yields into the blob are offsets.\<close>

section \<open>The JSON getters\<close>

text \<open>\<^verbatim>\<open>get_string name size\<close> is the content copied into a buffer of \<open>size\<close> bytes, without its NUL;
\<open>None\<close> is any return code other than \<^verbatim>\<open>OS_SUCCESS\<close>. Floats are their 32-bit pattern.\<close>

record json_obj =
  js_bool :: "string \<Rightarrow> bool option"
  js_int :: "string \<Rightarrow> u32 option"
  js_float :: "string \<Rightarrow> u32 option"
  js_strlen :: "string \<Rightarrow> int option"
  js_string :: "string \<Rightarrow> nat \<Rightarrow> byte list option"
  js_object_strlen :: "string \<Rightarrow> int option"
  js_object_str :: "string \<Rightarrow> nat \<Rightarrow> byte list option"
  js_array_strlen :: "string \<Rightarrow> int option"
  js_array_str :: "string \<Rightarrow> nat \<Rightarrow> byte list option"

text \<open>What the getters document: a string copied into a buffer of its length plus one has that length.\<close>

definition getters_ok :: "json_obj \<Rightarrow> bool" where
  "getters_ok j \<longleftrightarrow>
     (\<forall>f n s. js_strlen j f = Some n \<longrightarrow> js_string j f (nat n + 1) = Some s \<longrightarrow> length s = nat n)
   \<and> (\<forall>f n s. js_object_strlen j f = Some n \<longrightarrow> js_object_str j f (nat n + 1) = Some s \<longrightarrow> length s = nat n)
   \<and> (\<forall>f n s. js_array_strlen j f = Some n \<longrightarrow> js_array_str j f (nat n + 1) = Some s \<longrightarrow> length s = nat n)"

section \<open>Constants\<close>

definition RMAKER_TRIGGER_CODEC_VERSION :: byte where "RMAKER_TRIGGER_CODEC_VERSION = 1"
definition FLAG_ENABLED :: byte where "FLAG_ENABLED = 1"
definition FLAG_VT_SHIFT :: nat where "FLAG_VT_SHIFT = 1"
definition FLAG_VT_MASK :: byte where "FLAG_VT_MASK = 0x0E"

definition VT_BOOL :: byte where "VT_BOOL = 0"
definition VT_INT :: byte where "VT_INT = 1"
definition VT_FLOAT :: byte where "VT_FLOAT = 2"
definition VT_STRING :: byte where "VT_STRING = 3"
definition VT_OBJECT :: byte where "VT_OBJECT = 4"
definition VT_ARRAY :: byte where "VT_ARRAY = 5"

lemmas vt_defs = VT_BOOL_def VT_INT_def VT_FLOAT_def VT_STRING_def VT_OBJECT_def VT_ARRAY_def

definition ascii :: "string \<Rightarrow> byte list" where
  "ascii s = map of_char s"

definition OP_NAMES :: "byte list list" where
  "OP_NAMES = map ascii [''eq'', ''ne'', ''gt'', ''lt'', ''ge'', ''le'']"

definition OP_COUNT :: nat where "OP_COUNT = length OP_NAMES"

section \<open>The growable buffer\<close>

record bytebuf =
  bb_data :: "byte list"  \<comment> \<open>the first \<^verbatim>\<open>len\<close> bytes\<close>
  bb_cap :: nat
  bb_oom :: bool

function grow_cap :: "nat \<Rightarrow> nat \<Rightarrow> nat" where
  "grow_cap ncap need = (if ncap < need \<and> 0 < ncap then grow_cap (2 * ncap) need else ncap)"
  by auto
termination by (relation "measure (\<lambda>(ncap, need). need - ncap)") auto

declare grow_cap.simps [simp del]

definition bb_reserve :: "(nat \<Rightarrow> bool) \<Rightarrow> nat \<Rightarrow> bytebuf \<Rightarrow> bytebuf" where
  "bb_reserve realloc_ok extra b =
     (if bb_oom b \<or> length (bb_data b) + extra \<le> bb_cap b then b
      else let ncap = grow_cap (if bb_cap b \<noteq> 0 then bb_cap b else 64) (length (bb_data b) + extra) in
           if \<not> realloc_ok ncap then b\<lparr>bb_oom := True\<rparr> else b\<lparr>bb_cap := ncap\<rparr>)"

definition bb_bytes :: "(nat \<Rightarrow> bool) \<Rightarrow> byte list \<Rightarrow> bytebuf \<Rightarrow> bytebuf" where
  "bb_bytes realloc_ok bs b =
     (let b' = bb_reserve realloc_ok (length bs) b in
      if \<not> bb_oom b' then b'\<lparr>bb_data := bb_data b' @ bs\<rparr> else b')"

definition bb_u8 :: "(nat \<Rightarrow> bool) \<Rightarrow> byte \<Rightarrow> bytebuf \<Rightarrow> bytebuf" where
  "bb_u8 realloc_ok v b =
     (let b' = bb_reserve realloc_ok 1 b in
      if \<not> bb_oom b' then b'\<lparr>bb_data := bb_data b' @ [v]\<rparr> else b')"

definition bb_u16 :: "(nat \<Rightarrow> bool) \<Rightarrow> u16 \<Rightarrow> bytebuf \<Rightarrow> bytebuf" where
  "bb_u16 realloc_ok v b =
     bb_u8 realloc_ok (ucast (drop_bit 8 v AND 0xFF)) (bb_u8 realloc_ok (ucast (v AND 0xFF)) b)"

section \<open>Encoding\<close>

text \<open>The C string in a buffer.\<close>

definition c_str :: "byte list \<Rightarrow> byte list" where
  "c_str s = takeWhile (\<lambda>b. b \<noteq> 0) s"

definition op_to_code :: "byte list \<Rightarrow> byte option" where
  "op_to_code op = map_option (\<lambda>i. word_of_nat i) (List.find (\<lambda>i. OP_NAMES ! i = c_str op) [0..<OP_COUNT])"

text \<open>\<open>None\<close> is a negative return code; the buffer is then abandoned by the caller.\<close>

definition encode_strlike ::
  "(nat \<Rightarrow> bool) \<Rightarrow> (nat \<Rightarrow> bool) \<Rightarrow> (string \<Rightarrow> int option) \<Rightarrow> (string \<Rightarrow> nat \<Rightarrow> byte list option)
     \<Rightarrow> bytebuf \<Rightarrow> bytebuf option" where
  "encode_strlike malloc_ok realloc_ok get_strlen get_str b =
     (case get_strlen ''value'' of
        None \<Rightarrow> None
      | Some slen \<Rightarrow>
          if slen < 0 \<or> slen > 0xFFFF then None
          else if \<not> malloc_ok (nat slen + 1) then None
          else (case get_str ''value'' (nat slen + 1) of
                  None \<Rightarrow> None
                | Some s \<Rightarrow> Some (bb_bytes realloc_ok (take (nat slen) s) (bb_u16 realloc_ok (word_of_int slen) b))))"

definition encode_value ::
  "(nat \<Rightarrow> bool) \<Rightarrow> (nat \<Rightarrow> bool) \<Rightarrow> json_obj \<Rightarrow> bytebuf \<Rightarrow> (byte \<times> bytebuf) option" where
  "encode_value malloc_ok realloc_ok j b =
     (if js_strlen j ''value'' \<noteq> None
      then map_option (Pair VT_STRING) (encode_strlike malloc_ok realloc_ok (js_strlen j) (js_string j) b)
      else if js_object_strlen j ''value'' \<noteq> None
      then map_option (Pair VT_OBJECT) (encode_strlike malloc_ok realloc_ok (js_object_strlen j) (js_object_str j) b)
      else if js_array_strlen j ''value'' \<noteq> None
      then map_option (Pair VT_ARRAY) (encode_strlike malloc_ok realloc_ok (js_array_strlen j) (js_array_str j) b)
      else (case js_int j ''value'' of
              Some v \<Rightarrow> Some (VT_INT, bb_bytes realloc_ok (le_bytes 4 v) b)
            | None \<Rightarrow>
                (case js_float j ''value'' of
                   Some v \<Rightarrow> Some (VT_FLOAT, bb_bytes realloc_ok (le_bytes 4 v) b)
                 | None \<Rightarrow>
                     (case js_bool j ''value'' of
                        Some v \<Rightarrow> Some (VT_BOOL, bb_u8 realloc_ok (if v then 1 else 0) b)
                      | None \<Rightarrow> None))))"

definition get_required_string :: "(nat \<Rightarrow> bool) \<Rightarrow> json_obj \<Rightarrow> string \<Rightarrow> byte list option" where
  "get_required_string malloc_ok j name =
     (case js_strlen j name of
        None \<Rightarrow> None
      | Some len \<Rightarrow>
          if len < 0 \<or> len > 0xFFFF then None
          else if \<not> malloc_ok (nat len + 1) then None
          else js_string j name (nat len + 1))"

text \<open>One trigger: \<open>Inl\<close> is the error that ends the loop.\<close>

definition encode_trigger ::
  "(nat \<Rightarrow> bool) \<Rightarrow> (nat \<Rightarrow> bool) \<Rightarrow> json_obj \<Rightarrow> bytebuf \<Rightarrow> err + bytebuf" where
  "encode_trigger malloc_ok realloc_ok j b =
     (case (get_required_string malloc_ok j ''id'', get_required_string malloc_ok j ''path'') of
        (Some id_s, Some path_s) \<Rightarrow>
          (case js_string j ''operator'' 12 of
             None \<Rightarrow> Inl ERR_FAIL
           | Some op \<Rightarrow>
               (case op_to_code op of
                  None \<Rightarrow> Inl ERR_FAIL
                | Some op_code \<Rightarrow>
                    let flags_pos = length (bb_data b);
                        b1 = bb_u8 realloc_ok op_code (bb_u8 realloc_ok 0 b);
                        b2 = bb_bytes realloc_ok (c_str id_s) (bb_u16 realloc_ok (word_of_nat (length (c_str id_s))) b1);
                        b3 = bb_bytes realloc_ok (c_str path_s) (bb_u16 realloc_ok (word_of_nat (length (c_str path_s))) b2)
                    in case encode_value malloc_ok realloc_ok j b3 of
                         None \<Rightarrow> Inl ERR_FAIL
                       | Some (vt, b4) \<Rightarrow>
                           Inr (if bb_oom b4 then b4
                                else b4\<lparr>bb_data := (bb_data b4)[flags_pos := FLAG_ENABLED OR (push_bit FLAG_VT_SHIFT vt AND FLAG_VT_MASK)]\<rparr>)))
      | _ \<Rightarrow> Inl ERR_FAIL)"

fun encode_loop ::
  "(nat \<Rightarrow> bool) \<Rightarrow> (nat \<Rightarrow> bool) \<Rightarrow> json_obj list \<Rightarrow> nat \<Rightarrow> bytebuf \<Rightarrow> err + (nat \<times> bytebuf)" where
  "encode_loop malloc_ok realloc_ok [] emitted b = Inr (emitted, b)"
| "encode_loop malloc_ok realloc_ok (j # js) emitted b =
     (if js_bool j ''enabled'' = Some False then encode_loop malloc_ok realloc_ok js emitted b
      else if emitted \<ge> 0xFF then Inl ERR_FAIL
      else (case encode_trigger malloc_ok realloc_ok j b of
              Inl e \<Rightarrow> Inl e
            | Inr b' \<Rightarrow> encode_loop malloc_ok realloc_ok js (emitted + 1) b'))"

text \<open>\<open>json\<close> is the parsed array, \<open>None\<close> when the parser refuses the text. The result is the blob.\<close>

definition trigger_details_encode ::
  "(nat \<Rightarrow> bool) \<Rightarrow> (nat \<Rightarrow> bool) \<Rightarrow> bool \<Rightarrow> json_obj list option \<Rightarrow> err + byte list" where
  "trigger_details_encode malloc_ok realloc_ok args_ok json =
     (if \<not> args_ok then Inl ERR_INVALID_ARG
      else (case json of
              None \<Rightarrow> Inl ERR_FAIL
            | Some js \<Rightarrow>
                let b0 = bb_u8 realloc_ok RMAKER_TRIGGER_CODEC_VERSION \<lparr>bb_data = [], bb_cap = 0, bb_oom = False\<rparr>;
                    count_pos = length (bb_data b0);
                    b1 = bb_u8 realloc_ok 0 b0
                in case encode_loop malloc_ok realloc_ok js 0 b1 of
                     Inl e \<Rightarrow> Inl e
                   | Inr (emitted, b) \<Rightarrow>
                       if bb_oom b then Inl ERR_NO_MEM
                       else Inr ((bb_data b)[count_pos := word_of_nat emitted])))"

section \<open>Decoding\<close>

record trigger_entry =
  te_id :: nat        \<comment> \<open>offset into the blob\<close>
  te_id_len :: nat
  te_path :: nat
  te_path_len :: nat
  te_op_code :: byte
  te_enabled :: bool
  te_value_type :: byte
  te_value_bool :: bool
  te_value_int :: u32
  te_value_float :: u32
  te_value_str :: nat
  te_value_str_len :: nat

definition zero_entry :: trigger_entry where
  "zero_entry = \<lparr>te_id = 0, te_id_len = 0, te_path = 0, te_path_len = 0, te_op_code = 0, te_enabled = False,
     te_value_type = 0, te_value_bool = False, te_value_int = 0, te_value_float = 0, te_value_str = 0,
     te_value_str_len = 0\<rparr>"

record trigger_iter =
  it_buf :: "byte list"
  it_len :: nat
  it_off :: nat
  it_remaining :: nat

definition trigger_details_iter_begin :: "byte list option \<Rightarrow> nat \<Rightarrow> (err + trigger_iter) outcome" where
  "trigger_details_iter_begin buf buf_len =
     (case buf of
        None \<Rightarrow> Returned (Inl ERR_INVALID_ARG)
      | Some bs \<Rightarrow>
          if buf_len < 2 then Returned (Inl ERR_FAIL)
          else obind (read_at bs 0) (\<lambda>ver.
                 if ver \<noteq> RMAKER_TRIGGER_CODEC_VERSION then Returned (Inl ERR_FAIL)
                 else obind (read_at bs 1) (\<lambda>n.
                   Returned (Inr \<lparr>it_buf = bs, it_len = buf_len, it_off = 2, it_remaining = unat n\<rparr>))))"

text \<open>The readers of the cursor: \<open>None\<close> is the negative return code.\<close>

definition cur_u8 :: "trigger_iter \<Rightarrow> (byte \<times> trigger_iter) option outcome" where
  "cur_u8 it =
     (if it_off it + 1 > it_len it then Returned None
      else obind (read_at (it_buf it) (it_off it)) (\<lambda>v. Returned (Some (v, it\<lparr>it_off := it_off it + 1\<rparr>))))"

definition cur_u16 :: "trigger_iter \<Rightarrow> (u16 \<times> trigger_iter) option outcome" where
  "cur_u16 it =
     (if it_off it + 2 > it_len it then Returned None
      else obind (read_at (it_buf it) (it_off it)) (\<lambda>lo.
           obind (read_at (it_buf it) (it_off it + 1)) (\<lambda>hi.
             Returned (Some (ucast lo OR push_bit 8 (ucast hi), it\<lparr>it_off := it_off it + 2\<rparr>)))))"

definition cur_blob :: "trigger_iter \<Rightarrow> ((nat \<times> nat) \<times> trigger_iter) option outcome" where
  "cur_blob it =
     obind (cur_u16 it) (\<lambda>r. case r of
        None \<Rightarrow> Returned None
      | Some (len, it1) \<Rightarrow>
          if it_off it1 + unat len > it_len it1 then Returned None
          else Returned (Some ((it_off it1, unat len), it1\<lparr>it_off := it_off it1 + unat len\<rparr>)))"

text \<open>The four bytes of an int or a float; \<open>None\<close> when they are not there.\<close>

definition cur_word32 :: "trigger_iter \<Rightarrow> (u32 \<times> trigger_iter) option outcome" where
  "cur_word32 it =
     (if it_off it + 4 > it_len it then Returned None
      else if it_off it + 4 \<le> length (it_buf it)
      then Returned (Some (of_le_bytes (mem_read (it_buf it) (it_off it) 4), it\<lparr>it_off := it_off it + 4\<rparr>))
      else Crashed)"

definition iter_next_value :: "trigger_entry \<Rightarrow> trigger_iter \<Rightarrow> (err + trigger_entry \<times> trigger_iter) outcome" where
  "iter_next_value out it =
     (if te_value_type out = VT_BOOL then
        obind (cur_u8 it) (\<lambda>r. Returned (case r of
            None \<Rightarrow> Inl ERR_FAIL | Some (v, it') \<Rightarrow> Inr (out\<lparr>te_value_bool := v \<noteq> 0\<rparr>, it')))
      else if te_value_type out = VT_INT then
        obind (cur_word32 it) (\<lambda>r. Returned (case r of
            None \<Rightarrow> Inl ERR_FAIL | Some (v, it') \<Rightarrow> Inr (out\<lparr>te_value_int := v\<rparr>, it')))
      else if te_value_type out = VT_FLOAT then
        obind (cur_word32 it) (\<lambda>r. Returned (case r of
            None \<Rightarrow> Inl ERR_FAIL | Some (v, it') \<Rightarrow> Inr (out\<lparr>te_value_float := v\<rparr>, it')))
      else if te_value_type out \<in> {VT_STRING, VT_OBJECT, VT_ARRAY} then
        obind (cur_blob it) (\<lambda>r. Returned (case r of
            None \<Rightarrow> Inl ERR_FAIL
          | Some ((p, n), it') \<Rightarrow> Inr (out\<lparr>te_value_str := p, te_value_str_len := n\<rparr>, it')))
      else Returned (Inl ERR_FAIL))"

definition iter_finish :: "err + trigger_entry \<times> trigger_iter \<Rightarrow> err + trigger_entry \<times> trigger_iter" where
  "iter_finish r = (case r of Inl e \<Rightarrow> Inl e | Inr (out, it) \<Rightarrow> Inr (out, it\<lparr>it_remaining := it_remaining it - 1\<rparr>))"

definition trigger_details_iter_next :: "trigger_iter \<Rightarrow> (err + trigger_entry \<times> trigger_iter) outcome" where
  "trigger_details_iter_next it =
     (if it_remaining it = 0 then Returned (Inl ERR_NOT_FOUND)
      else obind (cur_u8 it) (\<lambda>r1. case r1 of None \<Rightarrow> Returned (Inl ERR_FAIL) | Some (flags, it1) \<Rightarrow>
           obind (cur_u8 it1) (\<lambda>r2. case r2 of None \<Rightarrow> Returned (Inl ERR_FAIL) | Some (op, it2) \<Rightarrow>
             if unat op \<ge> OP_COUNT then Returned (Inl ERR_FAIL)
             else obind (cur_blob it2) (\<lambda>r3. case r3 of None \<Rightarrow> Returned (Inl ERR_FAIL) | Some ((idp, idn), it3) \<Rightarrow>
                  obind (cur_blob it3) (\<lambda>r4. case r4 of None \<Rightarrow> Returned (Inl ERR_FAIL) | Some ((pp, pn), it4) \<Rightarrow>
                  obind (iter_next_value (zero_entry\<lparr>te_op_code := op, te_enabled := (flags AND FLAG_ENABLED \<noteq> 0),
                           te_value_type := drop_bit FLAG_VT_SHIFT (flags AND FLAG_VT_MASK),
                           te_id := idp, te_id_len := idn, te_path := pp, te_path_len := pn\<rparr>) it4)
                    (\<lambda>r5. Returned (iter_finish r5)))))))"

text \<open>The consumers' loop: entries until the cursor reports an error, with that error.\<close>

fun iterate_triggers :: "nat \<Rightarrow> trigger_iter \<Rightarrow> (trigger_entry list \<times> err) outcome" where
  "iterate_triggers 0 it = Running"
| "iterate_triggers (Suc n) it =
     obind (trigger_details_iter_next it) (\<lambda>r. case r of
        Inl e \<Rightarrow> Returned ([], e)
      | Inr (out, it') \<Rightarrow> obind (iterate_triggers n it') (\<lambda>(es, e). Returned (out # es, e)))"

section \<open>The decoder reads inside the blob\<close>

definition iter_ok :: "trigger_iter \<Rightarrow> bool" where
  "iter_ok it \<longleftrightarrow> it_len it = length (it_buf it) \<and> it_off it \<le> it_len it"

lemma cur_u8_ok:
  assumes "iter_ok it"
  obtains "cur_u8 it = Returned None"
  | v where "cur_u8 it = Returned (Some (v, it\<lparr>it_off := it_off it + 1\<rparr>))" "it_off it + 1 \<le> it_len it"
  using assms by (cases "it_off it + 1 > it_len it") (auto simp: cur_u8_def iter_ok_def)

lemma cur_u16_ok:
  assumes "iter_ok it"
  obtains "cur_u16 it = Returned None"
  | v where "cur_u16 it = Returned (Some (v, it\<lparr>it_off := it_off it + 2\<rparr>))" "it_off it + 2 \<le> it_len it"
  using assms by (cases "it_off it + 2 > it_len it") (auto simp: cur_u16_def iter_ok_def)

lemma cur_blob_ok:
  assumes "iter_ok it"
  obtains "cur_blob it = Returned None"
  | n where "cur_blob it = Returned (Some ((it_off it + 2, n), it\<lparr>it_off := it_off it + 2 + n\<rparr>))"
      "it_off it + 2 + n \<le> it_len it"
  using assms
proof (cases rule: cur_u16_ok)
  case (2 v)
  then show ?thesis using that by (cases "it_off it + 2 + unat v > it_len it") (auto simp: cur_blob_def)
qed (use that in \<open>auto simp: cur_blob_def\<close>)

lemma cur_word32_ok:
  assumes "iter_ok it"
  obtains "cur_word32 it = Returned None"
  | v where "cur_word32 it = Returned (Some (v, it\<lparr>it_off := it_off it + 4\<rparr>))" "it_off it + 4 \<le> it_len it"
  using assms by (cases "it_off it + 4 > it_len it") (auto simp: cur_word32_def iter_ok_def)

lemma iter_ok_advance: "iter_ok it \<Longrightarrow> off \<le> it_len it \<Longrightarrow> iter_ok (it\<lparr>it_off := off\<rparr>)"
  by (simp add: iter_ok_def)

text \<open>An entry lies inside a blob of length \<open>n\<close>.\<close>

definition entry_within :: "nat \<Rightarrow> trigger_entry \<Rightarrow> bool" where
  "entry_within n e \<longleftrightarrow> te_id e + te_id_len e \<le> n \<and> te_path e + te_path_len e \<le> n
     \<and> te_value_str e + te_value_str_len e \<le> n \<and> unat (te_op_code e) < OP_COUNT"

lemma iter_next_value_ok:
  assumes "iter_ok it" "entry_within (it_len it) out"
  shows "iter_next_value out it = Returned (Inl ERR_FAIL)
    \<or> (\<exists>out' off. iter_next_value out it = Returned (Inr (out', it\<lparr>it_off := off\<rparr>)) \<and> off \<le> it_len it
         \<and> entry_within (it_len it) out')"
proof -
  have b: "(case cur_u8 it of Returned None \<Rightarrow> True
      | Returned (Some (v, it')) \<Rightarrow> it' = it\<lparr>it_off := it_off it + 1\<rparr> \<and> it_off it + 1 \<le> it_len it | _ \<Rightarrow> False)"
    using assms(1) by (cases rule: cur_u8_ok) auto
  have w: "(case cur_word32 it of Returned None \<Rightarrow> True
      | Returned (Some (v, it')) \<Rightarrow> it' = it\<lparr>it_off := it_off it + 4\<rparr> \<and> it_off it + 4 \<le> it_len it | _ \<Rightarrow> False)"
    using assms(1) by (cases rule: cur_word32_ok) auto
  have s: "(case cur_blob it of Returned None \<Rightarrow> True
      | Returned (Some ((p, n), it')) \<Rightarrow> p = it_off it + 2 \<and> it' = it\<lparr>it_off := it_off it + 2 + n\<rparr>
          \<and> it_off it + 2 + n \<le> it_len it | _ \<Rightarrow> False)"
    using assms(1) by (cases rule: cur_blob_ok) auto
  consider "te_value_type out = VT_BOOL" | "te_value_type out = VT_INT" | "te_value_type out = VT_FLOAT"
    | "te_value_type out \<in> {VT_STRING, VT_OBJECT, VT_ARRAY}"
    | "te_value_type out \<notin> {VT_BOOL, VT_INT, VT_FLOAT, VT_STRING, VT_OBJECT, VT_ARRAY}" by blast
  then show ?thesis
  proof cases
    case 1
    then show ?thesis using b assms(2)
      by (auto simp: iter_next_value_def entry_within_def split: outcome.splits option.splits)
  next
    case 2
    then show ?thesis using w assms(2)
      by (auto simp: iter_next_value_def entry_within_def vt_defs split: outcome.splits option.splits)
  next
    case 3
    then show ?thesis using w assms(2)
      by (auto simp: iter_next_value_def entry_within_def vt_defs split: outcome.splits option.splits)
  next
    case 4
    then show ?thesis using s assms(2)
      by (auto simp: iter_next_value_def entry_within_def vt_defs split: outcome.splits option.splits)
  next
    case 5
    then show ?thesis by (simp add: iter_next_value_def)
  qed
qed

lemma iter_next_ok:
  assumes "iter_ok it"
  shows "(it_remaining it = 0 \<and> trigger_details_iter_next it = Returned (Inl ERR_NOT_FOUND))
    \<or> (0 < it_remaining it \<and> trigger_details_iter_next it = Returned (Inl ERR_FAIL))
    \<or> (0 < it_remaining it \<and> (\<exists>out off. trigger_details_iter_next it =
          Returned (Inr (out, it\<lparr>it_off := off, it_remaining := it_remaining it - 1\<rparr>))
        \<and> off \<le> it_len it \<and> entry_within (it_len it) out))"
proof (cases "it_remaining it = 0")
  case True
  then show ?thesis by (simp add: trigger_details_iter_next_def)
next
  case rem: False
  let ?fail = "trigger_details_iter_next it = Returned (Inl ERR_FAIL)"
  have "?fail \<or> (\<exists>out off. trigger_details_iter_next it =
          Returned (Inr (out, it\<lparr>it_off := off, it_remaining := it_remaining it - 1\<rparr>))
        \<and> off \<le> it_len it \<and> entry_within (it_len it) out)"
    using assms
  proof (cases rule: cur_u8_ok)
    case 1
    then show ?thesis using rem by (simp add: trigger_details_iter_next_def)
  next
    case (2 flags)
    let ?i1 = "it\<lparr>it_off := it_off it + 1\<rparr>"
    have "iter_ok ?i1" using assms 2 by (simp add: iter_ok_advance)
    then show ?thesis
    proof (cases rule: cur_u8_ok)
      case 1
      then show ?thesis using rem 2 by (simp add: trigger_details_iter_next_def)
    next
      case (2 op)
      note u8s = \<open>cur_u8 it = _\<close> 2(1)
      let ?i2 = "it\<lparr>it_off := it_off it + 2\<rparr>"
      have i2: "iter_ok ?i2" using assms 2 by (simp add: iter_ok_advance)
      show ?thesis
      proof (cases "unat op < OP_COUNT")
        case False
        then show ?thesis using rem u8s by (simp add: trigger_details_iter_next_def)
      next
        case op: True
        from i2 show ?thesis
        proof (cases rule: cur_blob_ok)
          case 1
          then show ?thesis using rem u8s op by (simp add: trigger_details_iter_next_def)
        next
          case (2 idn)
          let ?i3 = "it\<lparr>it_off := it_off it + 4 + idn\<rparr>"
          have idb: "cur_blob ?i2 = Returned (Some ((it_off it + 4, idn), ?i3))" "it_off it + 4 + idn \<le> it_len it"
            using 2 by (simp_all add: ac_simps)
          have "iter_ok ?i3" using assms idb by (simp add: iter_ok_advance)
          then show ?thesis
          proof (cases rule: cur_blob_ok)
            case 1
            then show ?thesis using rem u8s op idb by (simp add: trigger_details_iter_next_def)
          next
            case (2 pn)
            let ?i4 = "it\<lparr>it_off := it_off it + 6 + idn + pn\<rparr>"
            have pb: "cur_blob ?i3 = Returned (Some ((it_off it + 6 + idn, pn), ?i4))" "it_off it + 6 + idn + pn \<le> it_len it"
              using 2 by (simp_all add: ac_simps)
            have i4: "iter_ok ?i4" using assms pb by (simp add: iter_ok_advance)
            let ?e = "zero_entry\<lparr>te_op_code := op, te_enabled := (flags AND FLAG_ENABLED \<noteq> 0),
                           te_value_type := drop_bit FLAG_VT_SHIFT (flags AND FLAG_VT_MASK),
                           te_id := it_off it + 4, te_id_len := idn, te_path := it_off it + 6 + idn, te_path_len := pn\<rparr>"
            have e: "entry_within (it_len ?i4) ?e" using idb pb op by (simp add: entry_within_def zero_entry_def)
            have run: "trigger_details_iter_next it = obind (iter_next_value ?e ?i4) (\<lambda>r5. Returned (iter_finish r5))"
              using rem u8s op idb pb by (simp add: trigger_details_iter_next_def)
            show ?thesis using iter_next_value_ok [OF i4 e] unfolding run by (auto simp: iter_finish_def)
          qed
        qed
      qed
    qed
  qed
  then show ?thesis using rem by auto
qed

lemma iterate_ok:
  assumes "iter_ok it" "it_remaining it < n"
  shows "\<exists>es e. iterate_triggers n it = Returned (es, e) \<and> (\<forall>x \<in> set es. entry_within (it_len it) x)
     \<and> e \<in> {ERR_NOT_FOUND, ERR_FAIL} \<and> length es \<le> it_remaining it
     \<and> (e = ERR_NOT_FOUND \<longleftrightarrow> length es = it_remaining it)"
  using assms
proof (induction n arbitrary: it)
  case (Suc n)
  from iter_next_ok [OF Suc.prems(1)] show ?case
  proof (elim disjE conjE exE)
    fix out off
    assume r: "0 < it_remaining it"
      "trigger_details_iter_next it = Returned (Inr (out, it\<lparr>it_off := off, it_remaining := it_remaining it - 1\<rparr>))"
      "off \<le> it_len it" "entry_within (it_len it) out"
    let ?it = "it\<lparr>it_off := off, it_remaining := it_remaining it - 1\<rparr>"
    have "iter_ok ?it" "it_remaining ?it < n" using Suc.prems r by (auto simp: iter_ok_def)
    from Suc.IH [OF this] obtain es e where "iterate_triggers n ?it = Returned (es, e)"
      "\<forall>x \<in> set es. entry_within (it_len it) x" "e \<in> {ERR_NOT_FOUND, ERR_FAIL}"
      "length es \<le> it_remaining it - 1" "e = ERR_NOT_FOUND \<longleftrightarrow> length es = it_remaining it - 1" by auto
    then show ?case using r by (intro exI [of _ "out # es"] exI [of _ e]) auto
  qed auto
qed simp

section \<open>The trigger a JSON object describes\<close>

datatype tvalue =
    TBool bool | TInt u32 | TFloat u32 | TString "byte list" | TObject "byte list" | TArray "byte list"

record trigger =
  tr_id :: "byte list"
  tr_path :: "byte list"
  tr_op :: byte
  tr_value :: tvalue

definition json_text :: "(string \<Rightarrow> int option) \<Rightarrow> (string \<Rightarrow> nat \<Rightarrow> byte list option) \<Rightarrow> string \<Rightarrow> byte list" where
  "json_text get_strlen get_str f = the (get_str f (nat (the (get_strlen f)) + 1))"

definition json_value :: "json_obj \<Rightarrow> tvalue" where
  "json_value j =
     (if js_strlen j ''value'' \<noteq> None then TString (json_text (js_strlen j) (js_string j) ''value'')
      else if js_object_strlen j ''value'' \<noteq> None then TObject (json_text (js_object_strlen j) (js_object_str j) ''value'')
      else if js_array_strlen j ''value'' \<noteq> None then TArray (json_text (js_array_strlen j) (js_array_str j) ''value'')
      else (case js_int j ''value'' of Some v \<Rightarrow> TInt v
            | None \<Rightarrow> (case js_float j ''value'' of Some v \<Rightarrow> TFloat v | None \<Rightarrow> TBool (the (js_bool j ''value'')))))"

definition json_trigger :: "json_obj \<Rightarrow> trigger" where
  "json_trigger j = \<lparr>tr_id = c_str (json_text (js_strlen j) (js_string j) ''id''),
     tr_path = c_str (json_text (js_strlen j) (js_string j) ''path''),
     tr_op = the (op_to_code (the (js_string j ''operator'' 12))), tr_value = json_value j\<rparr>"

definition json_enabled :: "json_obj \<Rightarrow> bool" where
  "json_enabled j \<longleftrightarrow> js_bool j ''enabled'' \<noteq> Some False"

text \<open>The trigger a decoded entry designates in its blob.\<close>

definition entry_value :: "byte list \<Rightarrow> trigger_entry \<Rightarrow> tvalue" where
  "entry_value blob e =
     (let s = mem_read blob (te_value_str e) (te_value_str_len e) in
      if te_value_type e = VT_BOOL then TBool (te_value_bool e)
      else if te_value_type e = VT_INT then TInt (te_value_int e)
      else if te_value_type e = VT_FLOAT then TFloat (te_value_float e)
      else if te_value_type e = VT_STRING then TString s
      else if te_value_type e = VT_OBJECT then TObject s else TArray s)"

definition entry_trigger :: "byte list \<Rightarrow> trigger_entry \<Rightarrow> trigger" where
  "entry_trigger blob e = \<lparr>tr_id = mem_read blob (te_id e) (te_id_len e),
     tr_path = mem_read blob (te_path e) (te_path_len e), tr_op = te_op_code e, tr_value = entry_value blob e\<rparr>"

section \<open>What the encoder writes\<close>

definition u16_bytes :: "u16 \<Rightarrow> byte list" where
  "u16_bytes v = [ucast (v AND 0xFF), ucast (drop_bit 8 v AND 0xFF)]"

definition blob_bytes :: "byte list \<Rightarrow> byte list" where
  "blob_bytes s = u16_bytes (word_of_nat (length s)) @ s"

fun value_bytes :: "tvalue \<Rightarrow> byte list" where
  "value_bytes (TBool b) = [if b then 1 else 0]"
| "value_bytes (TInt v) = le_bytes 4 v"
| "value_bytes (TFloat v) = le_bytes 4 v"
| "value_bytes (TString s) = blob_bytes s"
| "value_bytes (TObject s) = blob_bytes s"
| "value_bytes (TArray s) = blob_bytes s"

fun value_type :: "tvalue \<Rightarrow> byte" where
  "value_type (TBool b) = VT_BOOL"
| "value_type (TInt v) = VT_INT"
| "value_type (TFloat v) = VT_FLOAT"
| "value_type (TString s) = VT_STRING"
| "value_type (TObject s) = VT_OBJECT"
| "value_type (TArray s) = VT_ARRAY"

definition flags_byte :: "byte \<Rightarrow> byte" where
  "flags_byte vt = FLAG_ENABLED OR (push_bit FLAG_VT_SHIFT vt AND FLAG_VT_MASK)"

definition trigger_bytes :: "trigger \<Rightarrow> byte list" where
  "trigger_bytes t = [flags_byte (value_type (tr_value t)), tr_op t] @ blob_bytes (tr_id t)
     @ blob_bytes (tr_path t) @ value_bytes (tr_value t)"

fun value_fits :: "tvalue \<Rightarrow> bool" where
  "value_fits (TString s) = (length s \<le> 0xFFFF)"
| "value_fits (TObject s) = (length s \<le> 0xFFFF)"
| "value_fits (TArray s) = (length s \<le> 0xFFFF)"
| "value_fits _ = True"

definition trigger_fits :: "trigger \<Rightarrow> bool" where
  "trigger_fits t \<longleftrightarrow> length (tr_id t) \<le> 0xFFFF \<and> length (tr_path t) \<le> 0xFFFF \<and> unat (tr_op t) < OP_COUNT
     \<and> value_fits (tr_value t)"

text \<open>What the buffer holds after a write that did not run out of memory.\<close>

definition wrote :: "byte list \<Rightarrow> bytebuf \<Rightarrow> bytebuf \<Rightarrow> bool" where
  "wrote bs b b' \<longleftrightarrow> (\<not> bb_oom b' \<longrightarrow> \<not> bb_oom b \<and> bb_data b' = bb_data b @ bs)"

lemma reserve_data [simp]: "bb_data (bb_reserve r n b) = bb_data b"
  by (simp add: bb_reserve_def Let_def)

lemma reserve_oom: "bb_oom b \<Longrightarrow> bb_oom (bb_reserve r n b)"
  by (simp add: bb_reserve_def)

lemma wrote_bytes: "wrote bs b (bb_bytes r bs b)"
  using reserve_oom by (auto simp: wrote_def bb_bytes_def Let_def)

lemma wrote_u8: "wrote [v] b (bb_u8 r v b)"
  using reserve_oom by (auto simp: wrote_def bb_u8_def Let_def)

lemma wrote_trans: "wrote xs a b \<Longrightarrow> wrote ys b c \<Longrightarrow> wrote (xs @ ys) a c"
  by (auto simp: wrote_def)

lemma wrote_u16: "wrote (u16_bytes v) b (bb_u16 r v b)"
  using wrote_trans [OF wrote_u8 wrote_u8] by (fastforce simp: bb_u16_def u16_bytes_def)

lemma wrote_blob: "length s \<le> 0xFFFF \<Longrightarrow> wrote (blob_bytes s) b (bb_bytes r s (bb_u16 r (word_of_nat (length s)) b))"
  unfolding blob_bytes_def by (rule wrote_trans [OF wrote_u16 wrote_bytes])

lemma op_count: "OP_COUNT = 6"
  by (simp add: OP_COUNT_def OP_NAMES_def)

lemma op_to_code_bound: "op_to_code op = Some c \<Longrightarrow> unat c < OP_COUNT"
proof -
  assume "op_to_code op = Some c"
  then obtain i where "List.find (\<lambda>i. OP_NAMES ! i = c_str op) [0..<OP_COUNT] = Some i" "c = word_of_nat i"
    by (auto simp: op_to_code_def)
  then have "i < OP_COUNT" "c = word_of_nat i" using find_SomeD by fastforce+
  then show ?thesis by (simp add: op_count unat_of_nat take_bit_nat_eq_self)
qed

lemma length_c_str: "length (c_str s) \<le> length s"
  by (simp add: c_str_def length_takeWhile_le)

lemma required_string:
  assumes "getters_ok j" "get_required_string m j f = Some s"
  shows "s = json_text (js_strlen j) (js_string j) f \<and> length s \<le> 0xFFFF"
  using assms by (auto simp: get_required_string_def getters_ok_def json_text_def split: option.splits if_splits)

lemma strlike_wrote:
  assumes "encode_strlike m r get_strlen get_str b = Some b'"
    and "\<forall>n s. get_strlen ''value'' = Some n \<longrightarrow> get_str ''value'' (nat n + 1) = Some s \<longrightarrow> length s = nat n"
  shows "wrote (blob_bytes (json_text get_strlen get_str ''value'')) b b' \<and> length (json_text get_strlen get_str ''value'') \<le> 0xFFFF"
proof -
  obtain n s where n: "get_strlen ''value'' = Some n" "0 \<le> n" "n \<le> 0xFFFF" and s: "get_str ''value'' (nat n + 1) = Some s"
    and b': "b' = bb_bytes r (take (nat n) s) (bb_u16 r (word_of_int n) b)"
    using assms(1) by (auto simp: encode_strlike_def not_less split: option.splits if_splits)
  have len: "length s = nat n" using assms(2) n(1) s by blast
  have w: "word_of_int n = (word_of_nat (length s) :: u16)" using n(2) len by simp
  have t: "take (nat n) s = s" using len by simp
  have content: "json_text get_strlen get_str ''value'' = s" using n(1) s by (simp add: json_text_def)
  have fits: "length s \<le> 0xFFFF" using n len by linarith
  show ?thesis unfolding content b' t w using wrote_blob [OF fits] fits by blast
qed

lemma encode_value_wrote:
  assumes "encode_value m r j b = Some (vt, b')" "getters_ok j"
  shows "vt = value_type (json_value j) \<and> wrote (value_bytes (json_value j)) b b' \<and> value_fits (json_value j)"
proof -
  have g: "\<forall>n s. js_strlen j ''value'' = Some n \<longrightarrow> js_string j ''value'' (nat n + 1) = Some s \<longrightarrow> length s = nat n"
    "\<forall>n s. js_object_strlen j ''value'' = Some n \<longrightarrow> js_object_str j ''value'' (nat n + 1) = Some s \<longrightarrow> length s = nat n"
    "\<forall>n s. js_array_strlen j ''value'' = Some n \<longrightarrow> js_array_str j ''value'' (nat n + 1) = Some s \<longrightarrow> length s = nat n"
    using assms(2) by (auto simp: getters_ok_def)
  consider (str) "js_strlen j ''value'' \<noteq> None"
    | (obj) "js_strlen j ''value'' = None" "js_object_strlen j ''value'' \<noteq> None"
    | (arr) "js_strlen j ''value'' = None" "js_object_strlen j ''value'' = None" "js_array_strlen j ''value'' \<noteq> None"
    | (none) "js_strlen j ''value'' = None" "js_object_strlen j ''value'' = None" "js_array_strlen j ''value'' = None"
    by blast
  then show ?thesis
  proof cases
    case str
    then show ?thesis using assms(1) strlike_wrote [where get_strlen = "js_strlen j" and get_str = "js_string j"] g(1) by (auto simp: encode_value_def json_value_def)
  next
    case obj
    then show ?thesis using assms(1) strlike_wrote [where get_strlen = "js_object_strlen j" and get_str = "js_object_str j"] g(2) by (auto simp: encode_value_def json_value_def)
  next
    case arr
    then show ?thesis using assms(1) strlike_wrote [where get_strlen = "js_array_strlen j" and get_str = "js_array_str j"] g(3) by (auto simp: encode_value_def json_value_def)
  next
    case none
    then show ?thesis
      using assms(1) wrote_bytes wrote_u8
      by (auto simp: encode_value_def json_value_def split: option.splits)
  qed
qed

lemma encode_trigger_wrote:
  assumes "encode_trigger m r j b = Inr b'" "getters_ok j"
  shows "wrote (trigger_bytes (json_trigger j)) b b' \<and> trigger_fits (json_trigger j)"
proof -
  obtain id_s path_s op code where s: "get_required_string m j ''id'' = Some id_s" "get_required_string m j ''path'' = Some path_s"
    and op: "js_string j ''operator'' 12 = Some op" "op_to_code op = Some code"
    using assms(1) by (auto simp: encode_trigger_def split: option.splits)
  let ?t = "json_trigger j"
  have t: "tr_id ?t = c_str id_s" "tr_path ?t = c_str path_s" "tr_op ?t = code" "tr_value ?t = json_value j"
    using required_string [OF assms(2) s(1)] required_string [OF assms(2) s(2)] op by (simp_all add: json_trigger_def)
  have len: "length (c_str id_s) \<le> 0xFFFF" "length (c_str path_s) \<le> 0xFFFF"
    using required_string [OF assms(2) s(1)] required_string [OF assms(2) s(2)] length_c_str le_trans by blast+
  let ?b1 = "bb_u8 r code (bb_u8 r 0 b)"
  let ?b2 = "bb_bytes r (c_str id_s) (bb_u16 r (word_of_nat (length (c_str id_s))) ?b1)"
  let ?b3 = "bb_bytes r (c_str path_s) (bb_u16 r (word_of_nat (length (c_str path_s))) ?b2)"
  obtain vt b4 where v: "encode_value m r j ?b3 = Some (vt, b4)"
    and b': "b' = (if bb_oom b4 then b4 else b4\<lparr>bb_data := (bb_data b4)[length (bb_data b) := flags_byte vt]\<rparr>)"
    using assms(1) s op by (auto simp: encode_trigger_def Let_def flags_byte_def split: option.splits)
  note val = encode_value_wrote [OF v assms(2)]
  have "wrote ((([0] @ [code]) @ blob_bytes (c_str id_s)) @ blob_bytes (c_str path_s)) b ?b3"
    by (intro wrote_trans [OF _ wrote_blob] wrote_trans [OF wrote_u8 wrote_u8] len)
  then have "wrote (((([0] @ [code]) @ blob_bytes (c_str id_s)) @ blob_bytes (c_str path_s)) @ value_bytes (json_value j)) b b4"
    using wrote_trans val by blast
  then have "wrote (trigger_bytes ?t) b b'"
    using b' t val by (auto simp: wrote_def trigger_bytes_def list_update_append)
  then show ?thesis using t len op_to_code_bound [OF op(2)] val by (simp add: trigger_fits_def)
qed

lemma encode_loop_wrote:
  assumes "encode_loop m r js n b = Inr (n', b')" "\<forall>j \<in> set js. getters_ok j" "n \<le> 0xFF"
  shows "wrote (concat (map (trigger_bytes \<circ> json_trigger) (filter json_enabled js))) b b'
     \<and> n' = n + length (filter json_enabled js) \<and> n' \<le> 0xFF
     \<and> (\<forall>j \<in> set (filter json_enabled js). trigger_fits (json_trigger j))"
  using assms
proof (induction js arbitrary: n b)
  case Nil
  then show ?case by (simp add: wrote_def)
next
  case (Cons j js)
  show ?case
  proof (cases "js_bool j ''enabled'' = Some False")
    case True
    then show ?thesis using Cons by (simp add: json_enabled_def)
  next
    case False
    then have "n < 0xFF" using Cons.prems(1) by (simp split: if_splits)
    then obtain b1 where b1: "encode_trigger m r j b = Inr b1" "encode_loop m r js (n + 1) b1 = Inr (n', b')"
      using Cons.prems(1) False by (auto split: sum.splits)
    have j: "wrote (trigger_bytes (json_trigger j)) b b1" "trigger_fits (json_trigger j)"
      using encode_trigger_wrote [OF b1(1)] Cons.prems(2) by auto
    from Cons.IH [OF b1(2)] Cons.prems(2) \<open>n < 0xFF\<close> j wrote_trans [OF j(1)] False show ?thesis
      by (auto simp: json_enabled_def)
  qed
qed

section \<open>Decoding what was encoded\<close>

text \<open>The cursor between a part already read and a part to read.\<close>

definition cursor :: "byte list \<Rightarrow> byte list \<Rightarrow> nat \<Rightarrow> trigger_iter" where
  "cursor pre post r = \<lparr>it_buf = pre @ post, it_len = length (pre @ post), it_off = length pre, it_remaining = r\<rparr>"

lemma cursor_remaining [simp]: "it_remaining (cursor pre post r) = r" "it_off (cursor pre post r) = length pre"
  by (simp_all add: cursor_def)

lemma cur_u8_cursor [codec_simps]: "cur_u8 (cursor pre (x # post) r) = Returned (Some (x, cursor (pre @ [x]) post r))"
  by (simp add: cur_u8_def cursor_def)

lemma u16_bytes_join: "ucast (ucast (v AND 0xFF :: u16) :: byte) OR push_bit 8 (ucast (ucast (drop_bit 8 v AND 0xFF) :: byte)) = (v :: u16)"
proof -
  have m: "(0xFF :: u16) = mask 8" by (simp add: mask_eq_exp_minus_1)
  show ?thesis unfolding m by (rule bit_eqI) (auto simp: bit_simps)
qed

lemma cur_u16_cursor [codec_simps]:
  "cur_u16 (cursor pre (u16_bytes v @ post) r) = Returned (Some (v, cursor (pre @ u16_bytes v) post r))"
  using u16_bytes_join [of v] by (simp add: cur_u16_def cursor_def u16_bytes_def nth_append)

lemma cur_blob_cursor [codec_simps]:
  assumes "length s \<le> 0xFFFF"
  shows "cur_blob (cursor pre (blob_bytes s @ post) r) =
     Returned (Some ((length pre + 2, length s), cursor (pre @ blob_bytes s) post r))"
proof -
  have "unat (word_of_nat (length s) :: u16) = length s" using assms by (simp add: unat_of_nat take_bit_nat_eq_self)
  moreover have "cur_u16 (cursor pre (blob_bytes s @ post) r) =
      Returned (Some (word_of_nat (length s), cursor (pre @ u16_bytes (word_of_nat (length s))) (s @ post) r))"
    using cur_u16_cursor [of pre "word_of_nat (length s)" "s @ post" r] by (simp add: blob_bytes_def)
  ultimately show ?thesis by (simp add: cur_blob_def) (simp add: cursor_def blob_bytes_def u16_bytes_def)
qed

lemma cur_word32_cursor [codec_simps]:
  "cur_word32 (cursor pre (le_bytes 4 v @ post) r) = Returned (Some (v, cursor (pre @ le_bytes 4 v) post r))"
  by (simp add: cur_word32_def cursor_def mem_read_def)

lemma mem_read_mid: "n = length xs \<Longrightarrow> k = length pre \<Longrightarrow> mem_read (pre @ xs @ post) k n = xs"
  by (simp add: mem_read_def)

lemma mem_read_blob: "k = length pre + 2 \<Longrightarrow> n = length s \<Longrightarrow> mem_read (pre @ blob_bytes s @ post) k n = s"
  using mem_read_mid [of n s k "pre @ u16_bytes (word_of_nat (length s))" post]
  by (simp add: blob_bytes_def u16_bytes_def)

lemma value_type_bits: "value_type v \<le> 5"
  by (cases v) (simp_all add: vt_defs)

lemma flags_decode:
  "flags_byte (value_type v) AND FLAG_ENABLED \<noteq> 0" "drop_bit FLAG_VT_SHIFT (flags_byte (value_type v) AND FLAG_VT_MASK) = value_type v"
  by (cases v; simp add: flags_byte_def FLAG_ENABLED_def FLAG_VT_SHIFT_def FLAG_VT_MASK_def vt_defs)+

lemma iter_next_value_cursor:
  assumes "te_value_type out = value_type v" "value_fits v"
  shows "\<exists>out'. iter_next_value out (cursor pre (value_bytes v @ post) r) = Returned (Inr (out', cursor (pre @ value_bytes v) post r))
     \<and> entry_value (pre @ value_bytes v @ post) out' = v
     \<and> te_id out' = te_id out \<and> te_id_len out' = te_id_len out \<and> te_path out' = te_path out
     \<and> te_path_len out' = te_path_len out \<and> te_op_code out' = te_op_code out \<and> te_enabled out' = te_enabled out"
  using assms
  by (cases v)
    (simp_all add: iter_next_value_def codec_simps vt_defs entry_value_def mem_read_blob)

lemma iter_next_cursor:
  assumes "trigger_fits t" "0 < r"
  shows "\<exists>out. trigger_details_iter_next (cursor pre (trigger_bytes t @ post) r) =
       Returned (Inr (out, cursor (pre @ trigger_bytes t) post (r - 1)))
     \<and> entry_trigger (pre @ trigger_bytes t @ post) out = t \<and> te_enabled out"
proof -
  let ?f = "flags_byte (value_type (tr_value t))" let ?p = "pre @ [?f, tr_op t]"
  let ?i = "blob_bytes (tr_id t)" and ?q = "blob_bytes (tr_path t)" and ?v = "value_bytes (tr_value t)"
  have fits: "length (tr_id t) \<le> 0xFFFF" "length (tr_path t) \<le> 0xFFFF" "unat (tr_op t) < OP_COUNT" "value_fits (tr_value t)"
    using assms(1) by (auto simp: trigger_fits_def)
  have buf: "trigger_bytes t @ post = ?f # tr_op t # ?i @ ?q @ ?v @ post" by (simp add: trigger_bytes_def)
  let ?e = "zero_entry\<lparr>te_op_code := tr_op t, te_enabled := (?f AND FLAG_ENABLED \<noteq> 0),
                           te_value_type := drop_bit FLAG_VT_SHIFT (?f AND FLAG_VT_MASK),
                           te_id := length ?p + 2, te_id_len := length (tr_id t),
                           te_path := length (?p @ ?i) + 2, te_path_len := length (tr_path t)\<rparr>"
  have run: "trigger_details_iter_next (cursor pre (trigger_bytes t @ post) r) =
     obind (iter_next_value ?e (cursor (?p @ ?i @ ?q) (?v @ post) r)) (\<lambda>r5. Returned (iter_finish r5))"
    using assms(2) fits(3)
      cur_blob_cursor [OF fits(1), of ?p "?q @ ?v @ post" r] cur_blob_cursor [OF fits(2), of "?p @ ?i" "?v @ post" r]
    by (simp add: trigger_details_iter_next_def buf cur_u8_cursor)
  have "te_value_type ?e = value_type (tr_value t)" using flags_decode(2) [of "tr_value t"] by simp
  from iter_next_value_cursor [OF this fits(4), of "?p @ ?i @ ?q" post r] obtain out where
    out: "iter_next_value ?e (cursor (?p @ ?i @ ?q) (?v @ post) r) = Returned (Inr (out, cursor ((?p @ ?i @ ?q) @ ?v) post r))"
    "entry_value ((?p @ ?i @ ?q) @ ?v @ post) out = tr_value t"
    "te_id out = length ?p + 2" "te_id_len out = length (tr_id t)" "te_path out = length (?p @ ?i) + 2"
    "te_path_len out = length (tr_path t)" "te_op_code out = tr_op t" "te_enabled out"
    using flags_decode(1) [of "tr_value t"] by auto
  have blob: "pre @ trigger_bytes t @ post = ?p @ ?i @ ?q @ ?v @ post" by (simp add: trigger_bytes_def)
  have "mem_read (pre @ trigger_bytes t @ post) (te_id out) (te_id_len out) = tr_id t"
    unfolding blob out by (rule mem_read_blob) simp_all
  moreover have "mem_read (pre @ trigger_bytes t @ post) (te_path out) (te_path_len out) = tr_path t"
    using mem_read_blob [OF refl refl, of "?p @ ?i" "tr_path t" "?v @ post"] unfolding blob out by simp
  moreover have "entry_value (pre @ trigger_bytes t @ post) out = tr_value t" using out(2) unfolding blob by simp
  ultimately have "entry_trigger (pre @ trigger_bytes t @ post) out = t" using out(7) by (simp add: entry_trigger_def)
  moreover have "(cursor ((?p @ ?i @ ?q) @ ?v) post r)\<lparr>it_remaining := r - 1\<rparr> = cursor (pre @ trigger_bytes t) post (r - 1)"
    by (simp add: cursor_def trigger_bytes_def)
  ultimately show ?thesis using run out(1,8) by (simp add: iter_finish_def)
qed

lemma iterate_cursor:
  assumes "\<forall>t \<in> set ts. trigger_fits t" "length ts < n"
  shows "\<exists>es. iterate_triggers n (cursor pre (concat (map trigger_bytes ts)) (length ts)) = Returned (es, ERR_NOT_FOUND)
     \<and> map (entry_trigger (pre @ concat (map trigger_bytes ts))) es = ts \<and> (\<forall>e \<in> set es. te_enabled e)"
  using assms
proof (induction ts arbitrary: pre n)
  case Nil
  then show ?case by (cases n) (simp_all add: trigger_details_iter_next_def)
next
  case (Cons t ts)
  obtain k where k: "n = Suc k" "length ts < k" using Cons.prems(2) by (cases n) auto
  have t: "trigger_fits t" using Cons.prems(1) by simp
  from iter_next_cursor [OF t, of "length (t # ts)" pre "concat (map trigger_bytes ts)"] obtain out where
    out: "trigger_details_iter_next (cursor pre (concat (map trigger_bytes (t # ts))) (length (t # ts))) =
        Returned (Inr (out, cursor (pre @ trigger_bytes t) (concat (map trigger_bytes ts)) (length ts)))"
    "entry_trigger (pre @ concat (map trigger_bytes (t # ts))) out = t" "te_enabled out" by auto
  from Cons.IH [of k "pre @ trigger_bytes t"] Cons.prems(1) k(2) obtain es where
    "iterate_triggers k (cursor (pre @ trigger_bytes t) (concat (map trigger_bytes ts)) (length ts)) = Returned (es, ERR_NOT_FOUND)"
    "map (entry_trigger (pre @ concat (map trigger_bytes (t # ts)))) es = ts" "\<forall>e \<in> set es. te_enabled e" by auto
  then show ?case using out k(1) by (intro exI [of _ "out # es"]) simp
qed

section \<open>Properties\<close>


definition sample_trigger :: json_obj where
  "sample_trigger =
     \<lparr>js_bool = (\<lambda>_. None), js_int = (\<lambda>f. if f = ''value'' then Some 7 else None), js_float = (\<lambda>_. None),
      js_strlen = (\<lambda>f. if f = ''id'' then Some 1 else if f = ''path'' then Some 2 else None),
      js_string = (\<lambda>f n. if f = ''id'' then Some [97] else if f = ''path'' then Some [98, 99]
                         else if f = ''operator'' then Some [103, 101] else None),
      js_object_strlen = (\<lambda>_. None), js_object_str = (\<lambda>_ _. None),
      js_array_strlen = (\<lambda>_. None), js_array_str = (\<lambda>_ _. None)\<rparr>"

definition sample_disabled :: json_obj where
  "sample_disabled = sample_trigger\<lparr>js_bool := (\<lambda>f. if f = ''enabled'' then Some False else None)\<rparr>"

lemma sample_trigger_encode:
  "trigger_details_encode (\<lambda>_. True) (\<lambda>_. True) True (Some [sample_trigger, sample_disabled]) =
     Inr [1, 1, 3, 4, 1, 0, 97, 2, 0, 98, 99, 7, 0, 0, 0]"
  by code_simp


text \<open>C36: The decoder is safe on every byte string: it never reads outside the blob, the iteration
ends, every entry it yields has a known operator and its id, path and value lie inside the blob, it
yields at most the announced number of entries, and it reports the end, rather than a corrupt blob,
exactly when it has yielded that number.\<close>

theorem trigger_decode_safe:
  "trigger_details_iter_begin (Some blob) (length blob) = Returned (Inl ERR_FAIL)
   \<or> (\<exists>it es e. trigger_details_iter_begin (Some blob) (length blob) = Returned (Inr it)
        \<and> it_remaining it = unat (blob ! 1)
        \<and> iterate_triggers 256 it = Returned (es, e) \<and> (\<forall>x \<in> set es. entry_within (length blob) x)
        \<and> length es \<le> unat (blob ! 1) \<and> e \<in> {ERR_NOT_FOUND, ERR_FAIL}
        \<and> (e = ERR_NOT_FOUND \<longleftrightarrow> length es = unat (blob ! 1)))"
proof (cases "length blob < 2 \<or> blob ! 0 \<noteq> RMAKER_TRIGGER_CODEC_VERSION")
  case True
  then have "trigger_details_iter_begin (Some blob) (length blob) = Returned (Inl ERR_FAIL)"
    by (auto simp: trigger_details_iter_begin_def read_at_def)
  then show ?thesis by blast
next
  case False
  let ?it = "\<lparr>it_buf = blob, it_len = length blob, it_off = 2, it_remaining = unat (blob ! 1)\<rparr>"
  have started: "trigger_details_iter_begin (Some blob) (length blob) = Returned (Inr ?it)"
    using False by (auto simp: trigger_details_iter_begin_def read_at_def)
  have "iter_ok ?it" "it_remaining ?it < 256"
    using False unsigned_less [of "blob ! 1"] by (simp_all add: iter_ok_def)
  from iterate_ok [OF this] started show ?thesis by auto
qed

theorem trigger_decode_safe_witness:
  "\<exists>it. trigger_details_iter_begin (Some [RMAKER_TRIGGER_CODEC_VERSION, 0]) 2 = Returned (Inr it)
     \<and> iterate_triggers 256 it = Returned ([], ERR_NOT_FOUND)"
  using trigger_decode_safe [of "[RMAKER_TRIGGER_CODEC_VERSION, 0]"]
  by (auto simp: trigger_details_iter_begin_def read_at_def numeral_2_eq_2)

end
