(* ===== verification/Ota_Types.thy ===== *)
theory Ota_Types
  imports Prelude
begin

text \<open>The data of the OTA job engine, \<^verbatim>\<open>esp_rmaker_neo_ota/priv_include/ota_jobs.h\<close> and the globals of
\<^verbatim>\<open>src/ota_jobs.c\<close>: states, events, the event objects with their static pool, the job being worked on,
the filetype handlers, and one record \<^verbatim>\<open>ota_sys\<close> with every global of the file. The engine calls code
outside the repository (the JSON parser, the AWS job libraries), the radio, the flash and user
callbacks; \<^verbatim>\<open>ota_env\<close> holds their answers. Answers that may differ from call to call are indexed by the
number of calls made so far, so every sequence of answers is one environment.\<close>

section \<open>Status details\<close>

datatype status_details =
    DetailsInvalid
  | DetailsStarting string "string option" "string option"
  | DetailsInProgress u32 u32
  | DetailsSucceeded "string option" "string option"
  | DetailsFailed string
  | DetailsRejected string
  | DetailsDelayed string

text \<open>\<^verbatim>\<open>JobCurrentStatus_t\<close> of the AWS job library, in its order (the zero value is \<^verbatim>\<open>Queued\<close>).\<close>

datatype job_status = Queued | InProgress | Failed | Succeeded | Rejected

section \<open>States, events and errors\<close>

datatype ota_state =
    UNINITIALIZED | NETWORK_INIT | REBOOT_CHECK | IDLE | JOBS_CHANGED_STATE | FETCHING_PENDING_JOBS
  | WAITING_FOR_PENDING_JOBS | PENDING_JOBS_RECEIVED | FETCHING_JOB_DOC | WAITING_FOR_JOB_DOC
  | JOB_DOC_RECEIVED | JOB_EXECUTION | POST_DOWNLOAD | ERROR_STATE

datatype ota_event =
    EMPTY_TRANSITION | ERROR_OCCURRED | REBOOT_CHECK_REQUESTED | FINAL_STATUS_REPORT_REQUESTED
  | FETCH_REQUESTED | JOBS_CHANGED | PENDING_JOBS_ACCEPTED | PENDING_JOBS_REJECTED
  | JOB_DOC_ACCEPTED | JOB_DOC_REJECTED | UPDATE_ACCEPTED | UPDATE_REJECTED | TIMEOUT
  | IMAGE_DOWNLOAD_PROGRESS | IMAGE_DOWNLOAD_SUCCEEDED | IMAGE_DOWNLOAD_FAILED_SETUP
  | IMAGE_DOWNLOAD_FAILED_STREAM_SUBSCRIPTION | IMAGE_DOWNLOAD_FAILED_POST_DOWNLOAD_CHECKS
  | IMAGE_DOWNLOAD_FAILED_IMAGE_HEADER_INVALID | IMAGE_DOWNLOAD_FAILED_SIGNATURE_INVALID
  | IMAGE_DOWNLOAD_FAILED_MD5_INVALID | IMAGE_DOWNLOAD_FAILED_UNKNOWN_ERROR
  | RECOVERY_REQUESTED

datatype error_reason =
    ERROR_NONE | NO_PENDING_JOBS | RETRY_WITH_BACKOFF | FATAL_INIT_FAILED | FATAL_UNEXPECTED_FORMAT
  | SUBSCRIPTION_FAILED | TIMEOUT_HANDLER_RESTART_FAILED | GET_PENDING_INVALID_FORMAT
  | GET_PENDING_REJECTED | DESCRIBE_JOB_REJECTED | JOB_DOC_PARSE_FAILED

text \<open>A payload points to text (an MQTT message, a decimal count) or to a status details struct, with its
length; \<^verbatim>\<open>fixed_data\<close> is only tested for \<^verbatim>\<open>NULL\<close>.\<close>

datatype content = Text string | Details status_details

record payload =
  pl_data :: "content option"
  pl_len :: nat

record event_data =
  ed_event :: ota_event
  ed_payload :: "payload option"
  ed_fixed :: bool

definition plain_event :: "ota_event \<Rightarrow> event_data" where
  "plain_event e = \<lparr>ed_event = e, ed_payload = None, ed_fixed = False\<rparr>"

definition text_event :: "ota_event \<Rightarrow> string \<Rightarrow> event_data" where
  "text_event e msg =
     \<lparr>ed_event = e, ed_payload = Some \<lparr>pl_data = Some (Text msg), pl_len = length msg\<rparr>, ed_fixed = False\<rparr>"

text \<open>\<^verbatim>\<open>sizeof(esp_rmaker_ota_status_details_t)\<close>: a type word and a union of at most three pointers.\<close>

definition DETAILS_SIZE :: nat where
  "DETAILS_SIZE = 16"

definition details_event :: "ota_event \<Rightarrow> status_details \<Rightarrow> event_data" where
  "details_event e d =
     \<lparr>ed_event = e, ed_payload = Some \<lparr>pl_data = Some (Details d), pl_len = DETAILS_SIZE\<rparr>, ed_fixed = False\<rparr>"

section \<open>The job and the filetype handlers\<close>

text \<open>\<^verbatim>\<open>esp_rmaker_ota_ft_ctx_t\<close>: \<^verbatim>\<open>None\<close> is a \<^verbatim>\<open>NULL\<close> handler. \<^verbatim>\<open>get_version\<close> answers with the version string
or fails, and may answer differently at each call.\<close>

record ft_ctx =
  ft_version_to_uint32 :: "(string \<Rightarrow> u32 option) option"
  ft_get_version :: "(nat \<Rightarrow> string option) option"
  ft_has_set_version :: bool
  ft_has_on_download_begin :: bool
  ft_has_on_download_chunk :: bool
  ft_has_on_download_complete :: bool
  ft_has_get_sha256_hash :: bool
  ft_has_perform_integration_check :: bool
  ft_has_on_post_download_checks_complete :: bool

record ota_data =
  od_filesize :: int
  od_file_id :: u32
  od_stream_id :: "string option"
  od_fw_version :: "string option"
  od_file_md5 :: "string option"
  od_file_signature :: "string option"
  od_job_id :: "string option"
  od_metadata :: "string option"

definition no_ota_data :: ota_data where
  "no_ota_data = \<lparr>od_filesize = 0, od_file_id = 0, od_stream_id = None, od_fw_version = None,
     od_file_md5 = None, od_file_signature = None, od_job_id = None, od_metadata = None\<rparr>"

record job_info =
  ji_job_id :: string
  ji_has_pending_job :: bool
  ji_has_active_job :: bool
  ji_should_reboot :: bool
  ji_final_status_reported :: bool
  ji_final_status_queued :: bool
  ji_ota_data :: ota_data
  ji_filetype :: string
  ji_filetype_handler :: "ft_ctx option"
  ji_fw_version :: u32
  ji_expected_version :: int
  ji_current_status :: job_status
  ji_current_status_details :: status_details

text \<open>\<^verbatim>\<open>memset(&current_job, 0, sizeof(current_job))\<close>.\<close>

definition zero_job :: job_info where
  "zero_job = \<lparr>ji_job_id = '''', ji_has_pending_job = False, ji_has_active_job = False,
     ji_should_reboot = False, ji_final_status_reported = False, ji_final_status_queued = False,
     ji_ota_data = no_ota_data, ji_filetype = '''', ji_filetype_handler = None, ji_fw_version = 0,
     ji_expected_version = 0, ji_current_status = Queued, ji_current_status_details = DetailsInvalid\<rparr>"

record ota_job_config =
  cf_validate_image_ref :: "(string \<Rightarrow> err) option"
  cf_filetype_handler_lookup :: "(string \<Rightarrow> ft_ctx option) option"

section \<open>What the engine does to the outside\<close>

datatype app_event =
    APP_STARTING status_details | APP_FETCH_REQUEST_IGNORED | APP_IN_PROGRESS status_details
  | APP_SUCCESSFUL status_details | APP_FAILED status_details | APP_REJECTED status_details
  | APP_DELAYED status_details | APP_ERROR_OCCURRED error_reason

datatype effect =
    Subscribe_jobs | Unsubscribe_jobs | Publish_get_pending | Publish_describe string
  | Send_status string job_status status_details | Set_initial_version string int
  | Clear_job_entries string | Resend_terminals
  | Post_app app_event | Start_download ota_data "ft_ctx option" | Set_version string
  | Set_job_pending_verification string "string option" int | Clear_nvs | Reboot
  | Restart_timer | Stop_timer | Stop_status_timer

datatype json_type = JSONString | JSONNumber | JSONOther

text \<open>\<^verbatim>\<open>AfrOtaJobDocumentFields_t\<close>, as far as the engine reads it; an empty signature stands for none.\<close>

record afr_fields =
  af_fileSize :: u32
  af_fileId :: u32
  af_imageRef :: string
  af_signature :: string

record ota_env =
  e_err :: "nat \<Rightarrow> err"
  e_alloc :: "nat \<Rightarrow> bool"
  e_jobid_max :: nat
  e_json_validate :: "string \<Rightarrow> bool"
  e_json_search :: "string \<Rightarrow> string \<Rightarrow> (json_type \<times> string) option"
  e_json_iterate :: "string \<Rightarrow> string list"
  e_get_job_id :: "string \<Rightarrow> string option"
  e_get_job_document :: "string \<Rightarrow> string option"
  e_parse_job_doc :: "string \<Rightarrow> afr_fields option"
  e_fw_version :: "string option"
  e_time :: "nat \<Rightarrow> int"
  e_localtime :: "int \<Rightarrow> nat \<times> nat"
  e_last_job_id :: "nat \<Rightarrow> string option"
  e_last_version :: "nat \<Rightarrow> int"
  e_last_filetype :: "nat \<Rightarrow> string option"
  e_nvs_status :: "nat \<Rightarrow> (bool \<times> bool) option"
  e_rollback_detected :: "nat \<Rightarrow> bool"
  e_status_cache_empty :: "nat \<Rightarrow> bool"
  e_details_json :: "nat \<Rightarrow> status_details \<Rightarrow> bool"
  e_next_version :: "nat \<Rightarrow> int option"

section \<open>The globals\<close>

text \<open>An event object is a slot of the static pool or a heap block.\<close>

datatype event_ref = Slot nat | Heap nat

text \<open>The pool size is the default of its Kconfig option.\<close>

definition OTA_JOB_EVENT_POOL_SIZE :: nat where
  "OTA_JOB_EVENT_POOL_SIZE = 8"

definition OTA_JOB_ID_QUEUE_SIZE :: u16 where
  "OTA_JOB_ID_QUEUE_SIZE = 50"

definition OTA_FILETYPE_MAX_LENGTH :: nat where
  "OTA_FILETYPE_MAX_LENGTH = 32"

text \<open>\<^verbatim>\<open>o_calls\<close> counts the calls that were answered by the environment, \<^verbatim>\<open>o_log\<close> lists the effects in order,
and \<^verbatim>\<open>o_fault\<close> records that the code did something C leaves undefined (freed a dead block, read
through a dead or \<^verbatim>\<open>NULL\<close> pointer); what the model does after a fault has no meaning, and the theorems show
that no fault is reached. \<^verbatim>\<open>o_wq\<close> holds the arguments of the \<^verbatim>\<open>ota_job_state_run_once\<close> tasks waiting in the
work queue, in order; \<^verbatim>\<open>o_sub_work\<close> counts the \<^verbatim>\<open>sub_retry_work\<close> tasks in it. The three backoff contexts are represented by whether their timer is armed.\<close>

record ota_sys =
  o_calls :: nat
  o_log :: "effect list"
  o_fault :: bool
  o_pool_free :: "nat list option"
  o_slots :: "event_data list"
  o_heap :: "nat \<Rightarrow> event_data option"
  o_fresh :: nat
  o_wq :: "event_ref list"
  o_pre_mutex :: bool
  o_pre_queue :: "event_ref list"
  o_state_initialized :: bool
  o_config :: ota_job_config
  o_state :: ota_state
  o_job :: job_info
  o_subscribed :: bool
  o_sub_intended :: bool
  o_timer_handle :: bool
  o_last_error :: error_reason
  o_rec_state :: ota_state
  o_rec_data :: "event_ref option"
  o_rec_event :: ota_event
  o_ids :: "string list"
  o_ids_next :: u16
  o_ids_size :: u16
  o_error_retry :: bool
  o_sub_retry :: bool
  o_terminal_retry :: bool
  o_terminal_pending :: event_data
  o_sub_work :: nat

text \<open>A call that the environment answers with an error code, an allocation, and an effect.\<close>

definition ask_err :: "ota_env \<Rightarrow> ota_sys \<Rightarrow> err \<times> ota_sys" where
  "ask_err env s = (e_err env (o_calls s), s\<lparr>o_calls := Suc (o_calls s)\<rparr>)"

definition ask_alloc :: "ota_env \<Rightarrow> ota_sys \<Rightarrow> bool \<times> ota_sys" where
  "ask_alloc env s = (e_alloc env (o_calls s), s\<lparr>o_calls := Suc (o_calls s)\<rparr>)"

definition ask :: "(nat \<Rightarrow> 'a) \<Rightarrow> ota_sys \<Rightarrow> 'a \<times> ota_sys" where
  "ask answer s = (answer (o_calls s), s\<lparr>o_calls := Suc (o_calls s)\<rparr>)"

definition emit :: "effect \<Rightarrow> ota_sys \<Rightarrow> ota_sys" where
  "emit x s = s\<lparr>o_log := o_log s @ [x]\<rparr>"

definition call :: "ota_env \<Rightarrow> effect \<Rightarrow> ota_sys \<Rightarrow> err \<times> ota_sys" where
  "call env x s = ask_err env (emit x s)"

definition fault :: "ota_sys \<Rightarrow> ota_sys" where
  "fault s = s\<lparr>o_fault := True\<rparr>"

text \<open>\<^verbatim>\<open>esp_rmaker_backoff_retry\<close> arms the timer of its context or fails; \<^verbatim>\<open>esp_rmaker_backoff_reset\<close> disarms
it (the component proofs are in the theory of the backoff).\<close>

definition error_backoff_retry :: "ota_env \<Rightarrow> ota_sys \<Rightarrow> err \<times> ota_sys" where
  "error_backoff_retry env s =
     (let (err, s1) = ask_err env s
      in (err, if err = ERR_OK then s1\<lparr>o_error_retry := True\<rparr> else s1))"

definition retry_reset_backoff :: "ota_sys \<Rightarrow> ota_sys" where
  "retry_reset_backoff s = s\<lparr>o_error_retry := False\<rparr>"

definition sub_backoff_retry :: "ota_env \<Rightarrow> ota_sys \<Rightarrow> err \<times> ota_sys" where
  "sub_backoff_retry env s =
     (let (err, s1) = ask_err env s
      in (err, if err = ERR_OK then s1\<lparr>o_sub_retry := True\<rparr> else s1))"

definition terminal_backoff_retry :: "ota_env \<Rightarrow> ota_sys \<Rightarrow> err \<times> ota_sys" where
  "terminal_backoff_retry env s =
     (let (err, s1) = ask_err env s
      in (err, if err = ERR_OK then s1\<lparr>o_terminal_retry := True\<rparr> else s1))"

end
