(* ===== verification/Ota_Events.thy ===== *)
theory Ota_Events
  imports Ota_Types
begin

text \<open>The event objects of the OTA job engine, \<^verbatim>\<open>ota_jobs.c\<close> lines 662-1003: the static pool that serves
payload-free events, the heap copies, the hand-over to the work queue, and the queue of events posted
before the engine is initialised. The invariant \<^verbatim>\<open>mem_ok\<close> states the ownership discipline: every event
object has exactly one owner (a work queue task, the pre-init queue, the recovery context, or the handler
that runs), and the pool slots without an owner are the ones in the free queue or lost for good.\<close>

section \<open>Strings\<close>

definition make_string_copy :: "ota_env \<Rightarrow> string option \<Rightarrow> ota_sys \<Rightarrow> (err + string) \<times> ota_sys" where
  "make_string_copy env src s =
     (case src of
        None \<Rightarrow> (Inl ERR_INVALID_ARG, s)
      | Some str \<Rightarrow>
          if str = [] then (Inl ERR_INVALID_ARG, s)
          else let (ok, s1) = ask_alloc env s
               in if ok then (Inr str, s1) else (Inl ERR_NO_MEM, s1))"

section \<open>The event pool\<close>

definition zero_event :: event_data where
  "zero_event = plain_event REBOOT_CHECK_REQUESTED"

definition event_pool_init :: "ota_env \<Rightarrow> ota_sys \<Rightarrow> err \<times> ota_sys" where
  "event_pool_init env s =
     (if o_pool_free s \<noteq> None then (ERR_OK, s)
      else let (ok, s1) = ask_alloc env s
           in if \<not> ok then (ERR_NO_MEM, s1)
              else (ERR_OK, s1\<lparr>o_slots := replicate OTA_JOB_EVENT_POOL_SIZE zero_event,
                               o_pool_free := Some [0..<OTA_JOB_EVENT_POOL_SIZE]\<rparr>))"

definition event_pool_deinit :: "ota_sys \<Rightarrow> ota_sys" where
  "event_pool_deinit s = s\<lparr>o_pool_free := None\<rparr>"

definition event_pool_take :: "ota_sys \<Rightarrow> nat option \<times> ota_sys" where
  "event_pool_take s =
     (case o_pool_free s of
        None \<Rightarrow> (None, s)
      | Some [] \<Rightarrow> (None, s)
      | Some (i # q) \<Rightarrow> (Some i, s\<lparr>o_pool_free := Some q\<rparr>))"

text \<open>The send into the free queue does not wait, and is dropped when the queue is full or was deleted.\<close>

definition event_pool_return :: "event_ref \<Rightarrow> ota_sys \<Rightarrow> bool \<times> ota_sys" where
  "event_pool_return a s =
     (case a of
        Heap n \<Rightarrow> (False, s)
      | Slot i \<Rightarrow>
          (let s1 = s\<lparr>o_slots := (o_slots s)[i := zero_event]\<rparr>
           in (True, case o_pool_free s1 of
                       None \<Rightarrow> s1
                     | Some q \<Rightarrow> if length q < OTA_JOB_EVENT_POOL_SIZE
                                 then s1\<lparr>o_pool_free := Some (q @ [i])\<rparr> else s1)))"

section \<open>Copies and frees\<close>

text \<open>A heap copy takes one allocation for the event and, with a payload, one for the payload struct and
one for its bytes when there are any; a failure frees what was allocated before it.\<close>

definition copy_payload :: "ota_env \<Rightarrow> payload \<Rightarrow> ota_sys \<Rightarrow> payload option \<times> ota_sys" where
  "copy_payload env p s =
     (let (ok, s1) = ask_alloc env s
      in if \<not> ok then (None, s1)
         else if pl_data p \<noteq> None \<and> pl_len p > 0
         then let (ok2, s2) = ask_alloc env s1
              in if ok2 then (Some p, s2) else (None, s2)
         else (Some (p\<lparr>pl_len := 0\<rparr>), s1))"

definition heap_new :: "event_data \<Rightarrow> ota_sys \<Rightarrow> event_ref \<times> ota_sys" where
  "heap_new e s = (Heap (o_fresh s), s\<lparr>o_heap := (o_heap s)(o_fresh s := Some e), o_fresh := Suc (o_fresh s)\<rparr>)"

definition copy_event_heap :: "ota_env \<Rightarrow> event_data \<Rightarrow> ota_sys \<Rightarrow> event_ref option \<times> ota_sys" where
  "copy_event_heap env e s =
     (let (ok, s1) = ask_alloc env s
      in if \<not> ok then (None, s1)
         else case ed_payload e of
                None \<Rightarrow> (let (a, s2) = heap_new e s1 in (Some a, s2))
              | Some p \<Rightarrow>
                  (let (q, s2) = copy_payload env p s1
                   in case q of
                        None \<Rightarrow> (None, s2)
                      | Some p' \<Rightarrow> (let (a, s3) = heap_new (e\<lparr>ed_payload := Some p'\<rparr>) s2 in (Some a, s3))))"

definition copy_event_data :: "ota_env \<Rightarrow> event_data \<Rightarrow> ota_sys \<Rightarrow> event_ref option \<times> ota_sys" where
  "copy_event_data env e s =
     (if ed_payload e = None
      then let (slot, s1) = event_pool_take s
           in case slot of
                Some i \<Rightarrow> (Some (Slot i), s1\<lparr>o_slots := (o_slots s1)[i := e]\<rparr>)
              | None \<Rightarrow> copy_event_heap env e s1
      else copy_event_heap env e s)"

definition free_event_data :: "event_ref option \<Rightarrow> ota_sys \<Rightarrow> ota_sys" where
  "free_event_data a s =
     (case a of
        None \<Rightarrow> s
      | Some r \<Rightarrow>
          (let (pooled, s1) = event_pool_return r s
           in if pooled then s1
              else case r of
                     Slot i \<Rightarrow> s1
                   | Heap n \<Rightarrow> if o_heap s1 n = None then fault s1
                               else s1\<lparr>o_heap := (o_heap s1)(n := None)\<rparr>))"

section \<open>Into the work queue\<close>

definition enqueue_ref :: "ota_env \<Rightarrow> event_ref \<Rightarrow> ota_sys \<Rightarrow> err \<times> ota_sys" where
  "enqueue_ref env a s =
     (let (err, s1) = ask_err env s
      in if err = ERR_OK then (ERR_OK, s1\<lparr>o_wq := o_wq s1 @ [a]\<rparr>)
         else (err, free_event_data (Some a) s1))"

definition enqueue_copy :: "ota_env \<Rightarrow> event_data \<Rightarrow> ota_sys \<Rightarrow> err \<times> ota_sys" where
  "enqueue_copy env e s =
     (let (a, s1) = copy_event_data env e s
      in case a of None \<Rightarrow> (ERR_NO_MEM, s1) | Some r \<Rightarrow> enqueue_ref env r s1)"

definition enqueue_transition_event :: "ota_env \<Rightarrow> ota_sys \<Rightarrow> err \<times> ota_sys" where
  "enqueue_transition_event env s = enqueue_copy env (plain_event EMPTY_TRANSITION) s"

section \<open>Events posted before the initialisation\<close>

definition pre_init_event_queue_init :: "ota_env \<Rightarrow> ota_sys \<Rightarrow> err \<times> ota_sys" where
  "pre_init_event_queue_init env s =
     (let (ok, s1) = ask_alloc env s
      in if \<not> ok then (ERR_NO_MEM, s1\<lparr>o_pre_mutex := False\<rparr>)
         else (ERR_OK, s1\<lparr>o_pre_mutex := True, o_pre_queue := [], o_state_initialized := False\<rparr>))"

definition pre_init_event_queue_deinit :: "ota_sys \<Rightarrow> err \<times> ota_sys" where
  "pre_init_event_queue_deinit s =
     (if \<not> o_pre_mutex s then (ERR_INVALID_STATE, s)
      else (ERR_OK, (foldl (\<lambda>t a. free_event_data (Some a) t) s (o_pre_queue s))
                      \<lparr>o_pre_mutex := False, o_pre_queue := [], o_state_initialized := False\<rparr>))"

definition pre_init_event_queue_check_init_flag :: "ota_sys \<Rightarrow> bool" where
  "pre_init_event_queue_check_init_flag s = (o_pre_mutex s \<and> o_state_initialized s)"

definition pre_init_event_queue_add_if_not_initialized ::
    "ota_env \<Rightarrow> event_data \<Rightarrow> ota_sys \<Rightarrow> err \<times> ota_sys" where
  "pre_init_event_queue_add_if_not_initialized env e s =
     (if \<not> o_pre_mutex s then (ERR_INVALID_STATE, s)
      else if o_state_initialized s then (ERR_RMAKER_ALREADY_INITIALIZED, s)
      else let (ok, s1) = ask_alloc env s
           in if \<not> ok then (ERR_NO_MEM, s1)
              else let (a, s2) = copy_event_data env e s1
                   in case a of
                        None \<Rightarrow> (ERR_NO_MEM, s2)
                      | Some r \<Rightarrow> (ERR_OK, s2\<lparr>o_pre_queue := o_pre_queue s2 @ [r]\<rparr>))"

primrec enqueue_all :: "ota_env \<Rightarrow> event_ref list \<Rightarrow> ota_sys \<Rightarrow> bool \<times> ota_sys" where
  "enqueue_all env [] s = (False, s)"
| "enqueue_all env (a # as) s =
     (let (err, s1) = enqueue_ref env a s; (failed, s2) = enqueue_all env as s1
      in (err \<noteq> ERR_OK \<or> failed, s2))"

definition pre_init_event_queue_enqueue_all :: "ota_env \<Rightarrow> ota_sys \<Rightarrow> err \<times> ota_sys" where
  "pre_init_event_queue_enqueue_all env s =
     (if \<not> o_pre_mutex s then (ERR_INVALID_STATE, s)
      else let (failed, s1) = enqueue_all env (o_pre_queue s) (s\<lparr>o_pre_queue := []\<rparr>)
           in (if failed then ERR_FAIL else ERR_OK, s1\<lparr>o_state_initialized := \<not> failed\<rparr>))"

definition ota_job_state_post_event :: "ota_env \<Rightarrow> event_data \<Rightarrow> ota_sys \<Rightarrow> err \<times> ota_sys" where
  "ota_job_state_post_event env e s =
     (if o_state_initialized s then enqueue_copy env e s
      else let (err, s1) = pre_init_event_queue_add_if_not_initialized env e s
           in if err = ERR_RMAKER_ALREADY_INITIALIZED then enqueue_copy env e s1 else (err, s1))"

section \<open>Ownership\<close>

definition event_live :: "ota_sys \<Rightarrow> event_ref \<Rightarrow> bool" where
  "event_live s a = (case a of
     Slot i \<Rightarrow> i < OTA_JOB_EVENT_POOL_SIZE \<and> (\<forall>q. o_pool_free s = Some q \<longrightarrow> i \<notin> set q)
   | Heap n \<Rightarrow> o_heap s n \<noteq> None)"

definition event_at :: "ota_sys \<Rightarrow> event_ref \<Rightarrow> event_data" where
  "event_at s a = (case a of Slot i \<Rightarrow> o_slots s ! i | Heap n \<Rightarrow> the (o_heap s n))"

definition owned :: "ota_sys \<Rightarrow> event_ref list" where
  "owned s = o_wq s @ o_pre_queue s @ (case o_rec_data s of None \<Rightarrow> [] | Some a \<Rightarrow> [a])"

text \<open>Events whose handlers read through the payload pointer without a check carry a payload with data.\<close>

definition event_ok :: "event_data \<Rightarrow> bool" where
  "event_ok e =
     (case ed_payload e of
        None \<Rightarrow> ed_event e \<noteq> FINAL_STATUS_REPORT_REQUESTED \<and> ed_event e \<noteq> IMAGE_DOWNLOAD_PROGRESS
      | Some p \<Rightarrow>
          (ed_event e = FINAL_STATUS_REPORT_REQUESTED \<longrightarrow> (\<exists>d. pl_data p = Some (Details d))) \<and>
          (ed_event e = IMAGE_DOWNLOAD_PROGRESS \<longrightarrow> (\<exists>t. pl_data p = Some (Text t))))"

text \<open>The events that are kept by value: the recovery event and the stashed terminal event.\<close>

definition stash_ok :: "ota_sys \<Rightarrow> bool" where
  "stash_ok s \<longleftrightarrow> event_ok (plain_event (o_rec_event s)) \<and> event_ok (o_terminal_pending s)"

definition mem_ok :: "event_ref list \<Rightarrow> ota_sys \<Rightarrow> bool" where
  "mem_ok xs s \<longleftrightarrow>
     \<not> o_fault s \<and> stash_ok s \<and> length (o_slots s) = OTA_JOB_EVENT_POOL_SIZE \<and>
     (case o_pool_free s of None \<Rightarrow> False
      | Some q \<Rightarrow> distinct q \<and> set q \<subseteq> {..<OTA_JOB_EVENT_POOL_SIZE}) \<and>
     (\<forall>n\<ge>o_fresh s. o_heap s n = None) \<and>
     distinct (xs @ owned s) \<and>
     (\<forall>a \<in> set (xs @ owned s). event_live s a \<and> event_ok (event_at s a))"

section \<open>The operations keep the ownership discipline\<close>

lemma mem_ok_cong:
  assumes "o_fault s' = o_fault s" "o_slots s' = o_slots s" "o_pool_free s' = o_pool_free s"
    "o_heap s' = o_heap s" "o_fresh s' = o_fresh s" "o_wq s' = o_wq s" "o_pre_queue s' = o_pre_queue s"
    "o_rec_data s' = o_rec_data s" "stash_ok s' = stash_ok s"
  shows "mem_ok xs s' = mem_ok xs s"
proof -
  have "owned s' = owned s" using assms by (simp add: owned_def)
  moreover have "event_live s' = event_live s" "event_at s' = event_at s"
    using assms by (auto simp: event_live_def event_at_def fun_eq_iff split: event_ref.splits)
  ultimately show ?thesis using assms by (simp add: mem_ok_def)
qed

lemma mem_ok_update [simp]:
  "mem_ok xs (s\<lparr>o_calls := v_o_calls\<rparr>) = mem_ok xs s"
  "mem_ok xs (s\<lparr>o_log := v_o_log\<rparr>) = mem_ok xs s"
  "mem_ok xs (s\<lparr>o_state_initialized := v_o_state_initialized\<rparr>) = mem_ok xs s"
  "mem_ok xs (s\<lparr>o_config := v_o_config\<rparr>) = mem_ok xs s"
  "mem_ok xs (s\<lparr>o_state := v_o_state\<rparr>) = mem_ok xs s"
  "mem_ok xs (s\<lparr>o_job := v_o_job\<rparr>) = mem_ok xs s"
  "mem_ok xs (s\<lparr>o_subscribed := v_o_subscribed\<rparr>) = mem_ok xs s"
  "mem_ok xs (s\<lparr>o_sub_intended := v_o_sub_intended\<rparr>) = mem_ok xs s"
  "mem_ok xs (s\<lparr>o_timer_handle := v_o_timer_handle\<rparr>) = mem_ok xs s"
  "mem_ok xs (s\<lparr>o_last_error := v_o_last_error\<rparr>) = mem_ok xs s"
  "mem_ok xs (s\<lparr>o_rec_state := v_o_rec_state\<rparr>) = mem_ok xs s"
  "mem_ok xs (s\<lparr>o_ids := v_o_ids\<rparr>) = mem_ok xs s"
  "mem_ok xs (s\<lparr>o_ids_next := v_o_ids_next\<rparr>) = mem_ok xs s"
  "mem_ok xs (s\<lparr>o_ids_size := v_o_ids_size\<rparr>) = mem_ok xs s"
  "mem_ok xs (s\<lparr>o_error_retry := v_o_error_retry\<rparr>) = mem_ok xs s"
  "mem_ok xs (s\<lparr>o_sub_retry := v_o_sub_retry\<rparr>) = mem_ok xs s"
  "mem_ok xs (s\<lparr>o_terminal_retry := v_o_terminal_retry\<rparr>) = mem_ok xs s"
  "mem_ok xs (s\<lparr>o_pre_mutex := v_o_pre_mutex\<rparr>) = mem_ok xs s"
  "mem_ok xs (s\<lparr>o_sub_work := v_o_sub_work\<rparr>) = mem_ok xs s"
  by (rule mem_ok_cong; simp add: stash_ok_def)+

lemma mem_okD:
  assumes "mem_ok xs s"
  shows "\<exists>q. \<not> o_fault s \<and> stash_ok s \<and> length (o_slots s) = OTA_JOB_EVENT_POOL_SIZE \<and> o_pool_free s = Some q \<and>
    distinct q \<and> set q \<subseteq> {..<OTA_JOB_EVENT_POOL_SIZE} \<and> (\<forall>n. o_fresh s \<le> n \<longrightarrow> o_heap s n = None) \<and>
    distinct (xs @ owned s) \<and> (\<forall>a. a \<in> set (xs @ owned s) \<longrightarrow> event_live s a \<and> event_ok (event_at s a))"
  using assms unfolding mem_ok_def by (cases "o_pool_free s") simp_all

lemma mem_okI:
  assumes "\<not> o_fault s" "stash_ok s" "length (o_slots s) = OTA_JOB_EVENT_POOL_SIZE" "o_pool_free s = Some q"
    "distinct q" "set q \<subseteq> {..<OTA_JOB_EVENT_POOL_SIZE}" "\<forall>n. o_fresh s \<le> n \<longrightarrow> o_heap s n = None"
    "distinct (xs @ owned s)" "\<And>a. a \<in> set (xs @ owned s) \<Longrightarrow> event_live s a \<and> event_ok (event_at s a)"
  shows "mem_ok xs s"
  unfolding mem_ok_def using assms by (auto simp: assms(4))

lemma mem_ok_live: "mem_ok xs s \<Longrightarrow> a \<in> set (xs @ owned s) \<Longrightarrow> event_live s a \<and> event_ok (event_at s a)"
  by (auto simp: mem_ok_def)

lemma pool_take_ok:
  assumes m: "mem_ok xs s" and e: "event_ok e" and t: "event_pool_take s = (Some i, s1)"
  shows "mem_ok (Slot i # xs) (s1\<lparr>o_slots := (o_slots s1)[i := e]\<rparr>)"
proof -
  obtain q0 where q0: "\<not> o_fault s" "stash_ok s" "length (o_slots s) = OTA_JOB_EVENT_POOL_SIZE" "o_pool_free s = Some q0"
    "distinct q0" "set q0 \<subseteq> {..<OTA_JOB_EVENT_POOL_SIZE}" "\<forall>n. o_fresh s \<le> n \<longrightarrow> o_heap s n = None"
    "distinct (xs @ owned s)" "\<forall>a. a \<in> set (xs @ owned s) \<longrightarrow> event_live s a \<and> event_ok (event_at s a)"
    using mem_okD [OF m] by (elim exE conjE)
  obtain q where q: "q0 = i # q" and s1: "s1 = s\<lparr>o_pool_free := Some q\<rparr>"
    using t q0(4) by (auto simp: event_pool_take_def split: list.splits)
  let ?s = "s1\<lparr>o_slots := (o_slots s1)[i := e]\<rparr>"
  have own: "owned ?s = owned s" by (simp add: owned_def s1)
  have fresh: "Slot i \<notin> set (xs @ owned s)"
    using q0(9) [rule_format, of "Slot i"] q0(4) q by (auto simp: event_live_def)
  show ?thesis
  proof (rule mem_okI [where q = q])
    show "distinct ((Slot i # xs) @ owned ?s)" using q0(8) fresh own by simp
    fix a assume a: "a \<in> set ((Slot i # xs) @ owned ?s)"
    show "event_live ?s a \<and> event_ok (event_at ?s a)"
    proof (cases "a = Slot i")
      case True
      then show ?thesis using q0 q e by (simp add: event_live_def event_at_def s1)
    next
      case False
      then have "a \<in> set (xs @ owned s)" using a own by auto
      from q0(9) [rule_format, OF this] show ?thesis
        using False q q0(4) by (cases a) (auto simp: event_live_def event_at_def s1)
    qed
  qed (use q0 q in \<open>auto simp: s1 stash_ok_def\<close>)
qed

lemma heap_new_ok:
  assumes m: "mem_ok xs s" and e: "event_ok e" and h: "heap_new e s = (a, s1)"
  shows "mem_ok (a # xs) s1"
proof -
  obtain q where q: "\<not> o_fault s" "stash_ok s" "length (o_slots s) = OTA_JOB_EVENT_POOL_SIZE" "o_pool_free s = Some q"
    "distinct q" "set q \<subseteq> {..<OTA_JOB_EVENT_POOL_SIZE}" "\<forall>n. o_fresh s \<le> n \<longrightarrow> o_heap s n = None"
    "distinct (xs @ owned s)" "\<forall>b. b \<in> set (xs @ owned s) \<longrightarrow> event_live s b \<and> event_ok (event_at s b)"
    using mem_okD [OF m] by (elim exE conjE)
  have a: "a = Heap (o_fresh s)"
    and s1: "s1 = s\<lparr>o_heap := (o_heap s)(o_fresh s := Some e), o_fresh := Suc (o_fresh s)\<rparr>"
    using h by (auto simp: heap_new_def)
  have own: "owned s1 = owned s" by (simp add: owned_def s1)
  have new: "a \<notin> set (xs @ owned s)" using q(9) [rule_format, of a] q(7) [rule_format, of "o_fresh s"] by (auto simp: a event_live_def)
  show ?thesis
  proof (rule mem_okI [where q = q])
    show "distinct ((a # xs) @ owned s1)" using q(8) new own by simp
    fix b assume b: "b \<in> set ((a # xs) @ owned s1)"
    show "event_live s1 b \<and> event_ok (event_at s1 b)"
    proof (cases "b = a")
      case True
      then show ?thesis using e by (simp add: event_live_def event_at_def s1 a)
    next
      case False
      then have "b \<in> set (xs @ owned s)" using b own by auto
      from q(9) [rule_format, OF this] show ?thesis
        using False by (cases b) (auto simp: event_live_def event_at_def s1 a)
    qed
  qed (use q in \<open>auto simp: s1 stash_ok_def\<close>)
qed

lemma event_ok_payload [simp]:
  "event_ok e \<Longrightarrow> ed_payload e = Some p \<Longrightarrow> event_ok (e\<lparr>ed_payload := Some (p\<lparr>pl_len := n\<rparr>)\<rparr>)"
  "event_ok e \<Longrightarrow> ed_payload e = Some p \<Longrightarrow> event_ok (e\<lparr>ed_payload := Some p\<rparr>)"
  by (auto simp: event_ok_def)

lemma copy_event_heap_ok:
  assumes m: "mem_ok xs s" and e: "event_ok e" and c: "copy_event_heap env e s = (a, s1)"
  shows "mem_ok (case a of None \<Rightarrow> xs | Some r \<Rightarrow> r # xs) s1"
  using c m e
  by (auto simp: copy_event_heap_def copy_payload_def ask_alloc_def Let_def
      split: if_splits option.splits prod.splits intro!: heap_new_ok [rotated 2])

lemma copy_event_data_ok:
  assumes m: "mem_ok xs s" and e: "event_ok e" and c: "copy_event_data env e s = (a, s1)"
  shows "mem_ok (case a of None \<Rightarrow> xs | Some r \<Rightarrow> r # xs) s1"
proof (cases "\<exists>i s2. ed_payload e = None \<and> event_pool_take s = (Some i, s2)")
  case True
  then obtain i s2 where t: "ed_payload e = None" "event_pool_take s = (Some i, s2)" by blast
  then show ?thesis using c pool_take_ok [OF m e t(2)] by (auto simp: copy_event_data_def)
next
  case False
  then have "copy_event_heap env e s = (a, s1)"
    using c by (auto simp: copy_event_data_def event_pool_take_def split: if_splits option.splits list.splits)
  then show ?thesis by (rule copy_event_heap_ok [OF m e])
qed

lemma free_event_data_ok:
  assumes m: "mem_ok (r # xs) s"
  shows "mem_ok xs (free_event_data (Some r) s)"
proof -
  obtain q where q: "\<not> o_fault s" "stash_ok s" "length (o_slots s) = OTA_JOB_EVENT_POOL_SIZE" "o_pool_free s = Some q"
    "distinct q" "set q \<subseteq> {..<OTA_JOB_EVENT_POOL_SIZE}" "\<forall>n. o_fresh s \<le> n \<longrightarrow> o_heap s n = None"
    "distinct ((r # xs) @ owned s)"
    "\<forall>b. b \<in> set ((r # xs) @ owned s) \<longrightarrow> event_live s b \<and> event_ok (event_at s b)"
    using mem_okD [OF m] by (elim exE conjE)
  have r: "event_live s r" "r \<notin> set (xs @ owned s)" using q(8,9) by auto
  show ?thesis
  proof (cases r)
    case (Slot i)
    then have i: "i < OTA_JOB_EVENT_POOL_SIZE" "i \<notin> set q" using r(1) q(4) by (auto simp: event_live_def)
    have "length q = card (set q)" using q(5) by (simp add: distinct_card)
    also have "\<dots> < card {..<OTA_JOB_EVENT_POOL_SIZE}"
      by (rule psubset_card_mono) (use q(6) i in auto)
    finally have room: "length q < OTA_JOB_EVENT_POOL_SIZE" by simp
    let ?s = "s\<lparr>o_slots := (o_slots s)[i := zero_event], o_pool_free := Some (q @ [i])\<rparr>"
    have f: "free_event_data (Some r) s = ?s"
      using room q(4) by (simp add: free_event_data_def event_pool_return_def Slot)
    have own: "owned ?s = owned s" by (simp add: owned_def)
    have "mem_ok xs ?s"
    proof (rule mem_okI [where q = "q @ [i]"])
      fix b assume b: "b \<in> set (xs @ owned ?s)"
      then have "b \<noteq> r" "b \<in> set ((r # xs) @ owned s)" using r(2) own by auto
      with q(9) [rule_format, of b] show "event_live ?s b \<and> event_ok (event_at ?s b)"
        using q(4) Slot by (cases b) (auto simp: event_live_def event_at_def)
    qed (use q i own in \<open>auto simp: stash_ok_def\<close>)
    then show ?thesis by (simp only: f)
  next
    case (Heap n)
    then have n: "o_heap s n \<noteq> None" using r(1) by (simp add: event_live_def)
    let ?s = "s\<lparr>o_heap := (o_heap s)(n := None)\<rparr>"
    have f: "free_event_data (Some r) s = ?s"
      using n by (auto simp: free_event_data_def event_pool_return_def Heap)
    have own: "owned ?s = owned s" by (simp add: owned_def)
    have "mem_ok xs ?s"
    proof (rule mem_okI [where q = q])
      fix b assume b: "b \<in> set (xs @ owned ?s)"
      then have "b \<noteq> r" "b \<in> set ((r # xs) @ owned s)" using r(2) own by auto
      with q(9) [rule_format, of b] show "event_live ?s b \<and> event_ok (event_at ?s b)"
        using Heap by (cases b) (auto simp: event_live_def event_at_def)
    qed (use q own in \<open>auto simp: stash_ok_def\<close>)
    then show ?thesis by (simp only: f)
  qed
qed

text \<open>Moving an event between owners.\<close>

lemma mem_ok_move:
  assumes "mem_ok xs s" "o_fault s' = o_fault s" "o_slots s' = o_slots s" "o_pool_free s' = o_pool_free s"
    "o_heap s' = o_heap s" "o_fresh s' = o_fresh s" "stash_ok s \<Longrightarrow> stash_ok s'"
    "set (ys @ owned s') \<subseteq> set (xs @ owned s)" "distinct (ys @ owned s')"
  shows "mem_ok ys s'"
proof -
  have "event_live s' = event_live s" "event_at s' = event_at s"
    using assms by (auto simp: event_live_def event_at_def fun_eq_iff split: event_ref.splits)
  then show ?thesis using assms unfolding mem_ok_def by auto
qed

lemma mem_ok_distinct: "mem_ok xs s \<Longrightarrow> distinct (xs @ owned s)"
  by (simp add: mem_ok_def)

lemma mem_ok_stash:
  "mem_ok xs s \<Longrightarrow> event_ok (plain_event ev) \<Longrightarrow> mem_ok xs (s\<lparr>o_rec_event := ev\<rparr>)"
  "mem_ok xs s \<Longrightarrow> event_ok e \<Longrightarrow> mem_ok xs (s\<lparr>o_terminal_pending := e\<rparr>)"
  by (frule mem_ok_distinct, erule mem_ok_move; simp add: stash_ok_def owned_def)+

lemma mem_ok_to_wq: "mem_ok (r # xs) s \<Longrightarrow> mem_ok xs (s\<lparr>o_wq := o_wq s @ [r]\<rparr>)"
  by (frule mem_ok_distinct, erule mem_ok_move) (auto simp: owned_def stash_ok_def)

lemma mem_ok_to_pre: "mem_ok (r # xs) s \<Longrightarrow> mem_ok xs (s\<lparr>o_pre_queue := o_pre_queue s @ [r]\<rparr>)"
  by (frule mem_ok_distinct, erule mem_ok_move) (auto simp: owned_def stash_ok_def split: option.splits)

lemma mem_ok_from_wq: "mem_ok xs s \<Longrightarrow> o_wq s = r # w \<Longrightarrow> mem_ok (r # xs) (s\<lparr>o_wq := w\<rparr>)"
  by (frule mem_ok_distinct, erule mem_ok_move) (auto simp: owned_def stash_ok_def)

lemma enqueue_ref_ok:
  assumes "mem_ok (r # xs) s"
  shows "mem_ok xs (snd (enqueue_ref env r s))"
proof -
  have "mem_ok (r # xs) (s\<lparr>o_calls := Suc (o_calls s)\<rparr>)" using assms by simp
  from mem_ok_to_wq [OF this] free_event_data_ok [OF this] show ?thesis
    by (simp add: enqueue_ref_def ask_err_def Let_def)
qed

lemma enqueue_copy_ok:
  assumes "mem_ok xs s" "event_ok e"
  shows "mem_ok xs (snd (enqueue_copy env e s))"
  using copy_event_data_ok [OF assms, where env = env]
  by (auto simp: enqueue_copy_def Let_def split: prod.splits option.splits dest: enqueue_ref_ok)

lemma plain_event_ok [simp]:
  "event_ok (plain_event e) \<longleftrightarrow> e \<noteq> FINAL_STATUS_REPORT_REQUESTED \<and> e \<noteq> IMAGE_DOWNLOAD_PROGRESS"
  "e \<noteq> FINAL_STATUS_REPORT_REQUESTED \<Longrightarrow> event_ok (text_event e msg)"
  "e \<noteq> IMAGE_DOWNLOAD_PROGRESS \<Longrightarrow> event_ok (details_event e d)"
  by (auto simp: event_ok_def plain_event_def text_event_def details_event_def)

lemma enqueue_transition_event_ok: "mem_ok xs s \<Longrightarrow> mem_ok xs (snd (enqueue_transition_event env s))"
  by (simp add: enqueue_transition_event_def enqueue_copy_ok)

lemma pre_init_add_ok:
  assumes "mem_ok xs s" "event_ok e"
  shows "mem_ok xs (snd (pre_init_event_queue_add_if_not_initialized env e s))"
proof -
  have m: "mem_ok xs (snd (ask_alloc env s))" using assms(1) by (simp add: ask_alloc_def)
  show ?thesis
    using assms(1) copy_event_data_ok [OF m assms(2), where env = env]
    by (auto simp: pre_init_event_queue_add_if_not_initialized_def ask_alloc_def Let_def
        split: prod.splits option.splits intro!: mem_ok_to_pre)
qed

lemma post_event_ok:
  assumes "mem_ok xs s" "event_ok e"
  shows "mem_ok xs (snd (ota_job_state_post_event env e s))"
  using pre_init_add_ok [OF assms, where env = env] enqueue_copy_ok [OF assms, where env = env]
    enqueue_copy_ok [OF _ assms(2), where env = env]
  by (auto simp: ota_job_state_post_event_def Let_def split: prod.splits)

lemma enqueue_all_ok: "mem_ok (as @ xs) s \<Longrightarrow> mem_ok xs (snd (enqueue_all env as s))"
proof (induction as arbitrary: s)
  case (Cons a as)
  from Cons.prems have "mem_ok (as @ xs) (snd (enqueue_ref env a s))" by (simp add: enqueue_ref_ok)
  from Cons.IH [OF this] show ?case
    by (cases "enqueue_ref env a s"; cases "enqueue_all env as (snd (enqueue_ref env a s))") (simp add: Let_def)
qed simp

lemma pre_init_enqueue_all_ok:
  assumes "mem_ok xs s"
  shows "mem_ok xs (snd (pre_init_event_queue_enqueue_all env s))"
proof -
  have "mem_ok (o_pre_queue s @ xs) (s\<lparr>o_pre_queue := []\<rparr>)"
    using mem_ok_distinct [OF assms] by (rule_tac mem_ok_move [OF assms]) (auto simp: owned_def stash_ok_def)
  from enqueue_all_ok [OF this, where env = env] assms show ?thesis
    by (auto simp: pre_init_event_queue_enqueue_all_def Let_def split: prod.splits)
qed

section \<open>What the event operations leave alone\<close>

text \<open>The globals without the storage of events.\<close>

definition outer :: "ota_sys \<Rightarrow> ota_sys" where
  "outer s = s\<lparr>o_calls := 0, o_fault := False, o_pool_free := None, o_slots := [], o_heap := (\<lambda>_. None),
     o_fresh := 0, o_wq := [], o_pre_queue := []\<rparr>"

lemma outer_sel:
  "o_log (outer s) = o_log s"
  "o_config (outer s) = o_config s"
  "o_state (outer s) = o_state s"
  "o_job (outer s) = o_job s"
  "o_subscribed (outer s) = o_subscribed s"
  "o_sub_intended (outer s) = o_sub_intended s"
  "o_timer_handle (outer s) = o_timer_handle s"
  "o_last_error (outer s) = o_last_error s"
  "o_rec_state (outer s) = o_rec_state s"
  "o_rec_data (outer s) = o_rec_data s"
  "o_rec_event (outer s) = o_rec_event s"
  "o_ids (outer s) = o_ids s"
  "o_ids_next (outer s) = o_ids_next s"
  "o_ids_size (outer s) = o_ids_size s"
  "o_error_retry (outer s) = o_error_retry s"
  "o_sub_retry (outer s) = o_sub_retry s"
  "o_terminal_retry (outer s) = o_terminal_retry s"
  "o_terminal_pending (outer s) = o_terminal_pending s"
  "o_pre_mutex (outer s) = o_pre_mutex s"
  "o_sub_work (outer s) = o_sub_work s"
  "o_state_initialized (outer s) = o_state_initialized s"
  by (simp_all add: outer_def)

lemma outer_fields:
  assumes "outer s = outer t"
  shows
    "o_log s = o_log t"
    "o_config s = o_config t"
    "o_state s = o_state t"
    "o_job s = o_job t"
    "o_subscribed s = o_subscribed t"
    "o_sub_intended s = o_sub_intended t"
    "o_timer_handle s = o_timer_handle t"
    "o_last_error s = o_last_error t"
    "o_rec_state s = o_rec_state t"
    "o_rec_data s = o_rec_data t"
    "o_rec_event s = o_rec_event t"
    "o_ids s = o_ids t"
    "o_ids_next s = o_ids_next t"
    "o_ids_size s = o_ids_size t"
    "o_error_retry s = o_error_retry t"
    "o_sub_retry s = o_sub_retry t"
    "o_terminal_retry s = o_terminal_retry t"
    "o_terminal_pending s = o_terminal_pending t"
    "o_pre_mutex s = o_pre_mutex t"
    "o_sub_work s = o_sub_work t"
    "o_state_initialized s = o_state_initialized t"
  using assms by (metis outer_sel)+

lemma outer_free: "outer (free_event_data a s) = outer s"
  by (simp add: outer_def free_event_data_def Let_def fault_def event_pool_return_def
      split: event_ref.splits option.splits prod.splits)

lemma outer_copy_event_heap: "outer (snd (copy_event_heap env e s)) = outer s"
  by (auto simp: outer_def copy_event_heap_def copy_payload_def heap_new_def ask_alloc_def Let_def
      split: prod.splits option.splits if_splits)

lemma outer_copy_event_data: "outer (snd (copy_event_data env e s)) = outer s"
  using outer_copy_event_heap [of env e s]
  by (auto simp: copy_event_data_def event_pool_take_def outer_def split: option.splits list.splits)

lemma outer_enqueue_ref: "outer (snd (enqueue_ref env a s)) = outer s"
  using outer_free [of "Some a" "s\<lparr>o_calls := Suc (o_calls s)\<rparr>"]
  by (simp add: enqueue_ref_def ask_err_def Let_def) (simp add: outer_def)

lemma outer_enqueue_copy: "outer (snd (enqueue_copy env e s)) = outer s"
  using outer_copy_event_data [of env e s] outer_enqueue_ref
  by (auto simp: enqueue_copy_def Let_def split: prod.splits option.splits)

lemma outer_enqueue_transition: "outer (snd (enqueue_transition_event env s)) = outer s"
  by (simp add: enqueue_transition_event_def outer_enqueue_copy)

lemma outer_pre_init_add: "outer (snd (pre_init_event_queue_add_if_not_initialized env e s)) = outer s"
  using outer_copy_event_data [of env e "snd (ask_alloc env s)"]
  by (auto simp: pre_init_event_queue_add_if_not_initialized_def ask_alloc_def Let_def outer_def
      split: prod.splits option.splits)

lemma outer_post_event: "outer (snd (ota_job_state_post_event env e s)) = outer s"
  using outer_pre_init_add [of env e s] outer_enqueue_copy
  by (auto simp: ota_job_state_post_event_def Let_def split: prod.splits)

lemmas free_frame [simp] = outer_fields [OF outer_free]
lemmas enqueue_ref_frame [simp] = outer_fields [OF outer_enqueue_ref]
lemmas enqueue_copy_frame [simp] = outer_fields [OF outer_enqueue_copy]
lemmas enqueue_transition_frame [simp] = outer_fields [OF outer_enqueue_transition]
lemmas post_event_frame [simp] = outer_fields [OF outer_post_event]

end
