(* ===== verification/Ota_Job_Doc.thy ===== *)
theory Ota_Job_Doc
  imports Ota_Events
begin

text \<open>What the OTA engine computes from a job document: the version comparison
(\<^verbatim>\<open>__default_version_to_uint32\<close> of \<^verbatim>\<open>ota_filetype_handler_internal.c\<close>), the execution version, the custom
fields, the OTA data, the queue of job ids and the download window (\<^verbatim>\<open>ota_jobs.c\<close>). Strings are the
characters up to the terminator or the given length; the JSON parser's answers come from the
environment.\<close>

section \<open>Versions\<close>

definition is_digit :: "char \<Rightarrow> bool" where
  "is_digit c = (48 \<le> (of_char c :: nat) \<and> (of_char c :: nat) \<le> 57)"

definition digit_val :: "char \<Rightarrow> nat" where
  "digit_val c = of_char c - 48"

text \<open>The loop of \<^verbatim>\<open>__default_version_to_uint32\<close>: the three fields, the index of the field being read and
whether it has a digit yet.\<close>

fun version_loop :: "string \<Rightarrow> u32 list \<Rightarrow> nat \<Rightarrow> bool \<Rightarrow> (u32 list \<times> nat \<times> bool) option" where
  "version_loop [] fs idx has_digit = Some (fs, idx, has_digit)"
| "version_loop (c # cs) fs idx has_digit =
     (if c = CHR ''.'' then
        if \<not> has_digit then None
        else if idx = 2 then Some (fs, idx, has_digit)
        else version_loop cs fs (idx + 1) False
      else if \<not> is_digit c then None
      else let v = fs ! idx * 10 + of_nat (digit_val c)
           in if v > 1023 then None else version_loop cs (fs[idx := v]) idx True)"

definition default_version_to_uint32 :: "string \<Rightarrow> u32 option" where
  "default_version_to_uint32 v =
     (if v = [] then None
      else case version_loop v [0, 0, 0] 0 False of
             None \<Rightarrow> None
           | Some (fs, idx, has_digit) \<Rightarrow>
               if idx < 1 \<or> \<not> has_digit then None
               else Some (push_bit 20 (fs ! 0) OR push_bit 10 (fs ! 1) OR fs ! 2))"

definition filetype_handler_get_default_ctx :: "ota_env \<Rightarrow> ft_ctx" where
  "filetype_handler_get_default_ctx env =
     \<lparr>ft_version_to_uint32 = Some default_version_to_uint32, ft_get_version = Some (\<lambda>_. e_fw_version env),
      ft_has_set_version = False, ft_has_on_download_begin = True, ft_has_on_download_chunk = True,
      ft_has_on_download_complete = True, ft_has_get_sha256_hash = True,
      ft_has_perform_integration_check = True, ft_has_on_post_download_checks_complete = True\<rparr>"

definition filetype_handler_is_valid_ctx :: "ft_ctx \<Rightarrow> bool" where
  "filetype_handler_is_valid_ctx ctx =
     (if \<not> ft_has_on_download_begin ctx \<or> \<not> ft_has_on_download_chunk ctx \<or>
         \<not> ft_has_on_download_complete ctx \<or> \<not> ft_has_get_sha256_hash ctx \<or>
         \<not> ft_has_perform_integration_check ctx \<or> \<not> ft_has_on_post_download_checks_complete ctx
      then False
      else \<not> ((ft_get_version ctx \<noteq> None) \<noteq> (ft_version_to_uint32 ctx \<noteq> None)))"

text \<open>The sum is kept in an \<^verbatim>\<open>int32_t\<close>: past its range C leaves it undefined.\<close>

fun execution_version_loop :: "string \<Rightarrow> int \<Rightarrow> int option outcome" where
  "execution_version_loop [] v = Returned (Some v)"
| "execution_version_loop (c # cs) v =
     (if \<not> is_digit c then Returned None
      else let w = v * 10 + int (digit_val c)
           in if w > 2147483647 then Crashed else execution_version_loop cs w)"

definition execution_version_to_int32 :: "string \<Rightarrow> int option outcome" where
  "execution_version_to_int32 v = execution_version_loop v 0"

section \<open>Numbers in text\<close>

text \<open>\<^verbatim>\<open>strtol(s, NULL, 10)\<close> and \<^verbatim>\<open>strtoul\<close> with the 32-bit \<^verbatim>\<open>long\<close> of the target.\<close>

definition is_space :: "char \<Rightarrow> bool" where
  "is_space c = ((of_char c :: nat) = 32 \<or> 9 \<le> (of_char c :: nat) \<and> (of_char c :: nat) \<le> 13)"

primrec digits_value :: "string \<Rightarrow> nat \<Rightarrow> nat" where
  "digits_value [] v = v"
| "digits_value (c # cs) v = (if is_digit c then digits_value cs (v * 10 + digit_val c) else v)"

definition strtol10 :: "string \<Rightarrow> int" where
  "strtol10 str =
     (case dropWhile is_space str of
        [] \<Rightarrow> 0
      | c # cs \<Rightarrow>
          if c = CHR ''-'' then max (- 2147483648) (- int (digits_value cs 0))
          else min 2147483647 (int (digits_value (if c = CHR ''+'' then cs else c # cs) 0)))"

definition strtoul10 :: "string \<Rightarrow> u32" where
  "strtoul10 str =
     (let t = dropWhile is_space str; neg = (t \<noteq> [] \<and> hd t = CHR ''-'');
          n = digits_value (if t \<noteq> [] \<and> (hd t = CHR ''-'' \<or> hd t = CHR ''+'') then tl t else t) 0
      in if n > 4294967295 then 4294967295 else if neg then - of_nat n else of_nat n)"

text \<open>The conversions to \<^verbatim>\<open>int16_t\<close> and \<^verbatim>\<open>int32_t\<close>.\<close>

definition to_i16 :: "int \<Rightarrow> int" where
  "to_i16 v = sint (word_of_int v :: 16 word)"

definition to_i32 :: "int \<Rightarrow> int" where
  "to_i32 v = sint (word_of_int v :: 32 word)"

section \<open>The download window\<close>

record download_window =
  dw_daily_start :: int
  dw_daily_end :: int
  dw_validity_start :: int
  dw_validity_end :: int

definition has_download_window :: "download_window \<Rightarrow> bool" where
  "has_download_window w = (dw_validity_start w \<noteq> 0 \<and> dw_validity_end w \<noteq> 0)"

definition MINUTES_PER_DAY :: int where
  "MINUTES_PER_DAY = 1440"

definition daily_delay :: "int \<Rightarrow> int \<Rightarrow> int \<Rightarrow> int" where
  "daily_delay start_min end_min now_min =
     (let (start', end', now') =
        (if start_min > end_min then
           let diff = to_i16 (MINUTES_PER_DAY - start_min);
               shifted = to_i16 (now_min + diff)
           in (0, to_i16 (end_min + diff),
               if shifted > MINUTES_PER_DAY then to_i16 (shifted - MINUTES_PER_DAY) else shifted)
         else (start_min, end_min, now_min))
      in if now' \<ge> start' \<and> now' \<le> end' then 0
         else let delay = start' - now' in if delay < 0 then delay + MINUTES_PER_DAY else delay)"

text \<open>C's division of the (positive) distance to the start rounds down.\<close>

definition get_download_window_delay_time :: "(int \<Rightarrow> nat \<times> nat) \<Rightarrow> int \<Rightarrow> download_window \<Rightarrow> int" where
  "get_download_window_delay_time localtime now w =
     (if dw_validity_start w = 0 \<or> dw_validity_end w = 0 then 0
      else if dw_validity_start w > dw_validity_end w then - 1
      else if now < dw_validity_start w then to_i32 ((dw_validity_start w - now) div 60)
      else if now > dw_validity_end w then - 1
      else if dw_daily_start w = - 1 \<or> dw_daily_end w = - 1 then 0
      else let (hour, minute) = localtime now
           in daily_delay (dw_daily_start w) (dw_daily_end w) (to_i16 (int (hour * 60 + minute))))"

section \<open>The custom fields\<close>

record custom_fields =
  cu_fw_version :: "string option"
  cu_min_fw_version :: "string option"
  cu_file_md5 :: "string option"
  cu_filetype :: "string option"
  cu_metadata :: "string option"
  cu_download_window :: download_window

definition json_field :: "ota_env \<Rightarrow> string \<Rightarrow> string \<Rightarrow> string option" where
  "json_field env doc key =
     (case e_json_search env doc key of
        Some (_, v) \<Rightarrow> if v = [] then None else Some v
      | None \<Rightarrow> None)"

definition parse_download_window :: "ota_env \<Rightarrow> string \<Rightarrow> download_window" where
  "parse_download_window env rmng =
     (let none = \<lparr>dw_daily_start = - 1, dw_daily_end = - 1, dw_validity_start = 0, dw_validity_end = 0\<rparr>
      in case json_field env rmng ''download_window'' of
           None \<Rightarrow> none
         | Some w \<Rightarrow>
             \<lparr>dw_daily_start = (case json_field env w ''daily.start'' of None \<Rightarrow> - 1 | Some v \<Rightarrow> to_i16 (strtol10 v)),
              dw_daily_end = (case json_field env w ''daily.end'' of None \<Rightarrow> - 1 | Some v \<Rightarrow> to_i16 (strtol10 v)),
              dw_validity_start = (case json_field env w ''validity.start'' of None \<Rightarrow> 0 | Some v \<Rightarrow> strtol10 v),
              dw_validity_end = (case json_field env w ''validity.end'' of None \<Rightarrow> 0 | Some v \<Rightarrow> strtol10 v)\<rparr>)"

definition parse_custom_fields_from_job_doc :: "ota_env \<Rightarrow> string \<Rightarrow> err + custom_fields" where
  "parse_custom_fields_from_job_doc env job_doc =
     (if job_doc = [] then Inl ERR_INVALID_ARG
      else case json_field env job_doc ''rmng_ota'' of
             None \<Rightarrow> Inl ERR_INVALID_ARG
           | Some rmng \<Rightarrow>
               if json_field env rmng ''min_fw_version'' \<noteq> None \<and> json_field env rmng ''fw_version'' = None
               then Inl ERR_INVALID_ARG
               else Inr \<lparr>cu_fw_version = json_field env rmng ''fw_version'',
                         cu_min_fw_version = json_field env rmng ''min_fw_version'',
                         cu_file_md5 = json_field env rmng ''file_md5'',
                         cu_filetype = json_field env rmng ''filetype'',
                         cu_metadata = json_field env rmng ''metadata'',
                         cu_download_window = parse_download_window env rmng\<rparr>)"

section \<open>The OTA data of the current job\<close>

definition upd_job :: "(job_info \<Rightarrow> job_info) \<Rightarrow> ota_sys \<Rightarrow> ota_sys" where
  "upd_job f s = s\<lparr>o_job := f (o_job s)\<rparr>"

definition upd_data :: "(ota_data \<Rightarrow> ota_data) \<Rightarrow> ota_sys \<Rightarrow> ota_sys" where
  "upd_data f s = upd_job (\<lambda>j. j\<lparr>ji_ota_data := f (ji_ota_data j)\<rparr>) s"

definition clear_ota_data :: "ota_sys \<Rightarrow> ota_sys" where
  "clear_ota_data s = upd_data (\<lambda>_. no_ota_data) s"

text \<open>Copies one string into the OTA data; a missing optional string leaves the field as it is.\<close>

definition copy_field :: "ota_env \<Rightarrow> string option \<Rightarrow> (string option \<Rightarrow> ota_data \<Rightarrow> ota_data) \<Rightarrow> ota_sys
    \<Rightarrow> err \<times> ota_sys" where
  "copy_field env src put s =
     (let (r, s1) = make_string_copy env src s
      in case r of Inl e \<Rightarrow> (e, s1) | Inr str \<Rightarrow> (ERR_OK, upd_data (put (Some str)) s1))"

definition copy_optional :: "ota_env \<Rightarrow> string option \<Rightarrow> (string option \<Rightarrow> ota_data \<Rightarrow> ota_data) \<Rightarrow> ota_sys
    \<Rightarrow> err \<times> ota_sys" where
  "copy_optional env src put s = (if src = None \<or> src = Some [] then (ERR_OK, s) else copy_field env src put s)"

definition and_then :: "err \<times> ota_sys \<Rightarrow> (ota_sys \<Rightarrow> err \<times> ota_sys) \<Rightarrow> err \<times> ota_sys" where
  "and_then r f = (if fst r = ERR_OK then f (snd r) else r)"

definition set_ota_data_fields :: "ota_env \<Rightarrow> afr_fields \<Rightarrow> custom_fields \<Rightarrow> ota_sys \<Rightarrow> err \<times> ota_sys" where
  "set_ota_data_fields env aws cu s =
     (if unat (af_fileSize aws) > 2147483647 then (ERR_INVALID_ARG, s)
      else let s1 = upd_data (\<lambda>d. d\<lparr>od_filesize := uint (af_fileSize aws), od_file_id := af_fileId aws\<rparr>) s
           in and_then (and_then (and_then (and_then
                (copy_field env (Some (af_imageRef aws)) (\<lambda>v d. d\<lparr>od_stream_id := v\<rparr>) s1)
                (copy_optional env (Some (af_signature aws)) (\<lambda>v d. d\<lparr>od_file_signature := v\<rparr>)))
                (copy_optional env (cu_fw_version cu) (\<lambda>v d. d\<lparr>od_fw_version := v\<rparr>)))
                (copy_optional env (cu_file_md5 cu) (\<lambda>v d. d\<lparr>od_file_md5 := v\<rparr>)))
                (copy_optional env (cu_metadata cu) (\<lambda>v d. d\<lparr>od_metadata := v\<rparr>)))"

definition set_ota_data_from_job_doc :: "ota_env \<Rightarrow> afr_fields \<Rightarrow> custom_fields \<Rightarrow> ota_sys \<Rightarrow> err \<times> ota_sys" where
  "set_ota_data_from_job_doc env aws cu s =
     (let (err, s1) = set_ota_data_fields env aws cu s
      in if err = ERR_OK then (ERR_OK, s1) else (err, clear_ota_data s1))"

section \<open>The queue of job ids\<close>

text \<open>One array of job descriptions: \<^verbatim>\<open>break\<close> when the queue is full, \<^verbatim>\<open>continue\<close> past an entry without an id
or with one that is too long.\<close>

primrec collect_job_ids :: "ota_env \<Rightarrow> string list \<Rightarrow> string list \<Rightarrow> u16 \<Rightarrow> string list \<times> u16" where
  "collect_job_ids env [] ids idx = (ids, idx)"
| "collect_job_ids env (v # vs) ids idx =
     (case json_field env v ''jobId'' of
        None \<Rightarrow> collect_job_ids env vs ids idx
      | Some jobid \<Rightarrow>
          if idx \<ge> OTA_JOB_ID_QUEUE_SIZE then (ids, idx)
          else if length jobid > e_jobid_max env then collect_job_ids env vs ids idx
          else collect_job_ids env vs (ids[unat idx := jobid]) (idx + 1))"

definition collect_array :: "ota_env \<Rightarrow> string \<Rightarrow> string \<Rightarrow> string list \<times> u16 \<Rightarrow> string list \<times> u16" where
  "collect_array env msg path = (\<lambda>(ids, idx).
     case json_field env msg path of
       None \<Rightarrow> (ids, idx)
     | Some arr \<Rightarrow>
         if \<not> e_json_validate env arr then (ids, idx)
         else collect_job_ids env (e_json_iterate env arr) ids idx)"

definition pending_jobs_to_job_id_queue ::
    "ota_env \<Rightarrow> string \<Rightarrow> string \<Rightarrow> string \<Rightarrow> ota_sys \<Rightarrow> error_reason \<times> ota_sys" where
  "pending_jobs_to_job_id_queue env msg in_progress_path pending_path s =
     (if \<not> e_json_validate env msg then (GET_PENDING_INVALID_FORMAT, s)
      else let s1 = upd_job (\<lambda>j. j\<lparr>ji_has_pending_job := False\<rparr>) s;
               (ids, idx) = collect_array env msg pending_path (collect_array env msg in_progress_path (o_ids s1, 0))
           in (if idx > 0 then ERROR_NONE else NO_PENDING_JOBS,
               s1\<lparr>o_ids := ids, o_ids_next := 0, o_ids_size := idx\<rparr>))"

definition get_next_job_id_from_queue :: "ota_sys \<Rightarrow> string option \<times> ota_sys" where
  "get_next_job_id_from_queue s =
     (if o_ids_next s \<ge> o_ids_size s then (None, s)
      else (Some (o_ids s ! unat (o_ids_next s)), s\<lparr>o_ids_next := o_ids_next s + 1\<rparr>))"

section \<open>The version numbers are ordered like the versions\<close>

fun nat_str :: "nat \<Rightarrow> string" where
  "nat_str n = (if n < 10 then [char_of (48 + n)] else nat_str (n div 10) @ [char_of (48 + n mod 10)])"

declare nat_str.simps [simp del]

definition version_str :: "nat \<Rightarrow> nat \<Rightarrow> nat \<Rightarrow> string \<Rightarrow> string" where
  "version_str x y z trail = nat_str x @ ''.'' @ nat_str y @ ''.'' @ nat_str z @ trail"

lemma digit_char:
  assumes "d < 10"
  shows "is_digit (char_of (48 + d))" "digit_val (char_of (48 + d)) = d"
    "(char_of (48 + d) = CHR ''.'') = False"
proof -
  have o: "of_char (char_of (48 + d) :: char) = 48 + d" using assms by (simp add: take_bit_nat_eq_self)
  show "is_digit (char_of (48 + d))" "digit_val (char_of (48 + d)) = d"
    using assms o by (simp_all add: is_digit_def digit_val_def)
  have "of_char (CHR ''.'') = (46 :: nat)" by simp
  then have "48 + d \<noteq> of_char (CHR ''.'')" by linarith
  then show "(char_of (48 + d) = CHR ''.'') = False" using o by metis
qed

lemma version_loop_digits:
  assumes "x \<le> 1023" "idx < length fs" "fs ! idx = 0"
  shows "version_loop (nat_str x @ cs) fs idx has = version_loop cs (fs[idx := of_nat x]) idx True"
  using assms
proof (induction x arbitrary: cs has rule: nat_str.induct)
  case (1 n)
  have small: "of_nat m > (1023 :: u32) \<longleftrightarrow> 1023 < m" if "m < 20000" for m
    using that by (simp add: word_less_nat_alt unsigned_of_nat take_bit_nat_eq_self)
  show ?case
  proof (cases "n < 10")
    case True
    then show ?thesis
      using 1(3,4) digit_char [OF True] small [of n]
      by (simp add: nat_str.simps [of n])
  next
    case False
    have d: "n mod 10 < 10" by simp
    have eq: "of_nat (n div 10) * 10 + of_nat (n mod 10) = (of_nat n :: u32)"
      by (metis div_mult_mod_eq of_nat_add of_nat_mult of_nat_numeral)
    have "version_loop (nat_str n @ cs) fs idx has
        = version_loop (char_of (48 + n mod 10) # cs) (fs[idx := of_nat (n div 10)]) idx True"
      using 1 False by (simp add: nat_str.simps [of n])
    also have "\<dots> = version_loop cs (fs[idx := of_nat n]) idx True"
      using digit_char [OF d] 1(2-4) small [of n] eq by (simp add: Let_def)
    finally show ?thesis .
  qed
qed

lemma version_loop_trail:
  "trail = [] \<or> hd trail = CHR ''.'' \<Longrightarrow> version_loop trail fs (Suc (Suc 0)) True = Some (fs, 2, True)"
  by (cases trail) auto

definition version_num :: "nat \<Rightarrow> nat \<Rightarrow> nat \<Rightarrow> u32" where
  "version_num x y z = push_bit 20 (of_nat x) OR push_bit 10 (of_nat y) OR of_nat z"

lemma bit_small: "m < 2 ^ k \<Longrightarrow> bit (m::nat) n \<Longrightarrow> n < k"
  by (metis bit_take_bit_iff take_bit_nat_eq_self)

lemma push_or:
  assumes "m < 2 ^ k" "k < 32"
  shows "push_bit k (of_nat x) OR of_nat m = (of_nat (x * 2 ^ k + m) :: u32)"
proof -
  have "push_bit k (of_nat x) OR of_nat m = (push_bit k (of_nat x) + of_nat m :: u32)"
    by (rule disjunctive_add [symmetric])
       (use assms bit_small [OF assms(1)] in \<open>auto simp: bit_simps not_le\<close>)
  then show ?thesis by (simp add: push_bit_eq_mult)
qed

lemma version_num_sum:
  assumes "x \<le> 1023" "y \<le> 1023" "z \<le> 1023"
  shows "unat (version_num x y z) = x * 2 ^ 20 + y * 2 ^ 10 + z"
proof -
  have "version_num x y z = of_nat (x * 2 ^ 20 + (y * 2 ^ 10 + z))"
    unfolding version_num_def by (subst push_or, use assms in simp, simp, subst push_or) (use assms in simp_all)
  then have "unat (version_num x y z) = take_bit 32 (x * 2 ^ 20 + (y * 2 ^ 10 + z))"
    by (simp only: unsigned_of_nat) simp
  then show ?thesis using assms by (simp add: take_bit_nat_eq_self)
qed

lemma default_version_to_uint32_str:
  assumes "x \<le> 1023" "y \<le> 1023" "z \<le> 1023" "trail = [] \<or> hd trail = CHR ''.''"
  shows "default_version_to_uint32 (version_str x y z trail) = Some (version_num x y z)"
proof -
  have "version_str x y z trail \<noteq> []" by (simp add: version_str_def)
  then show ?thesis
    using assms(1-3)
    by (simp add: default_version_to_uint32_def version_str_def version_loop_digits
        version_loop_trail [OF assms(4)] version_num_def)
qed

text \<open>C37: the version numbers the default handler computes order firmware versions as expected: for
versions \<^verbatim>\<open>x.y.z\<close> with fields up to 1023, whatever segments follow the third, both parse and the number
of the one is at most the number of the other exactly when the version is, field by field.\<close>

theorem version_numbers_order_versions:
  assumes "x \<le> 1023" "y \<le> 1023" "z \<le> 1023" "trail = [] \<or> hd trail = CHR ''.''"
    and "x' \<le> 1023" "y' \<le> 1023" "z' \<le> 1023" "trail' = [] \<or> hd trail' = CHR ''.''"
  shows "\<exists>n m. default_version_to_uint32 (version_str x y z trail) = Some n \<and>
    default_version_to_uint32 (version_str x' y' z' trail') = Some m \<and>
    (n \<le> m \<longleftrightarrow> x < x' \<or> x = x' \<and> (y < y' \<or> y = y' \<and> z \<le> z'))"
proof -
  have "version_num x y z \<le> version_num x' y' z' \<longleftrightarrow>
      x * 2 ^ 20 + y * 2 ^ 10 + z \<le> x' * 2 ^ 20 + y' * 2 ^ 10 + z'"
    using assms by (simp add: word_le_nat_alt version_num_sum)
  also have "\<dots> \<longleftrightarrow> x < x' \<or> x = x' \<and> (y < y' \<or> y = y' \<and> z \<le> z')"
    using assms by (cases "x < x'"; cases "x = x'"; cases "y < y'"; cases "y = y'") auto
  finally show ?thesis using default_version_to_uint32_str assms by blast
qed

lemma version_str_witness:
  "version_str 2 9 12 ''.7'' = ''2.9.12.7''" "version_str 2 10 0 '''' = ''2.10.0''"
  by code_simp+

theorem version_numbers_order_versions_witness:
  "\<exists>n m. default_version_to_uint32 ''2.9.12.7'' = Some n \<and> default_version_to_uint32 ''2.10.0'' = Some m \<and> n \<le> m"
  using version_numbers_order_versions [of 2 9 12 "''.7''" 2 10 0 "''''"]
  by (simp add: version_str_witness)

section \<open>The download window lets a job start inside its daily window\<close>

lemma to_i16_id: "- 32768 \<le> v \<Longrightarrow> v \<le> 32767 \<Longrightarrow> to_i16 v = v"
  by (simp add: to_i16_def signed_of_int signed_take_bit_int_eq_self)

definition in_daily_window :: "int \<Rightarrow> int \<Rightarrow> int \<Rightarrow> bool" where
  "in_daily_window start_min end_min m =
     (if start_min \<le> end_min then start_min \<le> m \<and> m \<le> end_min else start_min \<le> m \<or> m \<le> end_min)"

text \<open>C38: for a daily window given in minutes of the day, also one that spans midnight, the computed delay is
the least number of minutes after which the time of day lies in the window.\<close>

theorem daily_delay_is_least:
  assumes "0 \<le> b" "b < 1440" "0 \<le> e" "e < 1440" "0 \<le> n" "n < 1440"
  shows "0 \<le> daily_delay b e n \<and> daily_delay b e n < 1440 \<and>
    in_daily_window b e ((n + daily_delay b e n) mod 1440) \<and>
    (\<forall>d. 0 \<le> d \<and> d < daily_delay b e n \<longrightarrow> \<not> in_daily_window b e ((n + d) mod 1440))"
proof -
  have wrap: "(n + d) mod 1440 = (if n + d < 1440 then n + d else n + d - 1440)" if "0 \<le> d" "d < 1440" for d
  proof (cases "n + d < 1440")
    case False
    have "(n + d) mod 1440 = (n + d - 1440) mod 1440" by simp
    also have "\<dots> = n + d - 1440" by (rule mod_pos_pos_trivial) (use assms that False in simp_all)
    finally show ?thesis using False by simp
  qed (use assms that in simp)
  have i16: "to_i16 (1440 - b) = 1440 - b" "to_i16 (n + (1440 - b)) = n + (1440 - b)"
    "to_i16 (e + (1440 - b)) = e + (1440 - b)" "to_i16 (n - b) = n - b" "to_i16 1440 = 1440"
    using assms by (auto intro!: to_i16_id)
  have d: "daily_delay b e n =
    (if b \<le> e then (if b \<le> n \<and> n \<le> e then 0 else if n < b then b - n else b - n + 1440)
     else if b \<le> n \<or> n \<le> e then 0 else b - n)"
    using assms by (simp add: daily_delay_def MINUTES_PER_DAY_def Let_def i16 split: if_splits) linarith?
  show ?thesis
    using assms by (auto simp: d in_daily_window_def wrap split: if_splits)
qed

theorem daily_delay_is_least_witness:
  "daily_delay 1380 120 1200 = 180 \<and> in_daily_window 1380 120 ((1200 + 180) mod 1440)"
proof -
  have d: "daily_delay 1380 120 1200 = 180"
    by (simp add: daily_delay_def MINUTES_PER_DAY_def to_i16_id)
  show ?thesis using daily_delay_is_least [of 1380 120 1200] unfolding d by simp
qed

text \<open>less than a minute before its validity starts, a download window already reports no delay: the
distance to the start is divided by 60 and rounded down, and a delay of zero means the job runs now.\<close>

theorem download_window_opens_early:
  assumes "dw_validity_start w \<noteq> 0" "dw_validity_end w \<noteq> 0" "dw_validity_start w \<le> dw_validity_end w"
    and "now < dw_validity_start w" "dw_validity_start w - now < 60"
  shows "has_download_window w \<and> get_download_window_delay_time localtime now w = 0"
proof -
  have "(dw_validity_start w - now) div 60 = 0" using assms by (simp add: div_pos_pos_trivial)
  then show ?thesis using assms
    by (simp add: has_download_window_def get_download_window_delay_time_def to_i32_def)
qed

theorem download_window_opens_early_witness:
  "get_download_window_delay_time (\<lambda>_. (12, 0)) 1700000000
     \<lparr>dw_daily_start = 600, dw_daily_end = 660, dw_validity_start = 1700000059,
      dw_validity_end = 1700086400\<rparr> = 0"
  by (rule download_window_opens_early [THEN conjunct2]) simp_all

section \<open>The job ids are taken in order\<close>

definition wanted_job_ids :: "ota_env \<Rightarrow> string \<Rightarrow> string list" where
  "wanted_job_ids env arr =
     filter (\<lambda>j. length j \<le> e_jobid_max env) (List.map_filter (\<lambda>v. json_field env v ''jobId'') (e_json_iterate env arr))"

definition wanted_in :: "ota_env \<Rightarrow> string \<Rightarrow> string \<Rightarrow> string list" where
  "wanted_in env msg path =
     (case json_field env msg path of
        None \<Rightarrow> [] | Some arr \<Rightarrow> if e_json_validate env arr then wanted_job_ids env arr else [])"

primrec drain_job_ids :: "nat \<Rightarrow> ota_sys \<Rightarrow> string list" where
  "drain_job_ids 0 s = []"
| "drain_job_ids (Suc n) s =
     (case get_next_job_id_from_queue s of
        (None, _) \<Rightarrow> [] | (Some j, s') \<Rightarrow> j # drain_job_ids n s')"

definition ids_hold :: "string list \<times> u16 \<Rightarrow> string list \<Rightarrow> bool" where
  "ids_hold q js \<longleftrightarrow> length (fst q) = 50 \<and> length js \<le> 50 \<and> unat (snd q) = length js \<and> take (length js) (fst q) = js"

lemma collect_job_ids_holds:
  "ids_hold (ids, idx) js \<Longrightarrow>
   ids_hold (collect_job_ids env vs ids idx)
     (take 50 (js @ filter (\<lambda>j. length j \<le> e_jobid_max env) (List.map_filter (\<lambda>v. json_field env v ''jobId'') vs)))"
proof (induction vs arbitrary: ids idx js)
  case Nil
  then show ?case by (simp add: ids_hold_def map_filter_simps)
next
  case (Cons v vs)
  let ?ok = "\<lambda>j. length j \<le> e_jobid_max env"
  show ?case
  proof (cases "json_field env v ''jobId''")
    case None
    then show ?thesis using Cons.IH [OF Cons.prems] by (simp add: map_filter_simps)
  next
    case (Some j)
    have full: "idx \<ge> OTA_JOB_ID_QUEUE_SIZE \<longleftrightarrow> length js = 50"
      using Cons.prems by (auto simp: ids_hold_def OTA_JOB_ID_QUEUE_SIZE_def word_le_nat_alt)
    show ?thesis
    proof (cases "length js = 50")
      case True
      then show ?thesis using Some full Cons.prems by (simp add: map_filter_simps ids_hold_def)
    next
      case False
      show ?thesis
      proof (cases "?ok j")
        case True
        have lt: "idx < 50" using False Cons.prems full
          by (simp add: OTA_JOB_ID_QUEUE_SIZE_def not_le)
        have "ids_hold (ids[unat idx := j], idx + 1) (js @ [j])"
          using Cons.prems False unat_add_one_lt [OF lt]
          by (auto simp: ids_hold_def take_Suc_conv_app_nth)
        from Cons.IH [OF this] show ?thesis using Some True False full by (simp add: map_filter_simps)
      next
        case no: False
        then show ?thesis using Cons.IH [OF Cons.prems] Some False full by (simp add: map_filter_simps)
      qed
    qed
  qed
qed

lemma collect_array_holds:
  assumes "ids_hold q js"
  shows "ids_hold (collect_array env msg path q) (take 50 (js @ wanted_in env msg path))"
  using assms collect_job_ids_holds [of "fst q" "snd q" js env] 
  by (cases q) (auto simp: collect_array_def wanted_in_def wanted_job_ids_def ids_hold_def split: option.splits)

lemma drain_job_ids_suffix:
  assumes "unat (o_ids_size s) = length js" "take (length js) (o_ids s) = js" "length js \<le> length (o_ids s)"
    "length js < n + unat (o_ids_next s)" "length js \<le> 50"
  shows "drain_job_ids n s = drop (unat (o_ids_next s)) js"
  using assms
proof (induction n arbitrary: s)
  case (Suc n)
  show ?case
  proof (cases "o_ids_next s \<ge> o_ids_size s")
    case True
    then show ?thesis using Suc.prems by (simp add: get_next_job_id_from_queue_def word_le_nat_alt)
  next
    case False
    then have lt: "o_ids_next s < o_ids_size s" by simp
    have i: "unat (o_ids_next s) < length js" using lt Suc.prems(1) by (simp add: word_less_nat_alt)
    have "o_ids s ! unat (o_ids_next s) = js ! unat (o_ids_next s)"
      using Suc.prems(2) i by (metis nth_take)
    moreover have "drain_job_ids n (s\<lparr>o_ids_next := o_ids_next s + 1\<rparr>) = drop (Suc (unat (o_ids_next s))) js"
      using Suc.IH [of "s\<lparr>o_ids_next := o_ids_next s + 1\<rparr>"] Suc.prems unat_add_one_lt [OF lt] by simp
    ultimately show ?thesis
      using False i by (simp add: get_next_job_id_from_queue_def Cons_nth_drop_Suc)
  qed
qed simp


section \<open>A concrete environment\<close>

text \<open>Used to apply the theorems: one queued job \<^verbatim>\<open>job-1\<close> with firmware 2.0 for a device that runs 1.0,
every call succeeds.\<close>

definition sample_search :: "string \<Rightarrow> string \<Rightarrow> (json_type \<times> string) option" where
  "sample_search doc key =
     (if doc = ''P'' \<and> key = ''queuedJobs'' then Some (JSONOther, ''Q'')
      else if doc = ''J'' \<and> key = ''jobId'' then Some (JSONString, ''job-1'')
      else if doc = ''D'' \<and> key = ''execution.versionNumber'' then Some (JSONNumber, ''3'')
      else if doc = ''doc'' \<and> key = ''rmng_ota'' then Some (JSONOther, ''R'')
      else if doc = ''R'' \<and> key = ''fw_version'' then Some (JSONString, ''2.0'')
      else None)"

definition sample_env :: ota_env where
  "sample_env =
     \<lparr>e_err = \<lambda>_. ERR_OK, e_alloc = \<lambda>_. True, e_jobid_max = 64, e_json_validate = \<lambda>_. True,
      e_json_search = sample_search, e_json_iterate = \<lambda>arr. if arr = ''Q'' then [''J''] else [],
      e_get_job_id = \<lambda>m. if m = ''D'' then Some ''job-1'' else None,
      e_get_job_document = \<lambda>m. if m = ''D'' then Some ''doc'' else None,
      e_parse_job_doc = \<lambda>d. if d = ''doc'' then
        Some \<lparr>af_fileSize = 1000, af_fileId = 0, af_imageRef = ''stream'', af_signature = []\<rparr> else None,
      e_fw_version = Some ''1.0'', e_time = \<lambda>_. 1700000000, e_localtime = \<lambda>_. (12, 0),
      e_last_job_id = \<lambda>_. None, e_last_version = \<lambda>_. - 1, e_last_filetype = \<lambda>_. None,
      e_nvs_status = \<lambda>_. None, e_rollback_detected = \<lambda>_. False, e_status_cache_empty = \<lambda>_. True,
      e_details_json = \<lambda>_ _. True, e_next_version = \<lambda>_. Some 2\<rparr>"

definition sample_sys :: ota_sys where
  "sample_sys =
     \<lparr>o_calls = 0, o_log = [], o_fault = False, o_pool_free = Some [0..<OTA_JOB_EVENT_POOL_SIZE],
      o_slots = replicate OTA_JOB_EVENT_POOL_SIZE zero_event, o_heap = \<lambda>_. None, o_fresh = 0, o_wq = [],
      o_pre_mutex = True, o_pre_queue = [], o_state_initialized = True,
      o_config = \<lparr>cf_validate_image_ref = None, cf_filetype_handler_lookup = None\<rparr>,
      o_state = IDLE, o_job = zero_job, o_subscribed = True, o_sub_intended = True, o_timer_handle = True,
      o_last_error = ERROR_NONE, o_rec_state = UNINITIALIZED, o_rec_data = None, o_rec_event = ERROR_OCCURRED,
      o_ids = replicate 50 [], o_ids_next = 0, o_ids_size = 0, o_error_retry = False, o_sub_retry = False,
      o_terminal_retry = False, o_terminal_pending = zero_event, o_sub_work = 0\<rparr>"

lemma sample_sys_ok: "mem_ok [] sample_sys"
  by (rule mem_okI [where q = "[0..<OTA_JOB_EVENT_POOL_SIZE]"])
    (auto simp: sample_sys_def owned_def stash_ok_def zero_event_def)

lemma sample_wanted: "wanted_in sample_env ''P'' ''queuedJobs'' = [''job-1'']"
  "wanted_in sample_env ''P'' ''inProgressJobs'' = []"
  by (simp_all add: wanted_in_def json_field_def sample_env_def sample_search_def wanted_job_ids_def
      map_filter_simps)


end
