(* ===== verification/Ota_Fsm.thy ===== *)
theory Ota_Fsm
  imports Ota_Job_Doc
begin

text \<open>The OTA job state machine of \<^verbatim>\<open>ota_jobs.c\<close>: one definition per state handler with every guard, early
return and effect of the C function, the error and recovery context, the MQTT callbacks, the retry
tasks and \<^verbatim>\<open>ota_job_state_run_once\<close>. A handler takes the event object it is called with (the reference
\<^verbatim>\<open>a\<close> and its content \<^verbatim>\<open>e\<close>; the work queue only ever holds non-\<^verbatim>\<open>NULL\<close> events) and returns the next state,
whether the caller frees the event, and the globals.

The compile-time options are the defaults of the Kconfig file: time support on, custom jobs, signature
verification and disabled auto reboot off.\<close>

section \<open>Errors and recovery\<close>

definition post_error_event :: "ota_env \<Rightarrow> error_reason \<Rightarrow> ota_sys \<Rightarrow> ota_sys" where
  "post_error_event env error s =
     (let s1 = s\<lparr>o_last_error := error\<rparr>;
          s2 = snd (ota_job_state_post_event env (plain_event ERROR_OCCURRED) s1)
      in if error = RETRY_WITH_BACKOFF then snd (error_backoff_retry env s2)
         else emit (Post_app (APP_ERROR_OCCURRED error)) s2)"

definition recovery_route :: "error_reason \<Rightarrow> ota_state \<times> ota_event" where
  "recovery_route error = (case error of
     SUBSCRIPTION_FAILED \<Rightarrow> (NETWORK_INIT, EMPTY_TRANSITION)
   | RETRY_WITH_BACKOFF \<Rightarrow> (IDLE, FETCH_REQUESTED)
   | TIMEOUT_HANDLER_RESTART_FAILED \<Rightarrow> (IDLE, FETCH_REQUESTED)
   | GET_PENDING_INVALID_FORMAT \<Rightarrow> (IDLE, FETCH_REQUESTED)
   | GET_PENDING_REJECTED \<Rightarrow> (IDLE, FETCH_REQUESTED)
   | DESCRIBE_JOB_REJECTED \<Rightarrow> (IDLE, FETCH_REQUESTED)
   | JOB_DOC_PARSE_FAILED \<Rightarrow> (IDLE, FETCH_REQUESTED)
   | _ \<Rightarrow> (UNINITIALIZED, ERROR_OCCURRED))"

definition enter_error_state :: "ota_env \<Rightarrow> error_reason \<Rightarrow> ota_sys \<Rightarrow> ota_sys" where
  "enter_error_state env error s =
     post_error_event env error
       (s\<lparr>o_rec_state := fst (recovery_route error), o_rec_event := snd (recovery_route error),
          o_rec_data := None\<rparr>)"

definition enter_error_state_custom ::
    "ota_env \<Rightarrow> error_reason \<Rightarrow> ota_state \<Rightarrow> event_ref \<Rightarrow> ota_sys \<Rightarrow> ota_sys" where
  "enter_error_state_custom env error state a s =
     post_error_event env error
       (s\<lparr>o_rec_state := state, o_rec_data := Some a, o_rec_event := ERROR_OCCURRED\<rparr>)"

definition recovery_reset_context :: "ota_sys \<Rightarrow> ota_sys" where
  "recovery_reset_context s =
     (let s1 = s\<lparr>o_last_error := ERROR_NONE, o_rec_state := UNINITIALIZED, o_rec_event := ERROR_OCCURRED\<rparr>
      in case o_rec_data s1 of
           None \<Rightarrow> s1
         | Some a \<Rightarrow> free_event_data (Some a) (s1\<lparr>o_rec_data := None\<rparr>))"

definition ota_job_state_recover :: "ota_env \<Rightarrow> ota_sys \<Rightarrow> err \<times> ota_sys" where
  "ota_job_state_recover env s =
     (if o_rec_state s = UNINITIALIZED \<or> o_rec_event s = ERROR_OCCURRED then (ERR_INVALID_STATE, s)
      else ota_job_state_post_event env (plain_event RECOVERY_REQUESTED) s)"

text \<open>The task runs when its timer has fired, which disarms it.\<close>

definition retry_with_backoff_task :: "ota_env \<Rightarrow> ota_sys \<Rightarrow> ota_sys" where
  "retry_with_backoff_task env s =
     (let (err, s1) = ota_job_state_recover env s
      in if err \<noteq> ERR_OK then snd (error_backoff_retry env s1) else s1)"

definition on_event_ignored :: "event_data \<Rightarrow> ota_sys \<Rightarrow> ota_sys" where
  "on_event_ignored e s =
     (if ed_event e = FETCH_REQUESTED then emit (Post_app APP_FETCH_REQUEST_IGNORED) s else s)"

section \<open>Calls to the outside\<close>

definition mqtt_subscribe_jobs_topics :: "ota_env \<Rightarrow> ota_sys \<Rightarrow> err \<times> ota_sys" where
  "mqtt_subscribe_jobs_topics env s =
     (let (fmt, s1) = ask_err env s
      in if fmt \<noteq> ERR_OK then (ERR_FAIL, s1)
         else let (st, s2) = call env Subscribe_jobs (s1\<lparr>o_sub_intended := True\<rparr>)
              in (if st = ERR_OK then ERR_OK else ERR_FAIL, s2))"

definition mqtt_unsubscribe_jobs_topics :: "ota_env \<Rightarrow> ota_sys \<Rightarrow> err \<times> ota_sys" where
  "mqtt_unsubscribe_jobs_topics env s =
     (let s1 = s\<lparr>o_sub_intended := False, o_sub_retry := False\<rparr>
      in if \<not> o_subscribed s1 then (ERR_OK, s1)
         else let (fmt, s2) = ask_err env s1;
                  s3 = (if fmt = ERR_OK then snd (call env Unsubscribe_jobs s2) else s2)
              in (ERR_OK, s3\<lparr>o_subscribed := False\<rparr>))"

definition publish_request :: "ota_env \<Rightarrow> effect \<Rightarrow> ota_sys \<Rightarrow> err \<times> ota_sys" where
  "publish_request env x s =
     (let (topic, s1) = ask_err env s
      in if topic \<noteq> ERR_OK then (ERR_FAIL, s1)
         else let (st, s2) = call env x s1 in (if st = ERR_OK then ERR_OK else ERR_FAIL, s2))"

definition mqtt_publish_get_pending :: "ota_env \<Rightarrow> ota_sys \<Rightarrow> err \<times> ota_sys" where
  "mqtt_publish_get_pending env s = publish_request env Publish_get_pending s"

definition mqtt_publish_describe_job :: "ota_env \<Rightarrow> string \<Rightarrow> ota_sys \<Rightarrow> err \<times> ota_sys" where
  "mqtt_publish_describe_job env job_id s = publish_request env (Publish_describe job_id) s"

text \<open>The result, the version the status manager wrote back if it did, and the globals.\<close>

definition mqtt_publish_update_job_status ::
    "ota_env \<Rightarrow> string \<Rightarrow> job_status \<Rightarrow> status_details \<Rightarrow> ota_sys \<Rightarrow> err \<times> int option \<times> ota_sys" where
  "mqtt_publish_update_job_status env job_id status details s =
     (let (ok, s1) = ask (\<lambda>n. e_details_json env n details) s
      in if \<not> ok then (ERR_INVALID_ARG, None, s1)
         else let (version, s2) = ask (e_next_version env) s1;
                  (err, s3) = call env (Send_status job_id status details) s2
              in (err, version, s3))"

definition ota_jobs_mqtt_publish_update_job_status ::
    "ota_env \<Rightarrow> job_status \<Rightarrow> status_details \<Rightarrow> ota_sys \<Rightarrow> err \<times> ota_sys" where
  "ota_jobs_mqtt_publish_update_job_status env status details s =
     (let (err, version, s1) = mqtt_publish_update_job_status env (ji_job_id (o_job s)) status details s;
          s2 = (case version of None \<Rightarrow> s1 | Some v \<Rightarrow> upd_job (\<lambda>j. j\<lparr>ji_expected_version := v\<rparr>) s1)
      in if err \<noteq> ERR_OK then (err, s2)
         else (ERR_OK, upd_job (\<lambda>j. j\<lparr>ji_current_status := status\<rparr>) s2))"

definition mqtt_publish_final_status :: "ota_env \<Rightarrow> status_details \<Rightarrow> ota_sys \<Rightarrow> err \<times> ota_sys" where
  "mqtt_publish_final_status env details s =
     (let (err, s1) = call env Stop_status_timer s
      in if err \<noteq> ERR_OK then (err, s1)
         else case details of
                DetailsSucceeded _ _ \<Rightarrow> ota_jobs_mqtt_publish_update_job_status env Succeeded details s1
              | DetailsFailed _ \<Rightarrow> ota_jobs_mqtt_publish_update_job_status env Failed details s1
              | _ \<Rightarrow> (ERR_INVALID_ARG, s1))"

datatype ota_status =
  OTA_STATUS_IN_PROGRESS | OTA_STATUS_SUCCESS | OTA_STATUS_FAILED | OTA_STATUS_DELAYED | OTA_STATUS_REJECTED

definition esp_rmaker_ota_report_status ::
    "ota_env \<Rightarrow> ota_status \<Rightarrow> status_details \<Rightarrow> ota_sys \<Rightarrow> err \<times> ota_sys" where
  "esp_rmaker_ota_report_status env status d s = (case status of
     OTA_STATUS_IN_PROGRESS \<Rightarrow>
       ota_jobs_mqtt_publish_update_job_status env InProgress d (emit (Post_app (APP_IN_PROGRESS d)) s)
   | OTA_STATUS_SUCCESS \<Rightarrow>
       ota_jobs_mqtt_publish_update_job_status env Succeeded d (emit (Post_app (APP_SUCCESSFUL d)) s)
   | OTA_STATUS_FAILED \<Rightarrow>
       ota_jobs_mqtt_publish_update_job_status env Failed d (emit (Post_app (APP_FAILED d)) s)
   | OTA_STATUS_DELAYED \<Rightarrow> (ERR_OK, emit (Post_app (APP_DELAYED d)) s)
   | OTA_STATUS_REJECTED \<Rightarrow>
       ota_jobs_mqtt_publish_update_job_status env Rejected d (emit (Post_app (APP_REJECTED d)) s))"

definition start_response_timer :: "ota_env \<Rightarrow> ota_sys \<Rightarrow> ota_sys" where
  "start_response_timer env s =
     (let (err, s1) = call env Restart_timer s
      in if err \<noteq> ERR_OK then enter_error_state env TIMEOUT_HANDLER_RESTART_FAILED s1 else s1)"

definition stop_response_timer :: "ota_env \<Rightarrow> ota_sys \<Rightarrow> ota_sys" where
  "stop_response_timer env s = (if o_timer_handle s then snd (call env Stop_timer s) else s)"

definition error_reason_to_string :: "error_reason \<Rightarrow> string" where
  "error_reason_to_string r = (case r of
     ERROR_NONE \<Rightarrow> ''NONE''
   | SUBSCRIPTION_FAILED \<Rightarrow> ''SUBSCRIPTION_FAILED''
   | RETRY_WITH_BACKOFF \<Rightarrow> ''RETRY_WITH_BACKOFF''
   | TIMEOUT_HANDLER_RESTART_FAILED \<Rightarrow> ''TIMEOUT_HANDLER_RESTART_FAILED''
   | NO_PENDING_JOBS \<Rightarrow> ''NO_PENDING_JOBS''
   | GET_PENDING_INVALID_FORMAT \<Rightarrow> ''GET_PENDING_INVALID_FORMAT''
   | GET_PENDING_REJECTED \<Rightarrow> ''GET_PENDING_REJECTED''
   | DESCRIBE_JOB_REJECTED \<Rightarrow> ''DESCRIBE_JOB_REJECTED''
   | JOB_DOC_PARSE_FAILED \<Rightarrow> ''JOB_DOC_PARSE_FAILED''
   | _ \<Rightarrow> ''UNKNOWN'')"

section \<open>The handlers up to the job document\<close>

text \<open>The next state, whether the caller frees the event, and the globals.\<close>

type_synonym handled = "ota_state \<times> bool \<times> ota_sys"

definition handle_state_uninitialized :: "event_data \<Rightarrow> ota_sys \<Rightarrow> handled" where
  "handle_state_uninitialized e s = (UNINITIALIZED, True, on_event_ignored e s)"

text \<open>The block that restores the job under verification after a reboot; it yields an error when the saved
state cannot be used.\<close>

definition clear_job_id :: "ota_sys \<Rightarrow> ota_sys" where
  "clear_job_id s = upd_job (\<lambda>j. j\<lparr>ji_job_id := []\<rparr>) s"

definition restore_last_job :: "ota_env \<Rightarrow> string \<Rightarrow> ota_sys \<Rightarrow> err \<times> ota_sys" where
  "restore_last_job env last_job_id s =
     (if length last_job_id > e_jobid_max env then (ERR_INVALID_STATE, s)
      else let s1 = upd_job (\<lambda>j. j\<lparr>ji_job_id := last_job_id\<rparr>) s;
               (version, s2) = ask (e_last_version env) s1
           in if version < 0 then (ERR_INVALID_STATE, clear_job_id s2)
              else let (err, s3) = call env (Set_initial_version last_job_id version) s2
                   in if err \<noteq> ERR_OK then (ERR_INVALID_STATE, clear_job_id s3)
                      else let (filetype, s4) = ask (e_last_filetype env) s3
                           in case filetype of
                                None \<Rightarrow> (ERR_OK, s4)
                              | Some ft \<Rightarrow>
                                  if length ft > OTA_FILETYPE_MAX_LENGTH then (ERR_INVALID_STATE, clear_job_id s4)
                                  else (ERR_OK, upd_job (\<lambda>j. j\<lparr>ji_filetype := ft\<rparr>) s4))"

definition network_init_to_idle :: "ota_env \<Rightarrow> ota_sys \<Rightarrow> handled" where
  "network_init_to_idle env s =
     (IDLE, True, snd (ota_job_state_post_event env (plain_event EMPTY_TRANSITION) s))"

definition handle_state_network_init :: "ota_env \<Rightarrow> event_data \<Rightarrow> ota_sys \<Rightarrow> handled" where
  "handle_state_network_init env e s =
     (if ed_event e \<noteq> EMPTY_TRANSITION then (NETWORK_INIT, True, on_event_ignored e s)
      else let (err, s1) = (if o_sub_intended s then (ERR_OK, s) else mqtt_subscribe_jobs_topics env s)
           in if err \<noteq> ERR_OK then (ERROR_STATE, True, enter_error_state env SUBSCRIPTION_FAILED s1)
              else let (last_job_id, s2) = ask (e_last_job_id env) s1
                   in case last_job_id of
                        None \<Rightarrow> network_init_to_idle env s2
                      | Some j \<Rightarrow>
                          (let (err2, s3) = restore_last_job env j s2
                           in if err2 \<noteq> ERR_OK then network_init_to_idle env (emit Clear_nvs s3)
                              else (REBOOT_CHECK, True, s3)))"

text \<open>The status details an event carries; reading them from a missing payload, or from bytes that are no
struct, is a fault.\<close>

definition payload_details :: "event_data \<Rightarrow> status_details option option" where
  "payload_details e = (case ed_payload e of
     None \<Rightarrow> None
   | Some p \<Rightarrow> (case pl_data p of None \<Rightarrow> Some None | Some (Details d) \<Rightarrow> Some (Some d) | Some (Text _) \<Rightarrow> None))"

text \<open>The common part of the handlers that publish a final status and either fail for good, keep the event
for a later attempt, or go on.\<close>

definition after_publish :: "ota_env \<Rightarrow> err \<times> ota_sys \<Rightarrow> ota_state \<Rightarrow> event_ref \<Rightarrow> (ota_sys \<Rightarrow> handled) \<Rightarrow> handled" where
  "after_publish env r retry_state a f =
     (let (err, s) = r
      in if err = ERR_INVALID_ARG then (ERROR_STATE, True, enter_error_state env FATAL_UNEXPECTED_FORMAT s)
         else if err \<noteq> ERR_OK
         then (ERROR_STATE, False, enter_error_state_custom env RETRY_WITH_BACKOFF retry_state a s)
         else f s)"

definition report_final_status_event ::
    "ota_env \<Rightarrow> ota_state \<Rightarrow> event_ref \<Rightarrow> event_data \<Rightarrow> (status_details \<Rightarrow> ota_sys \<Rightarrow> handled) \<Rightarrow> ota_sys \<Rightarrow> handled" where
  "report_final_status_event env retry_state a e f s = (case payload_details e of
     None \<Rightarrow> (o_state s, True, fault s)
   | Some None \<Rightarrow> (ERROR_STATE, True, enter_error_state env FATAL_UNEXPECTED_FORMAT s)
   | Some (Some d) \<Rightarrow> after_publish env (mqtt_publish_final_status env d s) retry_state a (f d))"

definition reboot_check_outcome :: "ota_env \<Rightarrow> bool \<Rightarrow> ota_sys \<Rightarrow> (job_status \<times> status_details) \<times> ota_sys" where
  "reboot_check_outcome env passed s =
     (if passed then ((Succeeded, DetailsSucceeded None (e_fw_version env)), s)
      else let (rolled_back, s1) = ask (e_rollback_detected env) s
           in ((Failed, DetailsFailed (if rolled_back then ''New firmware rolled back after reboot''
                                       else ''Reboot check failed'')), s1))"

definition reboot_check_requested :: "ota_env \<Rightarrow> event_ref \<Rightarrow> ota_sys \<Rightarrow> handled" where
  "reboot_check_requested env a s =
     (if ji_filetype (o_job s) \<noteq> [] then (REBOOT_CHECK, True, s)
      else let (flags, s1) = ask (e_nvs_status env) s;
               (is_checked, is_passed) = (case flags of None \<Rightarrow> (True, False) | Some f \<Rightarrow> f)
           in if \<not> is_checked then (REBOOT_CHECK, True, s1)
              else let ((status, details), s2) = reboot_check_outcome env is_passed s1;
                       s3 = upd_job (\<lambda>j. j\<lparr>ji_current_status_details := details, ji_current_status := status\<rparr>) s2
                   in after_publish env (ota_jobs_mqtt_publish_update_job_status env status details s3)
                        REBOOT_CHECK a (\<lambda>t. (REBOOT_CHECK, True, t)))"

definition drop_checked_job :: "ota_sys \<Rightarrow> ota_sys" where
  "drop_checked_job s =
     emit Clear_nvs (upd_job (\<lambda>j. j\<lparr>ji_job_id := [], ji_filetype := [], ji_final_status_reported := False\<rparr>)
       (emit (Clear_job_entries (ji_job_id (o_job s))) (retry_reset_backoff s)))"

definition reboot_check_accepted :: "ota_env \<Rightarrow> ota_sys \<Rightarrow> handled" where
  "reboot_check_accepted env s =
     (if ji_filetype (o_job s) \<noteq> [] \<and> \<not> ji_final_status_reported (o_job s) then (REBOOT_CHECK, True, s)
      else let s1 = drop_checked_job s; j = o_job s1
           in case (ji_current_status j, ji_current_status_details j) of
                (Succeeded, DetailsSucceeded ft v) \<Rightarrow>
                  (IDLE, True, emit (Post_app (APP_SUCCESSFUL (DetailsSucceeded ft v))) s1)
              | (Failed, DetailsFailed r) \<Rightarrow> (IDLE, True, emit (Post_app (APP_FAILED (DetailsFailed r))) s1)
              | _ \<Rightarrow> (ERROR_STATE, True, enter_error_state env FATAL_UNEXPECTED_FORMAT s1))"

definition reboot_check_rejected :: "event_data \<Rightarrow> ota_sys \<Rightarrow> handled" where
  "reboot_check_rejected e s =
     (if \<not> ed_fixed e then (REBOOT_CHECK, True, s)
      else let d = DetailsRejected ''Job execution no longer accepts updates'';
               s1 = upd_job (\<lambda>j. j\<lparr>ji_current_status_details := d\<rparr>) (drop_checked_job s)
           in (IDLE, True, emit (Post_app (APP_REJECTED d)) s1))"

definition handle_state_reboot_check :: "ota_env \<Rightarrow> event_ref \<Rightarrow> event_data \<Rightarrow> ota_sys \<Rightarrow> handled" where
  "handle_state_reboot_check env a e s = (case ed_event e of
     FINAL_STATUS_REPORT_REQUESTED \<Rightarrow>
       report_final_status_event env REBOOT_CHECK a e
         (\<lambda>d t. (REBOOT_CHECK, True, upd_job (\<lambda>j. j\<lparr>ji_current_status_details := d\<rparr>) t)) s
   | REBOOT_CHECK_REQUESTED \<Rightarrow> reboot_check_requested env a s
   | UPDATE_ACCEPTED \<Rightarrow> reboot_check_accepted env s
   | UPDATE_REJECTED \<Rightarrow> reboot_check_rejected e s
   | _ \<Rightarrow> (REBOOT_CHECK, True, on_event_ignored e s))"

text \<open>Posts the transition event and moves on, or retries later.\<close>

definition transition_to :: "ota_env \<Rightarrow> ota_state \<Rightarrow> ota_sys \<Rightarrow> handled" where
  "transition_to env next s =
     (let (err, s1) = enqueue_transition_event env s
      in if err \<noteq> ERR_OK then (ERROR_STATE, True, enter_error_state env RETRY_WITH_BACKOFF s1)
         else (next, True, s1))"

text \<open>Passes the event on to the next state, or retries later; the event is no longer the caller's.\<close>

definition forward_to :: "ota_env \<Rightarrow> ota_state \<Rightarrow> event_ref \<Rightarrow> ota_sys \<Rightarrow> handled" where
  "forward_to env next a s =
     (let (err, s1) = enqueue_ref env a s
      in if err \<noteq> ERR_OK then (ERROR_STATE, False, enter_error_state env RETRY_WITH_BACKOFF s1)
         else (next, False, s1))"

definition handle_state_idle :: "ota_env \<Rightarrow> event_ref \<Rightarrow> event_data \<Rightarrow> ota_sys \<Rightarrow> handled" where
  "handle_state_idle env a e s = (case ed_event e of
     FETCH_REQUESTED \<Rightarrow> transition_to env FETCHING_PENDING_JOBS s
   | JOBS_CHANGED \<Rightarrow> forward_to env JOBS_CHANGED_STATE a s
   | _ \<Rightarrow> (IDLE, True, on_event_ignored e s))"

text \<open>The text an event carries, if it has data; reading it from a struct is a fault.\<close>

definition payload_text :: "event_data \<Rightarrow> string option" where
  "payload_text e = (case ed_payload e of
     None \<Rightarrow> None
   | Some p \<Rightarrow> (case pl_data p of Some (Text t) \<Rightarrow> Some (take (pl_len p) t) | _ \<Rightarrow> None))"

definition after_job_list :: "ota_env \<Rightarrow> error_reason \<times> ota_sys \<Rightarrow> handled" where
  "after_job_list env r =
     (let (error, s) = r
      in if error = ERROR_NONE then transition_to env FETCHING_JOB_DOC s
         else if error = NO_PENDING_JOBS then (IDLE, True, s)
         else (ERROR_STATE, True, enter_error_state env error s))"

definition handle_state_jobs_changed :: "ota_env \<Rightarrow> event_data \<Rightarrow> ota_sys \<Rightarrow> handled" where
  "handle_state_jobs_changed env e s =
     (if ed_event e \<noteq> JOBS_CHANGED then (JOBS_CHANGED_STATE, True, on_event_ignored e s)
      else case payload_text e of
             None \<Rightarrow> (IDLE, True, s)
           | Some msg \<Rightarrow>
               after_job_list env (pending_jobs_to_job_id_queue env msg ''jobs.IN_PROGRESS'' ''jobs.QUEUED'' s))"

definition handle_state_fetching_pending_jobs :: "ota_env \<Rightarrow> event_data \<Rightarrow> ota_sys \<Rightarrow> handled" where
  "handle_state_fetching_pending_jobs env e s =
     (if ed_event e \<noteq> EMPTY_TRANSITION then (FETCHING_PENDING_JOBS, True, on_event_ignored e s)
      else let (err, s1) = mqtt_publish_get_pending env s
           in if err \<noteq> ERR_OK
              then (FETCHING_PENDING_JOBS, True, enter_error_state env RETRY_WITH_BACKOFF s1)
              else (WAITING_FOR_PENDING_JOBS, True, start_response_timer env s1))"

definition handle_state_waiting_for_pending_jobs ::
    "ota_env \<Rightarrow> event_ref \<Rightarrow> event_data \<Rightarrow> ota_sys \<Rightarrow> handled" where
  "handle_state_waiting_for_pending_jobs env a e s = (case ed_event e of
     PENDING_JOBS_ACCEPTED \<Rightarrow> forward_to env PENDING_JOBS_RECEIVED a (stop_response_timer env s)
   | PENDING_JOBS_REJECTED \<Rightarrow>
       (WAITING_FOR_PENDING_JOBS, True, enter_error_state env GET_PENDING_REJECTED (stop_response_timer env s))
   | TIMEOUT \<Rightarrow> (WAITING_FOR_PENDING_JOBS, True, enter_error_state env RETRY_WITH_BACKOFF s)
   | _ \<Rightarrow> (WAITING_FOR_PENDING_JOBS, True, on_event_ignored e s))"

definition handle_state_pending_jobs_received :: "ota_env \<Rightarrow> event_data \<Rightarrow> ota_sys \<Rightarrow> handled" where
  "handle_state_pending_jobs_received env e s =
     (if ed_event e \<noteq> PENDING_JOBS_ACCEPTED then (PENDING_JOBS_RECEIVED, True, on_event_ignored e s)
      else case payload_text e of
             None \<Rightarrow> (PENDING_JOBS_RECEIVED, True, enter_error_state env GET_PENDING_INVALID_FORMAT s)
           | Some msg \<Rightarrow>
               after_job_list env
                 (pending_jobs_to_job_id_queue env msg ''inProgressJobs'' ''queuedJobs'' (retry_reset_backoff s)))"

definition handle_state_fetching_job_doc :: "ota_env \<Rightarrow> event_data \<Rightarrow> ota_sys \<Rightarrow> handled" where
  "handle_state_fetching_job_doc env e s =
     (if ed_event e \<noteq> EMPTY_TRANSITION then (FETCHING_JOB_DOC, True, on_event_ignored e s)
      else let (job_id, s1) = get_next_job_id_from_queue s
           in case job_id of
                None \<Rightarrow> if \<not> ji_has_pending_job (o_job s1) then (IDLE, True, s1)
                        else transition_to env JOB_EXECUTION s1
              | Some j \<Rightarrow>
                  (let (err, s2) = mqtt_publish_describe_job env j s1
                   in if err \<noteq> ERR_OK
                      then (FETCHING_JOB_DOC, True, enter_error_state env RETRY_WITH_BACKOFF s2)
                      else (WAITING_FOR_JOB_DOC, True, start_response_timer env s2)))"

definition handle_state_waiting_for_job_doc :: "ota_env \<Rightarrow> event_ref \<Rightarrow> event_data \<Rightarrow> ota_sys \<Rightarrow> handled" where
  "handle_state_waiting_for_job_doc env a e s = (case ed_event e of
     JOB_DOC_ACCEPTED \<Rightarrow> forward_to env JOB_DOC_RECEIVED a (stop_response_timer env s)
   | JOB_DOC_REJECTED \<Rightarrow>
       (WAITING_FOR_JOB_DOC, True, enter_error_state env DESCRIBE_JOB_REJECTED (stop_response_timer env s))
   | TIMEOUT \<Rightarrow> (WAITING_FOR_JOB_DOC, True, enter_error_state env RETRY_WITH_BACKOFF s)
   | _ \<Rightarrow> (WAITING_FOR_JOB_DOC, True, on_event_ignored e s))"

section \<open>Judging a job document\<close>

text \<open>The verdict on a document: go on with the next job (with an error, or \<^verbatim>\<open>ERROR_NONE\<close>), or reject this one.\<close>

datatype verdict = Doc_end error_reason | Doc_reject string | Doc_version u32

definition select_filetype :: "ota_env \<Rightarrow> custom_fields \<Rightarrow> ota_sys \<Rightarrow> (string + ft_ctx) \<times> ota_sys" where
  "select_filetype env cu s0 =
     (let s = upd_job (\<lambda>j. j\<lparr>ji_filetype := []\<rparr>) s0
      in case cu_filetype cu of
           None \<Rightarrow> (let ctx = filetype_handler_get_default_ctx env
                    in (Inr ctx, upd_job (\<lambda>j. j\<lparr>ji_filetype_handler := Some ctx\<rparr>) s))
         | Some ft \<Rightarrow>
             if length ft > OTA_FILETYPE_MAX_LENGTH then (Inl ''Filetype too long'', s)
             else let s1 = upd_job (\<lambda>j. j\<lparr>ji_filetype := ft\<rparr>) s
                  in case cf_filetype_handler_lookup (o_config s1) of
                       None \<Rightarrow> (Inl ''No custom filetype implementation'', s1)
                     | Some lookup \<Rightarrow>
                         (case lookup ft of
                            None \<Rightarrow> (Inl ''Filetype not supported'', s1)
                          | Some ctx \<Rightarrow>
                              if \<not> filetype_handler_is_valid_ctx ctx then (Inl ''Filetype handler is invalid'', s1)
                              else (Inr ctx, upd_job (\<lambda>j. j\<lparr>ji_filetype_handler := Some ctx\<rparr>) s1)))"

text \<open>The version numbers of the document and of the running firmware, and the minimum version. Without
a version handler the number of the document is 0.\<close>

definition check_min_version :: "(string \<Rightarrow> u32 option) \<Rightarrow> custom_fields \<Rightarrow> u32 \<Rightarrow> u32 \<Rightarrow> verdict" where
  "check_min_version to_num cu current doc = (case cu_min_fw_version cu of
     None \<Rightarrow> Doc_version doc
   | Some m \<Rightarrow> (case to_num m of
       None \<Rightarrow> Doc_end ERROR_NONE
     | Some n \<Rightarrow> if n > current then Doc_end ERROR_NONE else Doc_version doc))"

definition compare_versions :: "(string \<Rightarrow> u32 option) \<Rightarrow> custom_fields \<Rightarrow> string \<Rightarrow> string option \<Rightarrow> verdict" where
  "compare_versions to_num cu doc_version current_version = (case current_version of
     None \<Rightarrow> Doc_reject ''Unsupported firmware version''
   | Some cv \<Rightarrow> (case to_num cv of
       None \<Rightarrow> Doc_reject ''Unsupported firmware version''
     | Some current \<Rightarrow> (case to_num doc_version of
         None \<Rightarrow> Doc_reject ''Unsupported firmware version''
       | Some doc \<Rightarrow>
           if doc \<le> current then Doc_reject ''Firmware version too low''
           else check_min_version to_num cu current doc)))"

definition check_versions :: "ft_ctx \<Rightarrow> custom_fields \<Rightarrow> ota_sys \<Rightarrow> verdict \<times> ota_sys" where
  "check_versions ctx cu s = (case ft_get_version ctx of
     None \<Rightarrow> (Doc_version 0, s)
   | Some get_version \<Rightarrow> (case cu_fw_version cu of
       None \<Rightarrow> (Doc_reject ''Firmware version is required for filetype'', s)
     | Some v \<Rightarrow>
         (let (current, s1) = ask get_version s
          in case ft_version_to_uint32 ctx of
               None \<Rightarrow> (if current = None then (Doc_reject ''Unsupported firmware version'', s1)
                        else (Doc_end ERROR_NONE, fault s1))
             | Some to_num \<Rightarrow> (compare_versions to_num cu v current, s1))))"

definition window_open :: "ota_env \<Rightarrow> custom_fields \<Rightarrow> ota_sys \<Rightarrow> bool \<times> ota_sys" where
  "window_open env cu s =
     (if \<not> has_download_window (cu_download_window cu) then (True, s)
      else let (now, s1) = ask (e_time env) s
           in (get_download_window_delay_time (e_localtime env) now (cu_download_window cu) = 0, s1))"

text \<open>From the download window on: a job with a lower version than the best one so far is passed over.\<close>

definition image_ref_rejected :: "ota_sys \<Rightarrow> string \<Rightarrow> bool" where
  "image_ref_rejected s image_ref = (case cf_validate_image_ref (o_config s) of
     Some validate \<Rightarrow> validate image_ref \<noteq> ERR_OK | None \<Rightarrow> False)"

definition adopt_job :: "ota_env \<Rightarrow> string \<Rightarrow> string \<Rightarrow> custom_fields \<Rightarrow> u32 \<Rightarrow> ota_sys \<Rightarrow> verdict \<times> ota_sys" where
  "adopt_job env job_id job_doc cu version s0 =
     (let (is_open, s) = window_open env cu s0
      in if \<not> is_open then (Doc_end ERROR_NONE, s)
         else if ji_has_pending_job (o_job s) \<and> version < ji_fw_version (o_job s) then (Doc_end ERROR_NONE, s)
         else case e_parse_job_doc env job_doc of
                None \<Rightarrow> (Doc_reject ''Missing AFR-OTA-specific fields in job document'', s)
              | Some af \<Rightarrow>
                  if image_ref_rejected s (af_imageRef af) then (Doc_reject ''Image reference is invalid'', s)
                  else let (err, s1) = set_ota_data_from_job_doc env af cu s
                       in if err \<noteq> ERR_OK then (Doc_end JOB_DOC_PARSE_FAILED, s1)
                          else (Doc_end ERROR_NONE,
                                upd_job (\<lambda>j. j\<lparr>ji_has_pending_job := True, ji_fw_version := version,
                                               ji_job_id := job_id\<rparr>) s1))"

definition judge_job_doc :: "ota_env \<Rightarrow> string \<Rightarrow> string \<Rightarrow> ota_sys \<Rightarrow> verdict \<times> ota_sys" where
  "judge_job_doc env job_id job_doc s = (case parse_custom_fields_from_job_doc env job_doc of
     Inl _ \<Rightarrow> (Doc_reject ''Missing RMNG-specific fields in job document'', s)
   | Inr cu \<Rightarrow>
       (let (ft, s1) = select_filetype env cu s
        in case ft of
             Inl reason \<Rightarrow> (Doc_reject reason, s1)
           | Inr ctx \<Rightarrow>
               (let (v, s2) = check_versions ctx cu s1
                in case v of
                     Doc_version n \<Rightarrow> adopt_job env job_id job_doc cu n s2
                   | _ \<Rightarrow> (v, s2))))"

definition job_doc_end :: "ota_env \<Rightarrow> error_reason \<Rightarrow> ota_sys \<Rightarrow> handled" where
  "job_doc_end env error s =
     (if error \<noteq> ERROR_NONE then (ERROR_STATE, True, enter_error_state env error s)
      else transition_to env FETCHING_JOB_DOC s)"

definition reject_job_doc :: "ota_env \<Rightarrow> event_ref \<Rightarrow> string \<Rightarrow> int \<Rightarrow> string \<Rightarrow> ota_sys \<Rightarrow> handled" where
  "reject_job_doc env a job_id version reason s =
     (let (err, s1) = call env (Set_initial_version job_id version) s
      in if err \<noteq> ERR_OK then job_doc_end env FATAL_UNEXPECTED_FORMAT s1
         else let (err2, _, s2) = mqtt_publish_update_job_status env job_id Rejected (DetailsRejected reason) s1
              in if err2 = ERR_INVALID_ARG then job_doc_end env FATAL_UNEXPECTED_FORMAT s2
                 else if err2 \<noteq> ERR_OK
                 then (ERROR_STATE, False, enter_error_state_custom env RETRY_WITH_BACKOFF JOB_DOC_RECEIVED a s2)
                 else job_doc_end env ERROR_NONE s2)"

definition execution_version :: "ota_env \<Rightarrow> string \<Rightarrow> int option outcome" where
  "execution_version env msg =
     execution_version_to_int32 (case e_json_search env msg ''execution.versionNumber'' of
       None \<Rightarrow> [] | Some (_, v) \<Rightarrow> v)"

definition handle_job_doc :: "ota_env \<Rightarrow> event_ref \<Rightarrow> string \<Rightarrow> ota_sys \<Rightarrow> handled" where
  "handle_job_doc env a msg s = (case e_get_job_id env msg of
     None \<Rightarrow> job_doc_end env ERROR_NONE s
   | Some job_id \<Rightarrow>
       if job_id = [] \<or> length job_id > e_jobid_max env then job_doc_end env ERROR_NONE s
       else case e_get_job_document env msg of
              None \<Rightarrow> job_doc_end env ERROR_NONE s
            | Some job_doc \<Rightarrow>
                if job_doc = [] then job_doc_end env ERROR_NONE s
                else case execution_version env msg of
                       Returned (Some version) \<Rightarrow>
                         (let (v, s1) = judge_job_doc env job_id job_doc s
                          in case v of
                               Doc_reject reason \<Rightarrow> reject_job_doc env a job_id version reason s1
                             | Doc_end error \<Rightarrow> job_doc_end env error s1
                             | Doc_version _ \<Rightarrow> job_doc_end env ERROR_NONE s1)
                     | Returned None \<Rightarrow> job_doc_end env ERROR_NONE s
                     | _ \<Rightarrow> (JOB_DOC_RECEIVED, True, fault s))"

definition handle_state_job_doc_received :: "ota_env \<Rightarrow> event_ref \<Rightarrow> event_data \<Rightarrow> ota_sys \<Rightarrow> handled" where
  "handle_state_job_doc_received env a e s =
     (if ed_event e \<noteq> JOB_DOC_ACCEPTED then (JOB_DOC_RECEIVED, True, on_event_ignored e s)
      else case payload_text e of
             None \<Rightarrow> job_doc_end env ERROR_NONE (retry_reset_backoff s)
           | Some msg \<Rightarrow> handle_job_doc env a msg (retry_reset_backoff s))"

section \<open>Executing a job\<close>

definition queue_failed_status :: "ota_env \<Rightarrow> string \<Rightarrow> ota_sys \<Rightarrow> handled" where
  "queue_failed_status env reason s =
     (let (err, s1) = enqueue_copy env (details_event FINAL_STATUS_REPORT_REQUESTED (DetailsFailed reason)) s
      in if err \<noteq> ERR_OK then (ERROR_STATE, True, enter_error_state env RETRY_WITH_BACKOFF s1)
         else (POST_DOWNLOAD, True, s1))"

definition optional_string :: "string \<Rightarrow> string option" where
  "optional_string str = (if str = [] then None else Some str)"

definition start_job :: "ota_env \<Rightarrow> ota_sys \<Rightarrow> handled" where
  "start_job env s =
     (let s1 = upd_job (\<lambda>j. j\<lparr>ji_has_active_job := True, ji_should_reboot := False,
                              ji_final_status_reported := False, ji_final_status_queued := False\<rparr>) s;
          size = word_of_int (od_filesize (ji_ota_data (o_job s1)));
          (_, s2) = ota_jobs_mqtt_publish_update_job_status env InProgress (DetailsInProgress 0 size) s1;
          j = o_job s2;
          s3 = emit (Post_app (APP_STARTING (DetailsStarting (ji_job_id j) (optional_string (ji_filetype j))
                                              (od_fw_version (ji_ota_data j))))) s2;
          (err, s4) = call env (Start_download (ji_ota_data j) (ji_filetype_handler j)) s3
      in if err \<noteq> ERR_OK then queue_failed_status env ''Image downloader setup failed'' s4
         else (JOB_EXECUTION, True, s4))"

definition failed_reason :: "ota_event \<Rightarrow> string option" where
  "failed_reason ev = (case ev of
     IMAGE_DOWNLOAD_FAILED_SETUP \<Rightarrow> Some ''Image downloader setup failed''
   | IMAGE_DOWNLOAD_FAILED_STREAM_SUBSCRIPTION \<Rightarrow> Some ''MQTT stream subscription failed''
   | IMAGE_DOWNLOAD_FAILED_POST_DOWNLOAD_CHECKS \<Rightarrow> Some ''Post download checks failed''
   | IMAGE_DOWNLOAD_FAILED_IMAGE_HEADER_INVALID \<Rightarrow> Some ''Image header invalid''
   | IMAGE_DOWNLOAD_FAILED_SIGNATURE_INVALID \<Rightarrow> Some ''Image signature invalid''
   | IMAGE_DOWNLOAD_FAILED_MD5_INVALID \<Rightarrow> Some ''Image MD5 mismatch''
   | IMAGE_DOWNLOAD_FAILED_UNKNOWN_ERROR \<Rightarrow> Some ''Unknown error''
   | _ \<Rightarrow> None)"

definition download_progress :: "ota_env \<Rightarrow> event_data \<Rightarrow> ota_sys \<Rightarrow> handled" where
  "download_progress env e s = (case ed_payload e of
     Some p \<Rightarrow> (case pl_data p of
       Some (Text t) \<Rightarrow>
         (JOB_EXECUTION, True,
          snd (esp_rmaker_ota_report_status env OTA_STATUS_IN_PROGRESS
            (DetailsInProgress (strtoul10 t) (word_of_int (od_filesize (ji_ota_data (o_job s))))) s))
     | _ \<Rightarrow> (JOB_EXECUTION, True, fault s))
   | None \<Rightarrow> (JOB_EXECUTION, True, fault s))"

definition download_succeeded :: "ota_env \<Rightarrow> event_ref \<Rightarrow> ota_sys \<Rightarrow> handled" where
  "download_succeeded env a s0 =
     (let s = retry_reset_backoff s0; size = word_of_int (od_filesize (ji_ota_data (o_job s)));
          (_, s1) = ota_jobs_mqtt_publish_update_job_status env InProgress (DetailsInProgress size size) s
      in forward_to env POST_DOWNLOAD a s1)"

definition queue_final_status :: "event_data \<Rightarrow> ota_sys \<Rightarrow> handled" where
  "queue_final_status e s = (case payload_details e of
     Some (Some d) \<Rightarrow>
       (JOB_EXECUTION, True,
        upd_job (\<lambda>j. j\<lparr>ji_current_status_details := d, ji_final_status_queued := True\<rparr>) s)
   | _ \<Rightarrow> (JOB_EXECUTION, True, fault s))"

definition handle_state_job_execution :: "ota_env \<Rightarrow> event_ref \<Rightarrow> event_data \<Rightarrow> ota_sys \<Rightarrow> handled" where
  "handle_state_job_execution env a e s =
     (if \<not> ji_has_active_job (o_job s) then start_job env s
      else case failed_reason (ed_event e) of
             Some reason \<Rightarrow> queue_failed_status env reason s
           | None \<Rightarrow> (case ed_event e of
               IMAGE_DOWNLOAD_PROGRESS \<Rightarrow> download_progress env e s
             | IMAGE_DOWNLOAD_SUCCEEDED \<Rightarrow> download_succeeded env a s
             | TIMEOUT \<Rightarrow> (JOB_EXECUTION, True, enter_error_state env RETRY_WITH_BACKOFF s)
             | FINAL_STATUS_REPORT_REQUESTED \<Rightarrow> queue_final_status e s
             | _ \<Rightarrow> (JOB_EXECUTION, True, on_event_ignored e s)))"

section \<open>After the download\<close>

definition set_version :: "ota_env \<Rightarrow> ota_sys \<Rightarrow> ota_sys" where
  "set_version env s = (case ji_filetype_handler (o_job s) of
     None \<Rightarrow> fault s
   | Some ctx \<Rightarrow> (case od_fw_version (ji_ota_data (o_job s)) of
       Some v \<Rightarrow> if ft_has_set_version ctx then snd (call env (Set_version v) s) else s
     | None \<Rightarrow> s))"

definition post_download_succeeded :: "ota_env \<Rightarrow> event_data \<Rightarrow> ota_sys \<Rightarrow> handled" where
  "post_download_succeeded env e s =
     (let s1 = upd_job (\<lambda>j. j\<lparr>ji_should_reboot := ed_fixed e\<rparr>) (set_version env s); j = o_job s1
      in (POST_DOWNLOAD, True,
          if ji_should_reboot j
          then snd (call env (Set_job_pending_verification (ji_job_id j) (optional_string (ji_filetype j))
                               (ji_expected_version j)) s1)
          else s1))"

definition post_download_accepted :: "ota_env \<Rightarrow> ota_sys \<Rightarrow> handled" where
  "post_download_accepted env s =
     (let (empty, s1) = ask (e_status_cache_empty env) s
      in if \<not> empty then (POST_DOWNLOAD, True, s1)
         else if ji_should_reboot (o_job s1) then (POST_DOWNLOAD, True, emit Reboot s1)
         else if ji_final_status_reported (o_job s1)
         then let s2 = retry_reset_backoff (s1\<lparr>o_job := zero_job\<rparr>);
                  (err, s3) = ota_job_state_post_event env (plain_event FETCH_REQUESTED) s2
              in if err \<noteq> ERR_OK then (ERROR_STATE, True, enter_error_state env RETRY_WITH_BACKOFF s3)
                 else (IDLE, True, s3)
         else (POST_DOWNLOAD, True, s1))"

definition post_download_event :: "ota_env \<Rightarrow> event_ref \<Rightarrow> event_data \<Rightarrow> ota_sys \<Rightarrow> handled" where
  "post_download_event env a e s = (case ed_event e of
     FINAL_STATUS_REPORT_REQUESTED \<Rightarrow>
       report_final_status_event env IDLE a e
         (\<lambda>_ t. (POST_DOWNLOAD, True, upd_job (\<lambda>j. j\<lparr>ji_final_status_reported := True\<rparr>) t)) s
   | IMAGE_DOWNLOAD_SUCCEEDED \<Rightarrow> post_download_succeeded env e s
   | UPDATE_ACCEPTED \<Rightarrow> post_download_accepted env s
   | _ \<Rightarrow> (POST_DOWNLOAD, True, on_event_ignored e s))"

definition handle_state_post_download :: "ota_env \<Rightarrow> event_ref \<Rightarrow> event_data \<Rightarrow> ota_sys \<Rightarrow> handled" where
  "handle_state_post_download env a e s =
     (if \<not> ji_final_status_queued (o_job s) then post_download_event env a e s
      else after_publish env (mqtt_publish_final_status env (ji_current_status_details (o_job s)) s)
             POST_DOWNLOAD a
             (\<lambda>t. post_download_event env a e (upd_job (\<lambda>j. j\<lparr>ji_final_status_queued := False\<rparr>) t)))"

section \<open>The error state\<close>

definition recovery_requested :: "ota_env \<Rightarrow> ota_sys \<Rightarrow> handled" where
  "recovery_requested env s =
     (let (err, s1) = (case o_rec_data s of
            Some r \<Rightarrow> enqueue_ref env r (s\<lparr>o_rec_data := None\<rparr>)
          | None \<Rightarrow> enqueue_copy env (plain_event (o_rec_event s)) s)
      in if err \<noteq> ERR_OK then (ERROR_STATE, True, snd (error_backoff_retry env s1))
         else (o_rec_state s1, True, recovery_reset_context s1))"

definition handle_state_error :: "ota_env \<Rightarrow> event_data \<Rightarrow> ota_sys \<Rightarrow> handled" where
  "handle_state_error env e s = (case ed_event e of
     ERROR_OCCURRED \<Rightarrow>
       (ERROR_STATE, True,
        if ji_has_active_job (o_job s)
        then upd_job (\<lambda>j. j\<lparr>ji_has_active_job := False\<rparr>)
               (snd (esp_rmaker_ota_report_status env OTA_STATUS_FAILED
                  (DetailsFailed (error_reason_to_string (o_last_error s))) s))
        else s)
   | RECOVERY_REQUESTED \<Rightarrow> recovery_requested env s
   | _ \<Rightarrow> (ERROR_STATE, True, on_event_ignored e s))"

section \<open>One run of the machine\<close>

definition handle_state :: "ota_env \<Rightarrow> event_ref \<Rightarrow> event_data \<Rightarrow> ota_sys \<Rightarrow> handled" where
  "handle_state env a e s = (case o_state s of
     UNINITIALIZED \<Rightarrow> handle_state_uninitialized e s
   | NETWORK_INIT \<Rightarrow> handle_state_network_init env e s
   | REBOOT_CHECK \<Rightarrow> handle_state_reboot_check env a e s
   | IDLE \<Rightarrow> handle_state_idle env a e s
   | JOBS_CHANGED_STATE \<Rightarrow> handle_state_jobs_changed env e s
   | FETCHING_PENDING_JOBS \<Rightarrow> handle_state_fetching_pending_jobs env e s
   | WAITING_FOR_PENDING_JOBS \<Rightarrow> handle_state_waiting_for_pending_jobs env a e s
   | PENDING_JOBS_RECEIVED \<Rightarrow> handle_state_pending_jobs_received env e s
   | FETCHING_JOB_DOC \<Rightarrow> handle_state_fetching_job_doc env e s
   | WAITING_FOR_JOB_DOC \<Rightarrow> handle_state_waiting_for_job_doc env a e s
   | JOB_DOC_RECEIVED \<Rightarrow> handle_state_job_doc_received env a e s
   | JOB_EXECUTION \<Rightarrow> handle_state_job_execution env a e s
   | POST_DOWNLOAD \<Rightarrow> handle_state_post_download env a e s
   | ERROR_STATE \<Rightarrow> handle_state_error env e s)"

text \<open>The event is read through its reference, which must be live.\<close>

definition ota_job_state_run_once :: "ota_env \<Rightarrow> event_ref \<Rightarrow> ota_sys \<Rightarrow> ota_sys" where
  "ota_job_state_run_once env a s =
     (if \<not> pre_init_event_queue_check_init_flag s then free_event_data (Some a) s
      else if \<not> event_live s a then fault s
      else let e = event_at s a
           in if ed_event e = ERROR_OCCURRED
              then let (_, free, s1) = handle_state_error env e (s\<lparr>o_state := ERROR_STATE\<rparr>)
                   in if free then free_event_data (Some a) s1 else s1
              else let (next, free, s1) = handle_state env a e s; s2 = s1\<lparr>o_state := next\<rparr>
                   in if free then free_event_data (Some a) s2 else s2)"

end
