(* ===== verification/Ota_Engine.thy ===== *)
theory Ota_Engine
  imports Ota_Fsm
begin

text \<open>The OTA engine around its state machine, \<^verbatim>\<open>ota_jobs.c\<close>: initialisation and shutdown, the calls of the
application and of the download, the MQTT callbacks and events, the retry tasks, and the step relation of
the whole engine. Tasks, callbacks and API calls run in any order; the work queue is first in, first out.\<close>

section \<open>Initialisation and shutdown\<close>

definition ota_job_critical_init :: "ota_env \<Rightarrow> ota_sys \<Rightarrow> err \<times> ota_sys" where
  "ota_job_critical_init env s =
     (let (err, s1) = event_pool_init env s
      in if err \<noteq> ERR_OK then (err, s1)
         else let (err2, s2) = pre_init_event_queue_init env s1
              in if err2 \<noteq> ERR_OK then (err2, event_pool_deinit s2) else (ERR_OK, s2))"

text \<open>The thing name, the status manager, the timeout handler and the event handlers are set up one after
the other; each may fail.\<close>

definition init_services :: "ota_env \<Rightarrow> ota_sys \<Rightarrow> err \<times> ota_sys" where
  "init_services env s =
     and_then (and_then (and_then (ask_err env s) (ask_err env))
                (\<lambda>t. let (err, t1) = ask_err env t in (err, if err = ERR_OK then t1\<lparr>o_timer_handle := True\<rparr> else t1)))
       (\<lambda>t. ask_err env (t\<lparr>o_error_retry := False, o_sub_retry := False, o_terminal_retry := False\<rparr>))"

definition ota_job_state_init :: "ota_env \<Rightarrow> ota_job_config \<Rightarrow> ota_sys \<Rightarrow> err \<times> ota_sys" where
  "ota_job_state_init env config s =
     (if o_state_initialized s then (ERR_OK, s)
      else let (err, s1) = init_services env s
           in if err \<noteq> ERR_OK then (err, s1)
              else let s2 = upd_job (\<lambda>j. j\<lparr>ji_has_active_job := False, ji_filetype_handler := None,
                                           ji_expected_version := 1\<rparr>)
                              (s1\<lparr>o_config := config, o_last_error := ERROR_NONE, o_state := NETWORK_INIT\<rparr>);
                       (err2, s3) = enqueue_transition_event env s2
                   in if err2 \<noteq> ERR_OK then (err2, s3) else pre_init_event_queue_enqueue_all env s3)"

definition ota_job_state_deinit :: "ota_env \<Rightarrow> ota_sys \<Rightarrow> err \<times> ota_sys" where
  "ota_job_state_deinit env s =
     (if \<not> pre_init_event_queue_check_init_flag s then (ERR_OK, s)
      else let (_, s1) = mqtt_unsubscribe_jobs_topics env
                 (s\<lparr>o_error_retry := False, o_terminal_retry := False\<rparr>);
               s2 = s1\<lparr>o_config := \<lparr>cf_validate_image_ref = None, cf_filetype_handler_lookup = None\<rparr>,
                       o_state := UNINITIALIZED, o_job := zero_job, o_subscribed := False,
                       o_sub_intended := False, o_timer_handle := False, o_last_error := ERROR_NONE,
                       o_rec_state := UNINITIALIZED, o_rec_data := None, o_rec_event := REBOOT_CHECK_REQUESTED\<rparr>;
               (_, s3) = pre_init_event_queue_deinit s2
           in (ERR_OK, event_pool_deinit s3))"

section \<open>Calls of the application and of the download\<close>

definition ota_job_state_fetch :: "ota_env \<Rightarrow> ota_sys \<Rightarrow> err \<times> ota_sys" where
  "ota_job_state_fetch env s = ota_job_state_post_event env (plain_event FETCH_REQUESTED) s"

definition ota_job_state_reboot_check :: "ota_env \<Rightarrow> ota_sys \<Rightarrow> err \<times> ota_sys" where
  "ota_job_state_reboot_check env s = ota_job_state_post_event env (plain_event REBOOT_CHECK_REQUESTED) s"

definition esp_rmaker_ota_report_final_status :: "ota_env \<Rightarrow> status_details \<Rightarrow> ota_sys \<Rightarrow> err \<times> ota_sys" where
  "esp_rmaker_ota_report_final_status env d s =
     ota_job_state_post_event env (details_event FINAL_STATUS_REPORT_REQUESTED d) s"

definition ota_job_state_post_terminal_event :: "ota_env \<Rightarrow> event_data \<Rightarrow> ota_sys \<Rightarrow> err \<times> ota_sys" where
  "ota_job_state_post_terminal_event env e s =
     (let (err, s1) = ota_job_state_post_event env e s
      in if err = ERR_OK then (ERR_OK, s1)
         else terminal_backoff_retry env (s1\<lparr>o_terminal_pending := e\<lparr>ed_payload := None\<rparr>\<rparr>))"

definition terminal_event_repost_task :: "ota_env \<Rightarrow> ota_sys \<Rightarrow> ota_sys" where
  "terminal_event_repost_task env s =
     (let (err, s1) = ota_job_state_post_event env (o_terminal_pending s) s
      in if err \<noteq> ERR_OK then snd (terminal_backoff_retry env s1) else s1\<lparr>o_terminal_retry := False\<rparr>)"

section \<open>MQTT callbacks\<close>

text \<open>What the topic parser of the job library tells about an incoming message, and what the status manager
answers to a response to an update (\<^verbatim>\<open>None\<close>: an error).\<close>

datatype jobs_topic =
    JobsJobsChanged | JobsGetPendingSuccess | JobsGetPendingFailed | JobsDescribeSuccess
  | JobsDescribeFailed | JobsUpdateSuccess | JobsUpdateFailed | JobsOther

record update_response =
  ur_job_id :: string
  ur_is_terminal :: bool
  ur_is_unrecoverable_reject :: bool

text \<open>\<^verbatim>\<open>strncmp(response.job_id, current.job_id, response.job_id_len) == 0\<close>.\<close>

definition for_current_job :: "update_response \<Rightarrow> ota_sys \<Rightarrow> bool" where
  "for_current_job r s = (take (length (ur_job_id r)) (ji_job_id (o_job s)) = ur_job_id r)"

definition mqtt_on_update_accepted :: "ota_env \<Rightarrow> update_response option \<Rightarrow> ota_sys \<Rightarrow> ota_sys" where
  "mqtt_on_update_accepted env response s = (case response of
     None \<Rightarrow> s
   | Some r \<Rightarrow>
       if \<not> for_current_job r s then s
       else let s1 = (if ur_is_terminal r then upd_job (\<lambda>j. j\<lparr>ji_final_status_reported := True\<rparr>) s else s)
            in snd (ota_job_state_post_event env (plain_event UPDATE_ACCEPTED) s1))"

definition mqtt_on_update_rejected :: "ota_env \<Rightarrow> update_response option \<Rightarrow> ota_sys \<Rightarrow> ota_sys" where
  "mqtt_on_update_rejected env response s = (case response of
     None \<Rightarrow> s
   | Some r \<Rightarrow>
       if \<not> for_current_job r s then s
       else snd (ota_job_state_post_event env
              ((plain_event UPDATE_REJECTED)\<lparr>ed_fixed := ur_is_unrecoverable_reject r\<rparr>) s))"

definition mqtt_unified_callback ::
    "ota_env \<Rightarrow> jobs_topic \<Rightarrow> string \<Rightarrow> update_response option \<Rightarrow> ota_sys \<Rightarrow> ota_sys" where
  "mqtt_unified_callback env topic msg response s = (case topic of
     JobsJobsChanged \<Rightarrow> snd (ota_job_state_post_event env (text_event JOBS_CHANGED msg) s)
   | JobsGetPendingSuccess \<Rightarrow> snd (ota_job_state_post_event env (text_event PENDING_JOBS_ACCEPTED msg) s)
   | JobsGetPendingFailed \<Rightarrow> snd (ota_job_state_post_event env (plain_event PENDING_JOBS_REJECTED) s)
   | JobsDescribeSuccess \<Rightarrow> snd (ota_job_state_post_event env (text_event JOB_DOC_ACCEPTED msg) s)
   | JobsDescribeFailed \<Rightarrow> snd (ota_job_state_post_event env (plain_event JOB_DOC_REJECTED) s)
   | JobsUpdateSuccess \<Rightarrow> mqtt_on_update_accepted env response s
   | JobsUpdateFailed \<Rightarrow> mqtt_on_update_rejected env response s
   | JobsOther \<Rightarrow> s)"

definition timeout_callback :: "ota_env \<Rightarrow> ota_sys \<Rightarrow> ota_sys" where
  "timeout_callback env s = snd (ota_job_state_post_event env (plain_event TIMEOUT) s)"

section \<open>The subscription\<close>

definition sub_retry_sched_cb :: "ota_env \<Rightarrow> ota_sys \<Rightarrow> ota_sys" where
  "sub_retry_sched_cb env s =
     (let (err, s1) = ask_err env s
      in if err \<noteq> ERR_OK then snd (sub_backoff_retry env s1) else s1\<lparr>o_sub_work := Suc (o_sub_work s1)\<rparr>)"

definition sub_retry_work :: "ota_env \<Rightarrow> ota_sys \<Rightarrow> ota_sys" where
  "sub_retry_work env s =
     (if \<not> o_sub_intended s then s
      else let (err, s1) = mqtt_subscribe_jobs_topics env s
           in if err \<noteq> ERR_OK then snd (sub_backoff_retry env s1) else s1)"

datatype mqtt_event = MQTT_DISCONNECTED | MQTT_CONNECTED | MQTT_SUBSCRIBED bool

text \<open>\<^verbatim>\<open>MQTT_SUBSCRIBED ok\<close> is the acknowledgement of the jobs subscription with its status.\<close>

definition on_rmaker_mqtt_event :: "ota_env \<Rightarrow> mqtt_event \<Rightarrow> ota_sys \<Rightarrow> ota_sys" where
  "on_rmaker_mqtt_event env ev s = (case ev of
     MQTT_DISCONNECTED \<Rightarrow> s\<lparr>o_subscribed := False, o_sub_retry := False\<rparr>
   | MQTT_CONNECTED \<Rightarrow>
       if o_sub_intended s \<and> \<not> o_subscribed s then snd (sub_backoff_retry env s) else s
   | MQTT_SUBSCRIBED ok \<Rightarrow>
       if ok
       then let s1 = emit Resend_terminals (s\<lparr>o_subscribed := True, o_sub_retry := False\<rparr>);
                (err, s2) = ota_job_state_fetch env s1
            in if err \<noteq> ERR_OK then enter_error_state env RETRY_WITH_BACKOFF s2 else s2
       else if o_sub_intended s then snd (sub_backoff_retry env s) else s)"

section \<open>The engine\<close>

definition boot_sys :: ota_sys where
  "boot_sys =
     \<lparr>o_calls = 0, o_log = [], o_fault = False, o_pool_free = None,
      o_slots = replicate OTA_JOB_EVENT_POOL_SIZE zero_event, o_heap = \<lambda>_. None, o_fresh = 0, o_wq = [],
      o_pre_mutex = False, o_pre_queue = [], o_state_initialized = False,
      o_config = \<lparr>cf_validate_image_ref = None, cf_filetype_handler_lookup = None\<rparr>,
      o_state = UNINITIALIZED, o_job = zero_job, o_subscribed = False, o_sub_intended = False,
      o_timer_handle = False, o_last_error = ERROR_NONE, o_rec_state = UNINITIALIZED, o_rec_data = None,
      o_rec_event = REBOOT_CHECK_REQUESTED,
      o_ids = replicate 50 [], o_ids_next = 0, o_ids_size = 0, o_error_retry = False, o_sub_retry = False,
      o_terminal_retry = False, o_terminal_pending = zero_event, o_sub_work = 0\<rparr>"

definition terminal_event :: "ota_event \<Rightarrow> bool" where
  "terminal_event ev \<longleftrightarrow> ev = IMAGE_DOWNLOAD_SUCCEEDED \<or> failed_reason ev \<noteq> None"

text \<open>One step: a task of the work queue, a timer that fires (which disarms it first), a callback, or a call
of the application. The download reports progress and one terminal event.\<close>

inductive ota_step :: "ota_env \<Rightarrow> ota_sys \<Rightarrow> ota_sys \<Rightarrow> bool" for env where
  run: "o_wq s = a # w \<Longrightarrow> ota_step env s (ota_job_state_run_once env a (s\<lparr>o_wq := w\<rparr>))"
| init: "ota_step env s (snd (ota_job_state_init env config s))"
| fetch: "ota_step env s (snd (ota_job_state_fetch env s))"
| reboot_check: "ota_step env s (snd (ota_job_state_reboot_check env s))"
| final_status: "ota_step env s (snd (esp_rmaker_ota_report_final_status env d s))"
| recover: "ota_step env s (snd (ota_job_state_recover env s))"
| report: "ota_step env s (snd (esp_rmaker_ota_report_status env status d s))"
| progress: "ota_step env s (snd (ota_job_state_post_event env (text_event IMAGE_DOWNLOAD_PROGRESS msg) s))"
| terminal: "terminal_event ev \<Longrightarrow>
    ota_step env s (snd (ota_job_state_post_terminal_event env \<lparr>ed_event = ev, ed_payload = None, ed_fixed = b\<rparr> s))"
| terminal_retry: "o_terminal_retry s \<Longrightarrow>
    ota_step env s (terminal_event_repost_task env (s\<lparr>o_terminal_retry := False\<rparr>))"
| error_retry: "o_error_retry s \<Longrightarrow> ota_step env s (retry_with_backoff_task env (s\<lparr>o_error_retry := False\<rparr>))"
| sub_retry: "o_sub_retry s \<Longrightarrow> ota_step env s (sub_retry_sched_cb env (s\<lparr>o_sub_retry := False\<rparr>))"
| sub_work: "o_sub_work s = Suc n \<Longrightarrow> ota_step env s (sub_retry_work env (s\<lparr>o_sub_work := n\<rparr>))"
| message: "ota_step env s (mqtt_unified_callback env topic msg response s)"
| mqtt: "ota_step env s (on_rmaker_mqtt_event env ev s)"
| timeout: "ota_step env s (timeout_callback env s)"

inductive ota_reachable :: "ota_env \<Rightarrow> ota_sys \<Rightarrow> bool" for env where
  start: "ota_job_critical_init env boot_sys = (ERR_OK, s) \<Longrightarrow> ota_reachable env s"
| step: "ota_reachable env s \<Longrightarrow> ota_step env s s' \<Longrightarrow> ota_reachable env s'"

end
