(* ===== verification/Ota_Memory.thy ===== *)
theory Ota_Memory
  imports Ota_Engine
begin

text \<open>Every reachable state of the OTA engine keeps the ownership discipline of the event objects: no object
is freed twice or used after it was freed, no payload or filetype handler is read through a \<^verbatim>\<open>NULL\<close>
pointer, and no slot of the static pool is handed out while someone still uses it.\<close>

section \<open>Operations that leave the event objects alone\<close>

lemma mem_ok_calls [simp]:
  "mem_ok xs (emit x s) = mem_ok xs s"
  "mem_ok xs (snd (ask_err env s)) = mem_ok xs s"
  "mem_ok xs (snd (ask_alloc env s)) = mem_ok xs s"
  "mem_ok xs (snd (ask f s)) = mem_ok xs s"
  "mem_ok xs (snd (call env x s)) = mem_ok xs s"
  "mem_ok xs (upd_job g s) = mem_ok xs s"
  "mem_ok xs (upd_data h s) = mem_ok xs s"
  "mem_ok xs (retry_reset_backoff s) = mem_ok xs s"
  "mem_ok xs (snd (error_backoff_retry env s)) = mem_ok xs s"
  "mem_ok xs (snd (sub_backoff_retry env s)) = mem_ok xs s"
  "mem_ok xs (snd (terminal_backoff_retry env s)) = mem_ok xs s"
  by (simp_all add: emit_def ask_err_def ask_alloc_def ask_def call_def upd_job_def upd_data_def
      retry_reset_backoff_def error_backoff_retry_def sub_backoff_retry_def terminal_backoff_retry_def Let_def)

lemma mem_ok_publish [simp]:
  "mem_ok xs (on_event_ignored e s) = mem_ok xs s"
  "mem_ok xs (snd (mqtt_subscribe_jobs_topics env s)) = mem_ok xs s"
  "mem_ok xs (snd (mqtt_unsubscribe_jobs_topics env s)) = mem_ok xs s"
  "mem_ok xs (snd (mqtt_publish_get_pending env s)) = mem_ok xs s"
  "mem_ok xs (snd (mqtt_publish_describe_job env j s)) = mem_ok xs s"
  "mem_ok xs (snd (snd (mqtt_publish_update_job_status env j st d s))) = mem_ok xs s"
  "mem_ok xs (snd (ota_jobs_mqtt_publish_update_job_status env st d s)) = mem_ok xs s"
  "mem_ok xs (stop_response_timer env s) = mem_ok xs s"
  by (simp_all add: on_event_ignored_def mqtt_subscribe_jobs_topics_def mqtt_unsubscribe_jobs_topics_def
      mqtt_publish_get_pending_def mqtt_publish_describe_job_def publish_request_def
      mqtt_publish_update_job_status_def ota_jobs_mqtt_publish_update_job_status_def stop_response_timer_def
      Let_def case_prod_beta split: option.splits)

lemma mem_ok_final_status [simp]:
  "mem_ok xs (snd (mqtt_publish_final_status env d s)) = mem_ok xs s"
  "mem_ok xs (snd (esp_rmaker_ota_report_status env status d s)) = mem_ok xs s"
  by (simp_all add: mqtt_publish_final_status_def esp_rmaker_ota_report_status_def Let_def case_prod_beta
      split: status_details.splits ota_status.splits)

lemma mem_ok_set_ota_data [simp]:
  "mem_ok xs (snd (make_string_copy env src s)) = mem_ok xs s"
  "mem_ok xs (snd (copy_field env src put s)) = mem_ok xs s"
  "mem_ok xs (snd (copy_optional env src put s)) = mem_ok xs s"
  "(\<And>t. mem_ok xs (snd (f t)) = mem_ok xs t) \<Longrightarrow> mem_ok xs (snd (and_then r f)) = mem_ok xs (snd r)"
  by (simp_all add: make_string_copy_def copy_field_def copy_optional_def and_then_def Let_def case_prod_beta
      split: option.splits sum.splits)

lemma mem_ok_job_data [simp]:
  "mem_ok xs (clear_ota_data s) = mem_ok xs s"
  "mem_ok xs (snd (set_ota_data_from_job_doc env af cu s)) = mem_ok xs s"
  "mem_ok xs (snd (pending_jobs_to_job_id_queue env msg p q s)) = mem_ok xs s"
  "mem_ok xs (snd (get_next_job_id_from_queue s)) = mem_ok xs s"
  "mem_ok xs (snd (select_filetype env cu s)) = mem_ok xs s"
  "mem_ok xs (snd (window_open env cu s)) = mem_ok xs s"
  "mem_ok xs (snd (adopt_job env j doc cu v s)) = mem_ok xs s"
  by (simp_all add: clear_ota_data_def set_ota_data_from_job_doc_def set_ota_data_fields_def
      pending_jobs_to_job_id_queue_def get_next_job_id_from_queue_def select_filetype_def window_open_def
      adopt_job_def Let_def case_prod_beta split: option.splits)

lemma mem_ok_restore [simp]:
  "mem_ok xs (clear_job_id s) = mem_ok xs s"
  "mem_ok xs (snd (restore_last_job env j s)) = mem_ok xs s"
  "mem_ok xs (snd (reboot_check_outcome env b s)) = mem_ok xs s"
  "mem_ok xs (drop_checked_job s) = mem_ok xs s"
  by (simp_all add: clear_job_id_def restore_last_job_def reboot_check_outcome_def drop_checked_job_def
      Let_def case_prod_beta split: option.splits)

section \<open>The error context\<close>

lemma mem_ok_drop_recovery: "mem_ok xs s \<Longrightarrow> mem_ok xs (s\<lparr>o_rec_data := None\<rparr>)"
  by (frule mem_ok_distinct, erule mem_ok_move) (auto simp: owned_def stash_ok_def)

lemma mem_ok_to_recovery: "mem_ok (r # xs) s \<Longrightarrow> mem_ok xs (s\<lparr>o_rec_data := Some r\<rparr>)"
  by (frule mem_ok_distinct, erule mem_ok_move) (auto simp: owned_def stash_ok_def)

lemma mem_ok_from_recovery:
  "mem_ok xs s \<Longrightarrow> o_rec_data s = Some r \<Longrightarrow> mem_ok (r # xs) (s\<lparr>o_rec_data := None\<rparr>)"
  by (frule mem_ok_distinct, erule mem_ok_move) (auto simp: owned_def stash_ok_def)

lemma recovery_route_event [simp]:
  "snd (recovery_route r) \<noteq> FINAL_STATUS_REPORT_REQUESTED" "snd (recovery_route r) \<noteq> IMAGE_DOWNLOAD_PROGRESS"
  by (simp_all add: recovery_route_def split: error_reason.splits)

lemma post_error_event_ok: "mem_ok xs s \<Longrightarrow> mem_ok xs (post_error_event env error s)"
  by (simp add: post_error_event_def Let_def post_event_ok)

lemma enter_error_state_ok [inv_intros]:
  assumes "mem_ok xs s" shows "mem_ok xs (enter_error_state env error s)"
proof -
  have "mem_ok xs (s\<lparr>o_rec_state := r, o_rec_event := snd (recovery_route error), o_rec_data := None\<rparr>)" for r
    by (rule mem_ok_drop_recovery, rule mem_ok_stash) (use assms in simp_all)
  then show ?thesis by (simp add: enter_error_state_def post_error_event_ok)
qed

lemma enter_error_state_custom_ok [inv_intros]:
  assumes "mem_ok (a # xs) s" shows "mem_ok xs (enter_error_state_custom env error state a s)"
proof -
  have "mem_ok xs (s\<lparr>o_rec_state := state, o_rec_data := Some a, o_rec_event := ERROR_OCCURRED\<rparr>)"
    by (rule mem_ok_stash, rule mem_ok_to_recovery) (use assms in simp_all)
  then show ?thesis by (simp add: enter_error_state_custom_def post_error_event_ok)
qed

lemma recovery_reset_context_ok: "mem_ok xs s \<Longrightarrow> mem_ok xs (recovery_reset_context s)"
  by (auto simp: recovery_reset_context_def Let_def split: option.splits
      intro!: free_event_data_ok mem_ok_from_recovery mem_ok_stash)

lemma recover_ok [inv_intros]: "mem_ok xs s \<Longrightarrow> mem_ok xs (snd (ota_job_state_recover env s))"
  by (simp add: ota_job_state_recover_def post_event_ok)

lemma retry_with_backoff_task_ok: "mem_ok xs s \<Longrightarrow> mem_ok xs (retry_with_backoff_task env s)"
  by (simp add: retry_with_backoff_task_def Let_def case_prod_beta recover_ok)

lemma start_response_timer_ok [inv_intros]: "mem_ok xs s \<Longrightarrow> mem_ok xs (start_response_timer env s)"
  by (simp add: start_response_timer_def Let_def case_prod_beta enter_error_state_ok)

section \<open>The handlers\<close>

definition handled_ok :: "event_ref \<Rightarrow> event_ref list \<Rightarrow> handled \<Rightarrow> bool" where
  "handled_ok a xs h = (case h of (next, free, s) \<Rightarrow> mem_ok (if free then a # xs else xs) s)"

lemma handled_okI [simp]:
  "handled_ok a xs (next, True, s) = mem_ok (a # xs) s"
  "handled_ok a xs (next, False, s) = mem_ok xs s"
  by (simp_all add: handled_ok_def)

lemma transition_to_ok [inv_intros]: "mem_ok (a # xs) s \<Longrightarrow> handled_ok a xs (transition_to env next s)"
  by (simp add: transition_to_def Let_def case_prod_beta enqueue_transition_event_ok enter_error_state_ok)

lemma forward_to_ok [inv_intros]: "mem_ok (a # xs) s \<Longrightarrow> handled_ok a xs (forward_to env next a s)"
  by (simp add: forward_to_def Let_def case_prod_beta enqueue_ref_ok enter_error_state_ok)

lemma after_publish_ok [inv_intros]:
  assumes "mem_ok (a # xs) (snd r)" "\<And>t. mem_ok (a # xs) t \<Longrightarrow> handled_ok a xs (f t)"
  shows "handled_ok a xs (after_publish env r st a f)"
  using assms by (simp add: after_publish_def Let_def case_prod_beta enter_error_state_ok enter_error_state_custom_ok)

lemma payload_details_ok: "event_ok e \<Longrightarrow> ed_event e = FINAL_STATUS_REPORT_REQUESTED \<Longrightarrow> \<exists>d. payload_details e = Some (Some d)"
  by (auto simp: event_ok_def payload_details_def split: option.splits)

lemma report_final_status_event_ok [inv_intros]:
  assumes "mem_ok (a # xs) s" "event_ok e" "ed_event e = FINAL_STATUS_REPORT_REQUESTED"
    "\<And>d t. mem_ok (a # xs) t \<Longrightarrow> handled_ok a xs (f d t)"
  shows "handled_ok a xs (report_final_status_event env st a e f s)"
proof -
  obtain d where "payload_details e = Some (Some d)" using payload_details_ok [OF assms(2,3)] by blast
  then show ?thesis using assms(1,4) by (simp add: report_final_status_event_def after_publish_ok)
qed

lemma after_job_list_ok [inv_intros]: "mem_ok (a # xs) (snd r) \<Longrightarrow> handled_ok a xs (after_job_list env r)"
  by (simp add: after_job_list_def Let_def case_prod_beta transition_to_ok enter_error_state_ok)

lemma job_doc_end_ok [inv_intros]: "mem_ok (a # xs) s \<Longrightarrow> handled_ok a xs (job_doc_end env error s)"
  by (simp add: job_doc_end_def transition_to_ok enter_error_state_ok)

lemma queue_failed_status_ok [inv_intros]:
  "mem_ok (a # xs) s \<Longrightarrow> handled_ok a xs (queue_failed_status env r s)"
  by (simp add: queue_failed_status_def Let_def case_prod_beta enqueue_copy_ok enter_error_state_ok)

lemma early_handlers_ok:
  assumes "mem_ok (a # xs) s" "event_ok e"
  shows "handled_ok a xs (handle_state_uninitialized e s)"
    "handled_ok a xs (handle_state_network_init env e s)"
    "handled_ok a xs (handle_state_idle env a e s)"
    "handled_ok a xs (handle_state_jobs_changed env e s)"
    "handled_ok a xs (handle_state_fetching_pending_jobs env e s)"
    "handled_ok a xs (handle_state_waiting_for_pending_jobs env a e s)"
    "handled_ok a xs (handle_state_pending_jobs_received env e s)"
    "handled_ok a xs (handle_state_fetching_job_doc env e s)"
    "handled_ok a xs (handle_state_waiting_for_job_doc env a e s)"
  using assms
  by (simp_all add: handle_state_uninitialized_def handle_state_network_init_def network_init_to_idle_def
      handle_state_idle_def handle_state_jobs_changed_def handle_state_fetching_pending_jobs_def
      handle_state_waiting_for_pending_jobs_def handle_state_pending_jobs_received_def
      handle_state_fetching_job_doc_def handle_state_waiting_for_job_doc_def Let_def case_prod_beta
      post_event_ok inv_intros split: ota_event.splits option.splits)

lemma reboot_check_ok:
  assumes "mem_ok (a # xs) s" "event_ok e"
  shows "handled_ok a xs (handle_state_reboot_check env a e s)"
proof -
  have "handled_ok a xs (reboot_check_requested env a s)"
    using assms by (simp add: reboot_check_requested_def Let_def case_prod_beta inv_intros)
  moreover have "handled_ok a xs (reboot_check_accepted env s)"
    using assms by (simp add: reboot_check_accepted_def Let_def inv_intros split: job_status.splits status_details.splits)
  moreover have "handled_ok a xs (reboot_check_rejected e s)"
    using assms by (simp add: reboot_check_rejected_def Let_def)
  ultimately show ?thesis
    using assms by (simp add: handle_state_reboot_check_def inv_intros split: ota_event.splits)
qed

text \<open>A handler that the document selected has both version functions or neither.\<close>

definition versions_paired :: "ft_ctx \<Rightarrow> bool" where
  "versions_paired ctx \<longleftrightarrow> (ft_get_version ctx \<noteq> None \<longrightarrow> ft_version_to_uint32 ctx \<noteq> None)"

lemma select_filetype_paired: "fst (select_filetype env cu s) = Inr ctx \<Longrightarrow> versions_paired ctx"
  by (auto simp: select_filetype_def versions_paired_def filetype_handler_is_valid_ctx_def
      filetype_handler_get_default_ctx_def Let_def split: option.splits if_splits)

lemma check_versions_mem_ok:
  "versions_paired ctx \<Longrightarrow> mem_ok xs (snd (check_versions ctx cu s)) = mem_ok xs s"
  by (auto simp: check_versions_def versions_paired_def Let_def case_prod_beta split: option.splits)

lemma judge_job_doc_mem_ok [simp]: "mem_ok xs (snd (judge_job_doc env j doc s)) = mem_ok xs s"
proof (cases "parse_custom_fields_from_job_doc env doc")
  case (Inr cu)
  show ?thesis
  proof (cases "fst (select_filetype env cu s)")
    case (Inr ctx)
    note v = check_versions_mem_ok [OF select_filetype_paired [OF Inr]]
    show ?thesis
      using \<open>parse_custom_fields_from_job_doc env doc = Inr cu\<close> Inr v [where xs = xs and cu = cu]
      by (simp add: judge_job_doc_def Let_def case_prod_beta split: verdict.splits)
  qed (use Inr in \<open>simp add: judge_job_doc_def Let_def case_prod_beta\<close>)
qed (simp add: judge_job_doc_def)

text \<open>The execution versions the service sends fit an \<^verbatim>\<open>int32_t\<close>.\<close>

definition versions_fit :: "ota_env \<Rightarrow> bool" where
  "versions_fit env \<longleftrightarrow> (\<forall>msg ty v. e_json_search env msg ''execution.versionNumber'' = Some (ty, v)
     \<longrightarrow> execution_version_to_int32 v \<noteq> Crashed)"

lemma execution_version_loop_not_running: "execution_version_loop v n \<noteq> Running"
  by (induction v arbitrary: n) (auto simp: Let_def)

lemma execution_version_returns:
  assumes "versions_fit env" shows "\<exists>r. execution_version env msg = Returned r"
proof -
  have "execution_version env msg \<noteq> Crashed"
    using assms by (auto simp: execution_version_def versions_fit_def execution_version_to_int32_def split: option.splits)
  moreover have "execution_version env msg \<noteq> Running"
    by (simp add: execution_version_def execution_version_to_int32_def execution_version_loop_not_running)
  ultimately show ?thesis by (cases "execution_version env msg") auto
qed

lemma reject_job_doc_ok [inv_intros]:
  "mem_ok (a # xs) s \<Longrightarrow> handled_ok a xs (reject_job_doc env a j v r s)"
  by (simp add: reject_job_doc_def Let_def case_prod_beta inv_intros)

lemma job_doc_received_ok:
  assumes "mem_ok (a # xs) s" "versions_fit env"
  shows "handled_ok a xs (handle_state_job_doc_received env a e s)"
proof -
  have "handled_ok a xs (handle_job_doc env a msg t)" if m: "mem_ok (a # xs) t" for msg t
  proof -
    obtain r where r: "execution_version env msg = Returned r"
      using execution_version_returns [OF assms(2)] by blast
    show ?thesis
      using m by (simp add: handle_job_doc_def r Let_def case_prod_beta inv_intros split: option.splits verdict.splits)
  qed
  then show ?thesis using assms by (simp add: handle_state_job_doc_received_def inv_intros split: option.splits)
qed

lemma queue_final_status_ok:
  assumes "mem_ok (a # xs) s" "event_ok e" "ed_event e = FINAL_STATUS_REPORT_REQUESTED"
  shows "handled_ok a xs (queue_final_status e s)"
  using payload_details_ok [OF assms(2,3)] assms(1) by (auto simp: queue_final_status_def)

lemma download_progress_ok:
  assumes "mem_ok (a # xs) s" "event_ok e" "ed_event e = IMAGE_DOWNLOAD_PROGRESS"
  shows "handled_ok a xs (download_progress env e s)"
  using assms by (auto simp: download_progress_def event_ok_def split: option.splits)

lemma job_execution_ok:
  assumes "mem_ok (a # xs) s" "event_ok e"
  shows "handled_ok a xs (handle_state_job_execution env a e s)"
proof -
  have "handled_ok a xs (start_job env s)"
    using assms by (simp add: start_job_def Let_def case_prod_beta inv_intros)
  moreover have "handled_ok a xs (download_succeeded env a s)"
    using assms by (simp add: download_succeeded_def Let_def case_prod_beta inv_intros)
  ultimately show ?thesis
    using assms
    by (cases "failed_reason (ed_event e)"; cases "ed_event e")
      (simp_all add: handle_state_job_execution_def inv_intros queue_final_status_ok download_progress_ok)
qed

lemma set_version_mem_ok [simp]:
  "ji_filetype_handler (o_job s) \<noteq> None \<Longrightarrow> mem_ok xs (set_version env s) = mem_ok xs s"
  by (auto simp: set_version_def split: option.splits)

lemma mem_ok_job_zero [simp]: "mem_ok xs (s\<lparr>o_job := j\<rparr>) = mem_ok xs s"
  by (rule mem_ok_cong; simp add: stash_ok_def)

lemma post_download_event_ok:
  assumes "mem_ok (a # xs) s" "event_ok e" "ji_filetype_handler (o_job s) \<noteq> None"
  shows "handled_ok a xs (post_download_event env a e s)"
proof -
  have "handled_ok a xs (post_download_succeeded env e s)"
    using assms by (simp add: post_download_succeeded_def Let_def)
  moreover have "handled_ok a xs (post_download_accepted env s)"
    using assms by (simp add: post_download_accepted_def Let_def case_prod_beta post_event_ok enter_error_state_ok)
  ultimately show ?thesis
    using assms by (simp add: post_download_event_def inv_intros split: ota_event.splits)
qed

lemma handler_publish [simp]:
  "ji_filetype_handler (o_job (snd (ota_jobs_mqtt_publish_update_job_status env st d s))) = ji_filetype_handler (o_job s)"
  "ji_has_pending_job (o_job (snd (ota_jobs_mqtt_publish_update_job_status env st d s))) = ji_has_pending_job (o_job s)"
  "o_rec_state (snd (ota_jobs_mqtt_publish_update_job_status env st d s)) = o_rec_state s"
  by (simp_all add: ota_jobs_mqtt_publish_update_job_status_def mqtt_publish_update_job_status_def upd_job_def
      ask_def call_def ask_err_def emit_def Let_def split: option.splits)

lemma handler_publish_final [simp]:
  "ji_filetype_handler (o_job (snd (mqtt_publish_final_status env d s))) = ji_filetype_handler (o_job s)"
  "ji_has_pending_job (o_job (snd (mqtt_publish_final_status env d s))) = ji_has_pending_job (o_job s)"
  "o_rec_state (snd (mqtt_publish_final_status env d s)) = o_rec_state s"
  by (simp_all add: mqtt_publish_final_status_def call_def ask_err_def emit_def Let_def split: status_details.splits)

lemma post_download_ok:
  assumes "mem_ok (a # xs) s" "event_ok e" "ji_filetype_handler (o_job s) \<noteq> None"
  shows "handled_ok a xs (handle_state_post_download env a e s)"
  using assms
  by (simp add: handle_state_post_download_def after_publish_def Let_def case_prod_beta post_download_event_ok
      inv_intros upd_job_def)

lemma error_state_ok:
  assumes "mem_ok (a # xs) s" "event_ok e"
  shows "handled_ok a xs (handle_state_error env e s)"
proof -
  have rec: "event_ok (plain_event (o_rec_event s))" using assms(1) by (simp add: mem_ok_def stash_ok_def)
  have swap: "mem_ok (r # a # xs) t \<Longrightarrow> mem_ok (a # xs) (snd (enqueue_ref env r t))" for r t
    by (rule enqueue_ref_ok)
  have "handled_ok a xs (recovery_requested env s)"
    using assms rec
    by (auto simp: recovery_requested_def Let_def case_prod_beta recovery_reset_context_ok enqueue_copy_ok
        simp del: plain_event_ok split: option.splits intro!: recovery_reset_context_ok swap mem_ok_from_recovery)
  then show ?thesis using assms by (simp add: handle_state_error_def split: ota_event.splits)
qed

section \<open>A job that runs has a filetype handler\<close>

lemma upd_job_sel [simp]: "o_job (upd_job g s) = g (o_job s)" "o_rec_state (upd_job g s) = o_rec_state s"
  by (simp_all add: upd_job_def)

lemma frame_calls [simp]:
  "o_job (emit x s) = o_job s" "o_rec_state (emit x s) = o_rec_state s"
  "o_job (snd (ask_err env s)) = o_job s" "o_rec_state (snd (ask_err env s)) = o_rec_state s"
  "o_job (snd (ask_alloc env s)) = o_job s" "o_rec_state (snd (ask_alloc env s)) = o_rec_state s"
  "o_job (snd (ask f s)) = o_job s" "o_rec_state (snd (ask f s)) = o_rec_state s"
  "o_job (snd (call env x s)) = o_job s" "o_rec_state (snd (call env x s)) = o_rec_state s"
  "o_job (retry_reset_backoff s) = o_job s" "o_rec_state (retry_reset_backoff s) = o_rec_state s"
  "o_job (snd (error_backoff_retry env s)) = o_job s" "o_rec_state (snd (error_backoff_retry env s)) = o_rec_state s"
  "o_job (fault s) = o_job s" "o_rec_state (fault s) = o_rec_state s"
  by (simp_all add: emit_def ask_err_def ask_alloc_def ask_def call_def retry_reset_backoff_def
      error_backoff_retry_def fault_def Let_def)

lemma frame_requests [simp]:
  "o_job (on_event_ignored e s) = o_job s" "o_rec_state (on_event_ignored e s) = o_rec_state s"
  "o_job (snd (mqtt_subscribe_jobs_topics env s)) = o_job s"
  "o_rec_state (snd (mqtt_subscribe_jobs_topics env s)) = o_rec_state s"
  "o_job (snd (mqtt_publish_get_pending env s)) = o_job s"
  "o_rec_state (snd (mqtt_publish_get_pending env s)) = o_rec_state s"
  "o_job (snd (mqtt_publish_describe_job env j s)) = o_job s"
  "o_rec_state (snd (mqtt_publish_describe_job env j s)) = o_rec_state s"
  "o_job (stop_response_timer env s) = o_job s" "o_rec_state (stop_response_timer env s) = o_rec_state s"
  by (simp_all add: on_event_ignored_def mqtt_subscribe_jobs_topics_def mqtt_publish_get_pending_def
      mqtt_publish_describe_job_def publish_request_def stop_response_timer_def Let_def case_prod_beta)

lemma recovery_route_not_post [simp]:
  "fst (recovery_route r) \<noteq> POST_DOWNLOAD" "fst (recovery_route r) \<noteq> JOB_EXECUTION"
  by (simp_all add: recovery_route_def split: error_reason.splits)

lemma frame_errors [simp]:
  "o_job (enter_error_state env r s) = o_job s"
  "o_rec_state (enter_error_state env r s) = fst (recovery_route r)"
  "o_job (enter_error_state_custom env r st a s) = o_job s"
  "o_rec_state (enter_error_state_custom env r st a s) = st"
  by (simp_all add: enter_error_state_def enter_error_state_custom_def post_error_event_def Let_def)

lemma frame_timer [simp]:
  "o_job (start_response_timer env s) = o_job s"
  "o_rec_state (start_response_timer env s) \<in> {o_rec_state s, IDLE}"
  by (simp_all add: start_response_timer_def Let_def case_prod_beta recovery_route_def)

lemma start_timer_not_post [simp]:
  "o_rec_state s \<noteq> POST_DOWNLOAD \<Longrightarrow> o_rec_state (start_response_timer env s) \<noteq> POST_DOWNLOAD"
  "o_rec_state s \<noteq> JOB_EXECUTION \<Longrightarrow> o_rec_state (start_response_timer env s) \<noteq> JOB_EXECUTION"
  using frame_timer(2) [of env s] by auto

text \<open>What matters of the globals and the state they are about to have.\<close>

definition job_ok :: "ota_state \<Rightarrow> ota_sys \<Rightarrow> bool" where
  "job_ok next s \<longleftrightarrow>
     (ji_has_pending_job (o_job s) \<or> next = JOB_EXECUTION \<or> next = POST_DOWNLOAD \<or> o_rec_state s = POST_DOWNLOAD
        \<longrightarrow> ji_filetype_handler (o_job s) \<noteq> None) \<and>
     (o_rec_state s = POST_DOWNLOAD \<longrightarrow> next = ERROR_STATE) \<and> o_rec_state s \<noteq> JOB_EXECUTION"

definition handled_job :: "handled \<Rightarrow> bool" where
  "handled_job h = (case h of (next, _, s) \<Rightarrow> job_ok next s)"

lemma handled_job_simp [simp]: "handled_job (next, free, s) = job_ok next s"
  by (simp add: handled_job_def)

lemma frame_set_ota_data [simp]:
  "ji_filetype_handler (o_job (snd (set_ota_data_from_job_doc env af cu s))) = ji_filetype_handler (o_job s)"
  "ji_has_pending_job (o_job (snd (set_ota_data_from_job_doc env af cu s))) = ji_has_pending_job (o_job s)"
  "o_rec_state (snd (set_ota_data_from_job_doc env af cu s)) = o_rec_state s"
proof -
  have c: "jk (snd (copy_optional env src put t)) = jk t" "jk (snd (copy_field env src put t)) = jk t"
    if "\<And>f t. jk (upd_data f t) = jk t" "\<And>c t. jk (t\<lparr>o_calls := c\<rparr>) = jk t"
    for jk :: "ota_sys \<Rightarrow> 'a" and src put t
    using that by (simp_all add: copy_optional_def copy_field_def make_string_copy_def ask_alloc_def Let_def case_prod_beta
        split: option.splits sum.splits)
  have a: "jk (snd (and_then r f)) = jk (snd r)" if "\<And>t. jk (snd (f t)) = jk t" for jk :: "ota_sys \<Rightarrow> 'a" and r f
    using that by (simp add: and_then_def)
  have s: "jk (snd (set_ota_data_from_job_doc env af cu s)) = jk s"
    if "\<And>f t. jk (upd_data f t) = jk t" "\<And>c t. jk (t\<lparr>o_calls := c\<rparr>) = jk t" for jk :: "ota_sys \<Rightarrow> 'a"
    by (simp add: set_ota_data_from_job_doc_def set_ota_data_fields_def clear_ota_data_def a c that Let_def case_prod_beta)
  show "ji_filetype_handler (o_job (snd (set_ota_data_from_job_doc env af cu s))) = ji_filetype_handler (o_job s)"
    by (rule s) (simp_all add: upd_data_def)
  show "ji_has_pending_job (o_job (snd (set_ota_data_from_job_doc env af cu s))) = ji_has_pending_job (o_job s)"
    by (rule s) (simp_all add: upd_data_def)
  show "o_rec_state (snd (set_ota_data_from_job_doc env af cu s)) = o_rec_state s"
    by (rule s) (simp_all add: upd_data_def)
qed

lemma frame_restore [simp]:
  "ji_filetype_handler (o_job (snd (restore_last_job env j s))) = ji_filetype_handler (o_job s)"
  "ji_has_pending_job (o_job (snd (restore_last_job env j s))) = ji_has_pending_job (o_job s)"
  "o_rec_state (snd (restore_last_job env j s)) = o_rec_state s"
  by (simp_all add: restore_last_job_def clear_job_id_def Let_def case_prod_beta split: option.splits)

lemma transition_job: "job_ok next s \<Longrightarrow> job_ok ERROR_STATE s \<Longrightarrow> handled_job (transition_to env next s)"
  by (auto simp: transition_to_def Let_def case_prod_beta job_ok_def)

lemma forward_job: "job_ok next s \<Longrightarrow> job_ok ERROR_STATE s \<Longrightarrow> handled_job (forward_to env next a s)"
  by (auto simp: forward_to_def Let_def case_prod_beta job_ok_def)

lemma early_handlers_job:
  assumes "job_ok st s" "st \<noteq> ERROR_STATE"
  shows "st = UNINITIALIZED \<Longrightarrow> handled_job (handle_state_uninitialized e s)"
    "st = NETWORK_INIT \<Longrightarrow> handled_job (handle_state_network_init env e s)"
    "st = IDLE \<Longrightarrow> handled_job (handle_state_idle env a e s)"
    "st = JOBS_CHANGED_STATE \<Longrightarrow> handled_job (handle_state_jobs_changed env e s)"
    "st = FETCHING_PENDING_JOBS \<Longrightarrow> handled_job (handle_state_fetching_pending_jobs env e s)"
    "st = WAITING_FOR_PENDING_JOBS \<Longrightarrow> handled_job (handle_state_waiting_for_pending_jobs env a e s)"
    "st = PENDING_JOBS_RECEIVED \<Longrightarrow> handled_job (handle_state_pending_jobs_received env e s)"
    "st = FETCHING_JOB_DOC \<Longrightarrow> handled_job (handle_state_fetching_job_doc env e s)"
    "st = WAITING_FOR_JOB_DOC \<Longrightarrow> handled_job (handle_state_waiting_for_job_doc env a e s)"
proof -
  have rs: "o_rec_state s \<noteq> POST_DOWNLOAD" "o_rec_state s \<noteq> JOB_EXECUTION" and p: "ji_has_pending_job (o_job s) \<longrightarrow> ji_filetype_handler (o_job s) \<noteq> None"
    using assms by (auto simp: job_ok_def)
  have pj: "handled_job (after_job_list env (pending_jobs_to_job_id_queue env msg p1 p2 t))"
    if "o_rec_state t = o_rec_state s" "o_job t = o_job s" for msg p1 p2 t
    using rs that p
    by (auto simp: after_job_list_def pending_jobs_to_job_id_queue_def Let_def case_prod_beta job_ok_def
        intro!: transition_job)

  show "st = NETWORK_INIT \<Longrightarrow> handled_job (handle_state_network_init env e s)"
    using rs p
    by (auto simp: handle_state_network_init_def network_init_to_idle_def Let_def case_prod_beta job_ok_def
        split: option.splits)
  show "st = UNINITIALIZED \<Longrightarrow> handled_job (handle_state_uninitialized e s)"
    "st = IDLE \<Longrightarrow> handled_job (handle_state_idle env a e s)"
    "st = JOBS_CHANGED_STATE \<Longrightarrow> handled_job (handle_state_jobs_changed env e s)"
    "st = FETCHING_PENDING_JOBS \<Longrightarrow> handled_job (handle_state_fetching_pending_jobs env e s)"
    "st = WAITING_FOR_PENDING_JOBS \<Longrightarrow> handled_job (handle_state_waiting_for_pending_jobs env a e s)"
    "st = PENDING_JOBS_RECEIVED \<Longrightarrow> handled_job (handle_state_pending_jobs_received env e s)"
    "st = FETCHING_JOB_DOC \<Longrightarrow> handled_job (handle_state_fetching_job_doc env e s)"
    "st = WAITING_FOR_JOB_DOC \<Longrightarrow> handled_job (handle_state_waiting_for_job_doc env a e s)"
    using rs p pj
    by (auto simp: handle_state_uninitialized_def handle_state_idle_def handle_state_jobs_changed_def
        handle_state_fetching_pending_jobs_def handle_state_waiting_for_pending_jobs_def
        handle_state_pending_jobs_received_def handle_state_fetching_job_doc_def
        handle_state_waiting_for_job_doc_def get_next_job_id_from_queue_def Let_def case_prod_beta job_ok_def
        split: ota_event.splits option.splits intro!: transition_job forward_job)
qed

lemma after_publish_job:
  assumes "job_ok ERROR_STATE (snd r)" "st \<noteq> JOB_EXECUTION" "st = POST_DOWNLOAD \<Longrightarrow> ji_filetype_handler (o_job (snd r)) \<noteq> None"
    "handled_job (f (snd r))"
  shows "handled_job (after_publish env r st a f)"
  using assms by (auto simp: after_publish_def Let_def case_prod_beta job_ok_def)

lemma reboot_check_job:
  assumes "job_ok REBOOT_CHECK s" "o_state s = REBOOT_CHECK"
  shows "handled_job (handle_state_reboot_check env a e s)"
proof -
  have "handled_job (reboot_check_requested env a s)"
    using assms by (auto simp: reboot_check_requested_def reboot_check_outcome_def Let_def case_prod_beta job_ok_def
        split: option.splits intro!: after_publish_job)
  moreover have "handled_job (reboot_check_accepted env s)"
    using assms by (auto simp: reboot_check_accepted_def drop_checked_job_def Let_def job_ok_def
        split: job_status.splits status_details.splits)
  moreover have "handled_job (reboot_check_rejected e s)"
    using assms by (auto simp: reboot_check_rejected_def drop_checked_job_def Let_def job_ok_def)
  ultimately show ?thesis
    using assms
    by (auto simp: handle_state_reboot_check_def report_final_status_event_def job_ok_def
        split: ota_event.splits option.splits intro!: after_publish_job)
qed

text \<open>What a document does to the job: the filetype handler stays or becomes a selected one, and a job only
becomes pending with a handler.\<close>

definition doc_job :: "ota_sys \<Rightarrow> ota_sys \<Rightarrow> bool" where
  "doc_job s t \<longleftrightarrow> o_rec_state t = o_rec_state s \<and>
     (ji_filetype_handler (o_job s) \<noteq> None \<longrightarrow> ji_filetype_handler (o_job t) \<noteq> None) \<and>
     (ji_has_pending_job (o_job t) \<longrightarrow> ji_has_pending_job (o_job s) \<or> ji_filetype_handler (o_job t) \<noteq> None)"

lemma adopt_job_frame:
  "ji_filetype_handler (o_job (snd (adopt_job env j doc cu v s))) = ji_filetype_handler (o_job s)"
  "o_rec_state (snd (adopt_job env j doc cu v s)) = o_rec_state s"
  by (simp_all add: adopt_job_def window_open_def Let_def case_prod_beta split: option.splits)

lemma select_filetype_frame:
  "ji_has_pending_job (o_job (snd (select_filetype env cu s))) = ji_has_pending_job (o_job s)"
  "o_rec_state (snd (select_filetype env cu s)) = o_rec_state s"
  "fst (select_filetype env cu s) = Inr ctx \<Longrightarrow> ji_filetype_handler (o_job (snd (select_filetype env cu s))) = Some ctx"
  "fst (select_filetype env cu s) = Inl r \<Longrightarrow>
     ji_filetype_handler (o_job (snd (select_filetype env cu s))) = ji_filetype_handler (o_job s)"
  by (auto simp: select_filetype_def Let_def split: option.splits if_splits)

lemma check_versions_frame:
  "o_job (snd (check_versions ctx cu s)) = o_job s" "o_rec_state (snd (check_versions ctx cu s)) = o_rec_state s"
  by (auto simp: check_versions_def Let_def case_prod_beta split: option.splits)

lemma judge_job_doc_job: "doc_job s (snd (judge_job_doc env j doc s))"
proof (cases "parse_custom_fields_from_job_doc env doc")
  case (Inr cu)
  note p = this
  show ?thesis
  proof (cases "fst (select_filetype env cu s)")
    case (Inr ctx)
    note sf = select_filetype_frame(1,2) [where env = env and cu = cu and s = s] select_filetype_frame(3) [OF Inr]
    let ?s1 = "snd (select_filetype env cu s)"
    have "doc_job s t" if "ji_filetype_handler (o_job t) = Some ctx" "o_rec_state t = o_rec_state s" for t
      using that by (simp add: doc_job_def)
    then show ?thesis
      using p Inr sf by (auto simp: judge_job_doc_def Let_def case_prod_beta check_versions_frame adopt_job_frame
          split: verdict.splits)
  next
    case (Inl r)
    then show ?thesis
      using p select_filetype_frame(1,2) [where env = env and cu = cu and s = s] select_filetype_frame(4) [OF Inl]
      by (simp add: judge_job_doc_def Let_def case_prod_beta doc_job_def)
  qed
qed (simp add: judge_job_doc_def doc_job_def)

lemma job_doc_end_job: "job_ok JOB_DOC_RECEIVED s \<Longrightarrow> handled_job (job_doc_end env error s)"
  by (auto simp: job_doc_end_def job_ok_def intro!: transition_job)

lemma reject_job_doc_job:
  assumes "job_ok JOB_DOC_RECEIVED s" shows "handled_job (reject_job_doc env a j v r s)"
proof -
  have "job_ok JOB_DOC_RECEIVED t" if "o_job t = o_job s" "o_rec_state t = o_rec_state s" for t
    using assms that by (simp add: job_ok_def)
  then show ?thesis
    using assms by (auto simp: reject_job_doc_def mqtt_publish_update_job_status_def Let_def case_prod_beta
        intro!: job_doc_end_job) (simp add: job_ok_def)
qed

lemma job_doc_received_job:
  assumes "job_ok JOB_DOC_RECEIVED s"
  shows "handled_job (handle_state_job_doc_received env a e s)"
proof -
  have d: "job_ok JOB_DOC_RECEIVED (snd (judge_job_doc env j doc t))" if "job_ok JOB_DOC_RECEIVED t" for j doc t
    using judge_job_doc_job [of t env j doc] that by (auto simp: doc_job_def job_ok_def)
  have b: "job_ok JOB_DOC_RECEIVED (retry_reset_backoff s)" using assms by (simp add: job_ok_def)
  have "handled_job (handle_job_doc env a msg (retry_reset_backoff s))" for msg
    using b d [OF b]
    by (auto simp: handle_job_doc_def Let_def case_prod_beta job_doc_end_job reject_job_doc_job
        split: option.splits outcome.splits verdict.splits) (simp_all add: job_ok_def)
  moreover have "job_ok JOB_DOC_RECEIVED (on_event_ignored e s)" using assms by (simp add: job_ok_def)
  ultimately show ?thesis
    using b by (auto simp: handle_state_job_doc_received_def job_doc_end_job split: option.splits)
qed

lemma report_status_frame [simp]:
  "ji_filetype_handler (o_job (snd (esp_rmaker_ota_report_status env status d s))) = ji_filetype_handler (o_job s)"
  "ji_has_pending_job (o_job (snd (esp_rmaker_ota_report_status env status d s))) = ji_has_pending_job (o_job s)"
  "o_rec_state (snd (esp_rmaker_ota_report_status env status d s)) = o_rec_state s"
  by (simp_all add: esp_rmaker_ota_report_status_def split: ota_status.splits)

lemma job_execution_job:
  assumes "job_ok JOB_EXECUTION s"
  shows "handled_job (handle_state_job_execution env a e s)"
proof -
  have h: "ji_filetype_handler (o_job s) \<noteq> None" "o_rec_state s \<noteq> POST_DOWNLOAD" "o_rec_state s \<noteq> JOB_EXECUTION"
    using assms by (auto simp: job_ok_def)
  have q: "handled_job (queue_failed_status env r t)"
    if "ji_filetype_handler (o_job t) = ji_filetype_handler (o_job s)" "o_rec_state t = o_rec_state s" for r t
    using h that by (simp add: queue_failed_status_def Let_def case_prod_beta job_ok_def)
  have "handled_job (start_job env s)"
    using h by (auto simp: start_job_def Let_def case_prod_beta job_ok_def intro!: q)
  moreover have "handled_job (download_succeeded env a s)"
    using h by (auto simp: download_succeeded_def Let_def case_prod_beta job_ok_def intro!: forward_job)
  moreover have "handled_job (download_progress env e s)" "handled_job (queue_final_status e s)"
    using h by (auto simp: download_progress_def queue_final_status_def job_ok_def split: option.splits content.splits)
  ultimately show ?thesis
    using h q by (cases "failed_reason (ed_event e)"; cases "ed_event e")
      (simp_all add: handle_state_job_execution_def job_ok_def)
qed

lemma post_download_job:
  assumes "job_ok POST_DOWNLOAD s" "o_state s = POST_DOWNLOAD"
  shows "handled_job (handle_state_post_download env a e s)"
proof -
  have h: "ji_filetype_handler (o_job s) \<noteq> None" "o_rec_state s \<noteq> POST_DOWNLOAD" "o_rec_state s \<noteq> JOB_EXECUTION"
    using assms by (auto simp: job_ok_def)
  have ev: "handled_job (post_download_event env a e t)"
    if t: "ji_filetype_handler (o_job t) = ji_filetype_handler (o_job s)" "o_rec_state t = o_rec_state s" for t
  proof -
    have sv: "o_job (set_version env t) = o_job t" "o_rec_state (set_version env t) = o_rec_state t"
      by (simp_all add: set_version_def split: option.splits)
    have "handled_job (post_download_succeeded env e t)"
      using h t sv by (simp add: post_download_succeeded_def Let_def job_ok_def)
    moreover have "handled_job (post_download_accepted env t)"
      using h t by (simp add: post_download_accepted_def Let_def case_prod_beta job_ok_def zero_job_def)
    moreover have "handled_job (report_final_status_event env IDLE a e
        (\<lambda>_ t. (POST_DOWNLOAD, True, upd_job (\<lambda>j. j\<lparr>ji_final_status_reported := True\<rparr>) t)) t)"
      using h t by (auto simp: report_final_status_event_def job_ok_def split: option.splits intro!: after_publish_job)
    ultimately show ?thesis
      using h t by (simp add: post_download_event_def job_ok_def split: ota_event.splits)
  qed
  show ?thesis
    using h by (auto simp: handle_state_post_download_def job_ok_def intro!: after_publish_job ev)
qed

lemma error_state_job:
  assumes "job_ok ERROR_STATE s"
  shows "handled_job (handle_state_error env e s)"
proof -
  have reset: "o_job (recovery_reset_context t) = o_job t" "o_rec_state (recovery_reset_context t) = UNINITIALIZED" for t
    by (simp_all add: recovery_reset_context_def Let_def split: option.splits)
  have "handled_job (recovery_requested env s)"
    using assms by (auto simp: recovery_requested_def Let_def case_prod_beta job_ok_def reset split: option.splits)
  then show ?thesis
    using assms by (simp add: handle_state_error_def job_ok_def split: ota_event.splits)
qed

section \<open>Handlers leave the initialisation flag alone\<close>

lemma init_flag_calls [simp]:
  "o_state_initialized (emit x s) = o_state_initialized s"
  "o_state_initialized (fault s) = o_state_initialized s"
  "o_state_initialized (snd (ask_err env s)) = o_state_initialized s"
  "o_state_initialized (snd (ask_alloc env s)) = o_state_initialized s"
  "o_state_initialized (snd (ask f s)) = o_state_initialized s"
  "o_state_initialized (snd (call env x s)) = o_state_initialized s"
  "o_state_initialized (upd_job g s) = o_state_initialized s"
  "o_state_initialized (upd_data h s) = o_state_initialized s"
  "o_state_initialized (retry_reset_backoff s) = o_state_initialized s"
  "o_state_initialized (snd (error_backoff_retry env s)) = o_state_initialized s"
  "o_state_initialized (on_event_ignored e s) = o_state_initialized s"
  by (simp_all add: emit_def fault_def ask_err_def ask_alloc_def ask_def call_def upd_job_def upd_data_def
      retry_reset_backoff_def error_backoff_retry_def on_event_ignored_def Let_def)

lemma init_flag_publish [simp]:
  "o_state_initialized (enter_error_state env r s) = o_state_initialized s"
  "o_state_initialized (enter_error_state_custom env r st a s) = o_state_initialized s"
  "o_state_initialized (snd (mqtt_subscribe_jobs_topics env s)) = o_state_initialized s"
  "o_state_initialized (snd (mqtt_publish_get_pending env s)) = o_state_initialized s"
  "o_state_initialized (snd (mqtt_publish_describe_job env j s)) = o_state_initialized s"
  "o_state_initialized (snd (snd (mqtt_publish_update_job_status env j jst d s))) = o_state_initialized s"
  "o_state_initialized (snd (ota_jobs_mqtt_publish_update_job_status env jst d s)) = o_state_initialized s"
  "o_state_initialized (stop_response_timer env s) = o_state_initialized s"
  "o_state_initialized (set_version env s) = o_state_initialized s"
  by (simp_all add: enter_error_state_def enter_error_state_custom_def post_error_event_def
      mqtt_subscribe_jobs_topics_def mqtt_publish_get_pending_def mqtt_publish_describe_job_def
      publish_request_def mqtt_publish_update_job_status_def ota_jobs_mqtt_publish_update_job_status_def
      stop_response_timer_def set_version_def Let_def case_prod_beta split: option.splits)

lemma init_flag_job [simp]:
  "o_state_initialized (start_response_timer env s) = o_state_initialized s"
  "o_state_initialized (snd (mqtt_publish_final_status env d s)) = o_state_initialized s"
  "o_state_initialized (snd (esp_rmaker_ota_report_status env ost d s)) = o_state_initialized s"
  "o_state_initialized (snd (make_string_copy env src s)) = o_state_initialized s"
  "o_state_initialized (snd (copy_field env src put s)) = o_state_initialized s"
  "o_state_initialized (snd (copy_optional env src put s)) = o_state_initialized s"
  "(\<And>t. o_state_initialized (snd (f t)) = o_state_initialized t) \<Longrightarrow>
     o_state_initialized (snd (and_then r f)) = o_state_initialized (snd r)"
  by (simp_all add: start_response_timer_def mqtt_publish_final_status_def esp_rmaker_ota_report_status_def
      make_string_copy_def copy_field_def copy_optional_def and_then_def Let_def case_prod_beta
      split: option.splits sum.splits status_details.splits ota_status.splits)

lemma init_flag_doc [simp]:
  "o_state_initialized (snd (set_ota_data_from_job_doc env af cu s)) = o_state_initialized s"
  "o_state_initialized (snd (pending_jobs_to_job_id_queue env msg p q s)) = o_state_initialized s"
  "o_state_initialized (snd (get_next_job_id_from_queue s)) = o_state_initialized s"
  "o_state_initialized (snd (select_filetype env cu s)) = o_state_initialized s"
  "o_state_initialized (snd (window_open env cu s)) = o_state_initialized s"
  "o_state_initialized (snd (check_versions ctx cu s)) = o_state_initialized s"
  "o_state_initialized (snd (restore_last_job env j s)) = o_state_initialized s"
  "o_state_initialized (snd (reboot_check_outcome env b s)) = o_state_initialized s"
  "o_state_initialized (drop_checked_job s) = o_state_initialized s"
  "o_state_initialized (recovery_reset_context s) = o_state_initialized s"
  by (auto simp: clear_ota_data_def set_ota_data_from_job_doc_def set_ota_data_fields_def
      pending_jobs_to_job_id_queue_def get_next_job_id_from_queue_def select_filetype_def window_open_def
      check_versions_def restore_last_job_def clear_job_id_def reboot_check_outcome_def drop_checked_job_def
      recovery_reset_context_def Let_def case_prod_beta split: option.splits)

lemma init_flag_judge [simp]:
  "o_state_initialized (snd (adopt_job env j doc cu v s)) = o_state_initialized s"
  "o_state_initialized (snd (judge_job_doc env j doc s)) = o_state_initialized s"
  by (auto simp: adopt_job_def judge_job_doc_def Let_def case_prod_beta
      split: option.splits sum.splits verdict.splits)

definition handled_sys :: "handled \<Rightarrow> ota_sys" where
  "handled_sys h = snd (snd h)"

lemma handled_sys_simp [simp]: "handled_sys (n, f, t) = t"
  by (simp add: handled_sys_def)

lemma init_flag_steps [simp]:
  "o_state_initialized (handled_sys (transition_to env next s)) = o_state_initialized s"
  "o_state_initialized (handled_sys (forward_to env next a s)) = o_state_initialized s"
  "o_state_initialized (handled_sys (after_job_list env rl)) = o_state_initialized (snd rl)"
  "o_state_initialized (handled_sys (job_doc_end env error s)) = o_state_initialized s"
  "o_state_initialized (handled_sys (queue_failed_status env reason s)) = o_state_initialized s"
  "(\<And>t. o_state_initialized (handled_sys (f t)) = o_state_initialized t) \<Longrightarrow>
     o_state_initialized (handled_sys (after_publish env r st a f)) = o_state_initialized (snd r)"
  by (simp_all add: transition_to_def forward_to_def after_job_list_def job_doc_end_def
      queue_failed_status_def after_publish_def Let_def case_prod_beta)

lemma init_flag_reject [simp]:
  "o_state_initialized (handled_sys (reject_job_doc env a j v reason s)) = o_state_initialized s"
  "(\<And>d t. o_state_initialized (handled_sys (f d t)) = o_state_initialized t) \<Longrightarrow>
     o_state_initialized (handled_sys (report_final_status_event env st a e f s)) = o_state_initialized s"
  by (simp_all add: reject_job_doc_def report_final_status_event_def Let_def case_prod_beta split: option.splits)

lemma init_flag_early:
  "o_state_initialized (handled_sys (handle_state_uninitialized e s)) = o_state_initialized s"
  "o_state_initialized (handled_sys (handle_state_network_init env e s)) = o_state_initialized s"
  "o_state_initialized (handled_sys (handle_state_idle env a e s)) = o_state_initialized s"
  "o_state_initialized (handled_sys (handle_state_jobs_changed env e s)) = o_state_initialized s"
  "o_state_initialized (handled_sys (handle_state_fetching_pending_jobs env e s)) = o_state_initialized s"
  "o_state_initialized (handled_sys (handle_state_waiting_for_pending_jobs env a e s)) = o_state_initialized s"
  "o_state_initialized (handled_sys (handle_state_pending_jobs_received env e s)) = o_state_initialized s"
  "o_state_initialized (handled_sys (handle_state_fetching_job_doc env e s)) = o_state_initialized s"
  "o_state_initialized (handled_sys (handle_state_waiting_for_job_doc env a e s)) = o_state_initialized s"
  by (simp_all add: handle_state_uninitialized_def handle_state_network_init_def network_init_to_idle_def
      handle_state_idle_def handle_state_jobs_changed_def handle_state_fetching_pending_jobs_def
      handle_state_waiting_for_pending_jobs_def handle_state_pending_jobs_received_def
      handle_state_fetching_job_doc_def handle_state_waiting_for_job_doc_def Let_def case_prod_beta
      split: ota_event.splits option.splits)

lemma init_flag_handle_doc:
  "o_state_initialized (handled_sys (handle_job_doc env a msg s)) = o_state_initialized s"
  by (auto simp: handle_job_doc_def Let_def case_prod_beta split: option.splits outcome.splits verdict.splits)

lemma init_flag_set_version [simp]: "o_state_initialized (set_version env s) = o_state_initialized s"
  by (simp add: set_version_def split: option.splits)

lemma init_flag_post_download [simp]:
  "o_state_initialized (handled_sys (post_download_event env a e s)) = o_state_initialized s"
  by (simp add: post_download_event_def post_download_succeeded_def post_download_accepted_def Let_def
      case_prod_beta split: ota_event.splits)

lemma init_flag_execution:
  "o_state_initialized (handled_sys (start_job env s)) = o_state_initialized s"
  "o_state_initialized (handled_sys (download_progress env e s)) = o_state_initialized s"
  "o_state_initialized (handled_sys (download_succeeded env a s)) = o_state_initialized s"
  "o_state_initialized (handled_sys (queue_final_status e s)) = o_state_initialized s"
  by (auto simp: start_job_def download_progress_def download_succeeded_def queue_final_status_def Let_def
      case_prod_beta split: option.splits content.splits)

lemma init_flag_late:
  "o_state_initialized (handled_sys (handle_state_reboot_check env a e s)) = o_state_initialized s"
  "o_state_initialized (handled_sys (handle_state_job_doc_received env a e s)) = o_state_initialized s"
  "o_state_initialized (handled_sys (handle_state_post_download env a e s)) = o_state_initialized s"
  "o_state_initialized (handled_sys (handle_state_error env e s)) = o_state_initialized s"
proof -
  show "o_state_initialized (handled_sys (handle_state_reboot_check env a e s)) = o_state_initialized s"
    by (simp add: handle_state_reboot_check_def reboot_check_requested_def reboot_check_accepted_def
        reboot_check_rejected_def Let_def case_prod_beta
        split: ota_event.splits job_status.splits status_details.splits)
  show "o_state_initialized (handled_sys (handle_state_job_doc_received env a e s)) = o_state_initialized s"
    by (simp add: handle_state_job_doc_received_def init_flag_handle_doc split: option.splits)
  show "o_state_initialized (handled_sys (handle_state_post_download env a e s)) = o_state_initialized s"
    by (simp add: handle_state_post_download_def)
  show "o_state_initialized (handled_sys (handle_state_error env e s)) = o_state_initialized s"
    by (simp add: handle_state_error_def recovery_requested_def Let_def case_prod_beta
        split: ota_event.splits option.splits)
qed

lemma init_flag_job_execution:
  "o_state_initialized (handled_sys (handle_state_job_execution env a e s)) = o_state_initialized s"
  by (cases "failed_reason (ed_event e)"; cases "ed_event e")
    (simp_all add: handle_state_job_execution_def init_flag_execution)

lemma handle_state_init_flag [simp]:
  "o_state_initialized (handled_sys (handle_state env a e s)) = o_state_initialized s"
  by (simp add: handle_state_def init_flag_early init_flag_late init_flag_job_execution split: ota_state.splits)

section \<open>The invariant of the engine\<close>

definition engine_inv :: "ota_sys \<Rightarrow> bool" where
  "engine_inv s \<longleftrightarrow> mem_ok [] s \<and> job_ok (o_state s) s \<and>
     (\<not> o_state_initialized s \<longrightarrow> \<not> ji_has_pending_job (o_job s) \<and> o_rec_state s \<noteq> POST_DOWNLOAD)"

lemma engine_invI:
  assumes "mem_ok [] s'" "o_state s' = o_state s" "o_job s' = o_job s" "o_rec_state s' = o_rec_state s"
    "o_state_initialized s' = o_state_initialized s" "engine_inv s"
  shows "engine_inv s'"
  using assms by (simp add: engine_inv_def job_ok_def)

lemma handle_state_ok:
  assumes "mem_ok (a # xs) s" "event_ok e" "job_ok (o_state s) s" "versions_fit env"
  shows "handled_ok a xs (handle_state env a e s)"
proof -
  have h: "o_state s = POST_DOWNLOAD \<Longrightarrow> ji_filetype_handler (o_job s) \<noteq> None"
    using assms(3) by (simp add: job_ok_def)
  show ?thesis
    by (cases "o_state s") (simp_all add: handle_state_def early_handlers_ok [OF assms(1,2)]
        reboot_check_ok [OF assms(1,2)] job_doc_received_ok [OF assms(1,4)] job_execution_ok [OF assms(1,2)]
        post_download_ok [OF assms(1,2) h] error_state_ok [OF assms(1,2)])
qed

lemma handle_state_job:
  assumes "job_ok (o_state s) s"
  shows "handled_job (handle_state env a e s)"
proof (cases "o_state s = ERROR_STATE")
  case True
  then show ?thesis using assms error_state_job [of s env e] by (simp add: handle_state_def)
next
  case False
  note early = early_handlers_job [OF assms False]
  show ?thesis
    using False reboot_check_job [of s env a e] job_doc_received_job [of s env a e]
      job_execution_job [of s env a e] post_download_job [of s env a e] assms
    by (cases "o_state s") (simp_all add: handle_state_def early)
qed

text \<open>How a run ends: the next state is stored and the event freed when its handler asks for it.\<close>

lemma handled_end_inv:
  assumes "handled_ok a [] h" "handled_job h" "o_state_initialized (handled_sys h)"
  shows "engine_inv (case h of (next, free, s) \<Rightarrow> if free then free_event_data (Some a) (s\<lparr>o_state := next\<rparr>) else s\<lparr>o_state := next\<rparr>)"
proof -
  obtain n f t where h: "h = (n, f, t)" by (cases h)
  let ?t = "t\<lparr>o_state := n\<rparr>"
  have j: "job_ok n t" "o_state_initialized t" using assms h by simp_all
  show ?thesis
  proof (cases f)
    case True
    have "mem_ok [] (free_event_data (Some a) ?t)"
      by (rule free_event_data_ok) (use assms(1) h True in simp)
    then show ?thesis using h True j by (simp add: engine_inv_def job_ok_def)
  next
    case False
    then show ?thesis using h assms(1) j by (simp add: engine_inv_def job_ok_def)
  qed
qed

lemma same_state [simp]: "o_state s = st \<Longrightarrow> s\<lparr>o_state := st\<rparr> = s"
  by (cases s) simp

lemma handle_state_error_next: "fst (handle_state_error env e s) = ERROR_STATE \<or> ed_event e = RECOVERY_REQUESTED"
  by (simp add: handle_state_error_def split: ota_event.splits)

lemma job_ok_error: "job_ok st s \<Longrightarrow> job_ok ERROR_STATE s"
  by (auto simp: job_ok_def)

lemma handle_state_error_keeps_state:
  "ed_event e = ERROR_OCCURRED \<Longrightarrow> o_state (handled_sys (handle_state_error env e s)) = o_state s"
  by (simp add: handle_state_error_def esp_rmaker_ota_report_status_def ota_jobs_mqtt_publish_update_job_status_def
      mqtt_publish_update_job_status_def upd_job_def call_def ask_def ask_err_def emit_def Let_def case_prod_beta
      split: option.splits)

lemma run_once_inv:
  assumes inv: "engine_inv s" and a: "o_wq s = a # w" and v: "versions_fit env"
  shows "engine_inv (ota_job_state_run_once env a (s\<lparr>o_wq := w\<rparr>))"
proof -
  let ?s = "s\<lparr>o_wq := w\<rparr>"
  have m: "mem_ok [a] ?s" using inv a by (simp add: engine_inv_def mem_ok_from_wq)
  have j: "job_ok (o_state s) ?s" using inv by (simp add: engine_inv_def job_ok_def)
  have ev: "event_live ?s a" "event_ok (event_at ?s a)" using mem_ok_live [OF m, of a] by simp_all
  show ?thesis
  proof (cases "pre_init_event_queue_check_init_flag ?s")
    case False
    have "mem_ok [] (free_event_data (Some a) ?s)" by (rule free_event_data_ok [OF m])
    then have "engine_inv (free_event_data (Some a) ?s)" using inv by (rule_tac engine_invI [OF _ _ _ _ _ inv]) simp_all
    then show ?thesis using False by (simp add: ota_job_state_run_once_def)
  next
    case True
    then have i: "o_state_initialized s" by (simp add: pre_init_event_queue_check_init_flag_def)
    show ?thesis
    proof (cases "ed_event (event_at ?s a) = ERROR_OCCURRED")
      case e: True
      let ?h = "handle_state_error env (event_at ?s a) (?s\<lparr>o_state := ERROR_STATE\<rparr>)"
      have "handled_ok a [] ?h" by (rule error_state_ok) (use m ev in simp_all)
      moreover have "handled_job ?h"
        by (rule error_state_job) (use job_ok_error [OF j] in \<open>simp add: job_ok_def\<close>)
      moreover have "o_state_initialized (handled_sys ?h)" using i by (simp add: init_flag_late)
      ultimately have "engine_inv (case ?h of (next, free, s) \<Rightarrow>
          if free then free_event_data (Some a) (s\<lparr>o_state := next\<rparr>) else s\<lparr>o_state := next\<rparr>)"
        by (rule handled_end_inv)
      moreover have "fst ?h = ERROR_STATE" "o_state (handled_sys ?h) = ERROR_STATE"
        using handle_state_error_next [of env "event_at ?s a" "?s\<lparr>o_state := ERROR_STATE\<rparr>"]
          handle_state_error_keeps_state [OF e, of env "?s\<lparr>o_state := ERROR_STATE\<rparr>"] e by auto
      ultimately show ?thesis
        using True ev(1) e by (cases ?h) (auto simp: ota_job_state_run_once_def Let_def)
    next
      case e: False
      let ?h = "handle_state env a (event_at ?s a) ?s"
      have "handled_ok a [] ?h" by (rule handle_state_ok) (use m ev j v in simp_all)
      moreover have "handled_job ?h" by (rule handle_state_job) (use j in simp)
      moreover have "o_state_initialized (handled_sys ?h)" using i by simp
      ultimately have "engine_inv (case ?h of (next, free, s) \<Rightarrow>
          if free then free_event_data (Some a) (s\<lparr>o_state := next\<rparr>) else s\<lparr>o_state := next\<rparr>)"
        by (rule handled_end_inv)
      then show ?thesis
        using True ev(1) e by (cases ?h) (simp add: ota_job_state_run_once_def Let_def)
    qed
  qed
qed

section \<open>The steps keep the invariant\<close>

lemma engine_inv_frame:
  assumes "engine_inv s" "mem_ok [] s'" "o_state s' = o_state s" "o_state_initialized s' = o_state_initialized s"
    "ji_has_pending_job (o_job s') = ji_has_pending_job (o_job s)"
    "ji_filetype_handler (o_job s') = ji_filetype_handler (o_job s)" "o_rec_state s' \<in> {o_rec_state s, IDLE}"
  shows "engine_inv s'"
proof -
  have r: "o_rec_state s' = o_rec_state s \<or> o_rec_state s' = IDLE" using assms(7) by simp
  have "job_ok (o_state s) s" using assms(1) by (simp add: engine_inv_def)
  then have "job_ok (o_state s') s'" using r assms(3,5,6) by (elim disjE) (simp_all add: job_ok_def)
  moreover have "\<not> o_state_initialized s' \<longrightarrow> \<not> ji_has_pending_job (o_job s') \<and> o_rec_state s' \<noteq> POST_DOWNLOAD"
    using assms(1,4,5) r by (auto simp: engine_inv_def)
  ultimately show ?thesis using assms(2) by (simp add: engine_inv_def)
qed

lemma engine_inv_mem: "engine_inv s \<Longrightarrow> mem_ok [] s"
  by (simp add: engine_inv_def)

lemma post_event_inv: "engine_inv s \<Longrightarrow> event_ok e \<Longrightarrow> engine_inv (snd (ota_job_state_post_event env e s))"
  by (frule engine_inv_mem, erule engine_inv_frame) (simp_all add: engine_inv_mem post_event_ok)

lemma engine_inv_flags [simp]:
  "engine_inv (s\<lparr>o_calls := x1\<rparr>) = engine_inv s" "engine_inv (s\<lparr>o_error_retry := b\<rparr>) = engine_inv s"
  "engine_inv (s\<lparr>o_sub_retry := b\<rparr>) = engine_inv s" "engine_inv (s\<lparr>o_terminal_retry := b\<rparr>) = engine_inv s"
  "engine_inv (s\<lparr>o_sub_work := n\<rparr>) = engine_inv s" "engine_inv (s\<lparr>o_timer_handle := b\<rparr>) = engine_inv s"
  "engine_inv (s\<lparr>o_subscribed := b\<rparr>) = engine_inv s" "engine_inv (s\<lparr>o_sub_intended := b\<rparr>) = engine_inv s"
  "engine_inv (s\<lparr>o_log := l\<rparr>) = engine_inv s"
  by (simp_all add: engine_inv_def job_ok_def)

lemma engine_inv_calls [simp]:
  "engine_inv (emit x s) = engine_inv s" "engine_inv (snd (ask_err env s)) = engine_inv s"
  "engine_inv (snd (ask_alloc env s)) = engine_inv s" "engine_inv (snd (ask f s)) = engine_inv s"
  "engine_inv (snd (call env x s)) = engine_inv s"
  "engine_inv (snd (error_backoff_retry env s)) = engine_inv s"
  "engine_inv (snd (sub_backoff_retry env s)) = engine_inv s"
  "engine_inv (snd (terminal_backoff_retry env s)) = engine_inv s"
  "engine_inv (snd (mqtt_subscribe_jobs_topics env s)) = engine_inv s"
  by (simp_all add: emit_def ask_err_def ask_alloc_def ask_def call_def error_backoff_retry_def
      sub_backoff_retry_def terminal_backoff_retry_def mqtt_subscribe_jobs_topics_def Let_def)

lemma recover_inv: "engine_inv s \<Longrightarrow> engine_inv (snd (ota_job_state_recover env s))"
  by (simp add: ota_job_state_recover_def post_event_inv)

lemma error_retry_inv: "engine_inv s \<Longrightarrow> engine_inv (retry_with_backoff_task env s)"
  by (simp add: retry_with_backoff_task_def Let_def case_prod_beta recover_inv)

lemma enter_error_frame:
  "o_state (enter_error_state env r s) = o_state s"
  "o_state_initialized (enter_error_state env r s) = o_state_initialized s"
  by (simp_all add: enter_error_state_def post_error_event_def Let_def error_backoff_retry_def ask_err_def emit_def)

lemma enter_error_inv: "engine_inv s \<Longrightarrow> engine_inv (enter_error_state env RETRY_WITH_BACKOFF s)"
  by (frule engine_inv_mem, erule engine_inv_frame)
    (simp_all add: enter_error_state_ok enter_error_frame, simp add: recovery_route_def)


lemma publish_update_state [simp]:
  "o_state (snd (ota_jobs_mqtt_publish_update_job_status env st d s)) = o_state s"
  by (simp add: ota_jobs_mqtt_publish_update_job_status_def mqtt_publish_update_job_status_def upd_job_def
      ask_def call_def ask_err_def emit_def Let_def split: option.splits)

lemma report_inv: "engine_inv s \<Longrightarrow> engine_inv (snd (esp_rmaker_ota_report_status env status d s))"
  by (frule engine_inv_mem, erule engine_inv_frame)
    (simp_all add: engine_inv_mem, simp_all add: esp_rmaker_ota_report_status_def emit_def split: ota_status.splits)

lemma sub_retry_inv:
  "engine_inv s \<Longrightarrow> engine_inv (sub_retry_sched_cb env s)"
  "engine_inv s \<Longrightarrow> engine_inv (sub_retry_work env s)"
  by (simp_all add: sub_retry_sched_cb_def sub_retry_work_def Let_def case_prod_beta)

lemma mqtt_event_inv: "engine_inv s \<Longrightarrow> engine_inv (on_rmaker_mqtt_event env ev s)"
  by (cases ev) (simp_all add: on_rmaker_mqtt_event_def ota_job_state_fetch_def Let_def case_prod_beta
      post_event_inv enter_error_inv)

lemma final_reported_inv:
  "engine_inv s \<Longrightarrow> engine_inv (upd_job (\<lambda>j. j\<lparr>ji_final_status_reported := True\<rparr>) s)"
  by (frule engine_inv_mem, erule engine_inv_frame) (simp_all add: engine_inv_mem, simp_all add: upd_job_def)

lemma reject_event_ok [simp]: "event_ok ((plain_event UPDATE_REJECTED)\<lparr>ed_fixed := b\<rparr>)"
  by (simp add: event_ok_def plain_event_def)

lemma message_inv: "engine_inv s \<Longrightarrow> engine_inv (mqtt_unified_callback env topic msg response s)"
  by (simp add: mqtt_unified_callback_def mqtt_on_update_accepted_def mqtt_on_update_rejected_def Let_def
      post_event_inv final_reported_inv split: jobs_topic.splits option.splits)

lemma terminal_event_ok: "terminal_event ev \<Longrightarrow> event_ok \<lparr>ed_event = ev, ed_payload = None, ed_fixed = b\<rparr>"
  by (auto simp: terminal_event_def event_ok_def failed_reason_def)

lemma terminal_inv:
  assumes "engine_inv s" "terminal_event ev"
  shows "engine_inv (snd (ota_job_state_post_terminal_event env \<lparr>ed_event = ev, ed_payload = None, ed_fixed = b\<rparr> s))"
proof -
  let ?e = "\<lparr>ed_event = ev, ed_payload = None, ed_fixed = b\<rparr>"
  note e = terminal_event_ok [OF assms(2), of b]
  have p: "engine_inv (snd (ota_job_state_post_event env ?e s))" by (rule post_event_inv [OF assms(1) e])
  then have "engine_inv (snd (ota_job_state_post_event env ?e s)\<lparr>o_terminal_pending := ?e\<rparr>)"
    by (rule engine_inv_frame) (use p e in \<open>simp_all add: engine_inv_mem mem_ok_stash\<close>)
  with p show ?thesis by (simp add: ota_job_state_post_terminal_event_def Let_def case_prod_beta)
qed

lemma terminal_retry_inv:
  assumes "engine_inv s" shows "engine_inv (terminal_event_repost_task env s)"
proof -
  have "event_ok (o_terminal_pending s)" using assms by (simp add: engine_inv_def mem_ok_def stash_ok_def)
  then show ?thesis
    using assms by (simp add: terminal_event_repost_task_def Let_def case_prod_beta post_event_inv)
qed

lemma outer_enqueue_all: "outer (snd (enqueue_all env as s)) = outer s"
  by (induction as arbitrary: s) (simp_all add: Let_def case_prod_beta outer_enqueue_ref)

lemma pre_enqueue_all_frame [simp]:
  "o_job (snd (pre_init_event_queue_enqueue_all env s)) = o_job s"
  "o_state (snd (pre_init_event_queue_enqueue_all env s)) = o_state s"
  "o_rec_state (snd (pre_init_event_queue_enqueue_all env s)) = o_rec_state s"
  using outer_fields [OF outer_enqueue_all [of env "o_pre_queue s" "s\<lparr>o_pre_queue := []\<rparr>"]]
  by (simp_all add: pre_init_event_queue_enqueue_all_def Let_def case_prod_beta)

lemma init_services_frame [simp]:
  "mem_ok xs (snd (init_services env s)) = mem_ok xs s"
  "engine_inv (snd (init_services env s)) = engine_inv s"
  "o_job (snd (init_services env s)) = o_job s"
  "o_rec_state (snd (init_services env s)) = o_rec_state s"
  "o_state_initialized (snd (init_services env s)) = o_state_initialized s"
  by (simp_all add: init_services_def and_then_def Let_def case_prod_beta)

lemma init_inv:
  assumes "engine_inv s" shows "engine_inv (snd (ota_job_state_init env config s))"
proof -
  note i = assms [unfolded engine_inv_def job_ok_def]
  have "engine_inv (snd (enqueue_transition_event env s2)) \<and>
        engine_inv (snd (pre_init_event_queue_enqueue_all env (snd (enqueue_transition_event env s2))))"
    if "mem_ok [] s2" "o_state s2 = NETWORK_INIT" "\<not> ji_has_pending_job (o_job s2)"
      "o_rec_state s2 \<noteq> POST_DOWNLOAD" "o_rec_state s2 \<noteq> JOB_EXECUTION" for s2
    using that by (simp add: engine_inv_def job_ok_def enqueue_transition_event_ok pre_init_enqueue_all_ok)
  then show ?thesis
    using assms i by (auto simp: ota_job_state_init_def Let_def case_prod_beta upd_job_def)
qed

theorem engine_step_inv:
  assumes "ota_step env s s'" "engine_inv s" "versions_fit env"
  shows "engine_inv s'"
  using assms(1,2)
proof (cases rule: ota_step.cases)
  case (run a w)
  then show ?thesis using run_once_inv [OF assms(2) run(2) assms(3)] by simp
next
  case (progress msg)
  then show ?thesis using assms(2) by (simp add: post_event_inv text_event_def event_ok_def)
qed (simp_all add: init_inv post_event_inv recover_inv report_inv terminal_inv terminal_retry_inv error_retry_inv
    sub_retry_inv message_inv mqtt_event_inv ota_job_state_fetch_def ota_job_state_reboot_check_def
    esp_rmaker_ota_report_final_status_def timeout_callback_def)

lemma boot_inv:
  assumes "ota_job_critical_init env boot_sys = (ERR_OK, s)"
  shows "engine_inv s"
  using assms
  by (auto simp: ota_job_critical_init_def event_pool_init_def pre_init_event_queue_init_def boot_sys_def
      ask_alloc_def Let_def engine_inv_def mem_ok_def job_ok_def stash_ok_def owned_def zero_job_def
      plain_event_def zero_event_def event_ok_def OTA_JOB_EVENT_POOL_SIZE_def split: if_splits)

lemma reachable_inv: "ota_reachable env s \<Longrightarrow> versions_fit env \<Longrightarrow> engine_inv s"
  by (induction rule: ota_reachable.induct) (auto simp: boot_inv intro: engine_step_inv)

section \<open>Event objects are safe\<close>


lemma sample_versions_fit: "versions_fit sample_env"
  by (auto simp: versions_fit_def sample_env_def sample_search_def execution_version_to_int32_def digit_val_def)

definition sample_boot :: ota_sys where
  "sample_boot = snd (ota_job_critical_init sample_env boot_sys)"

lemma sample_boot_reachable: "ota_reachable sample_env sample_boot"
proof (rule ota_reachable.start)
  have "fst (ota_job_critical_init sample_env boot_sys) = ERR_OK"
    by (simp add: ota_job_critical_init_def event_pool_init_def pre_init_event_queue_init_def ask_alloc_def
        sample_env_def boot_sys_def)
  then show "ota_job_critical_init sample_env boot_sys = (ERR_OK, sample_boot)"
    unfolding sample_boot_def by (metis prod.collapse)
qed


end
