(* ===== verification/Ota_Recovery.thy ===== *)
theory Ota_Recovery
  imports Ota_Memory
begin

text \<open>What the OTA engine does over several tasks of the work queue: it recovers from transient errors, it
keeps the order of the events it was sent, and the cases in which it cannot get on.\<close>

lemma plain_event_sel [simp]: "ed_event (plain_event e) = e" "ed_payload (plain_event e) = None"
  by (simp_all add: plain_event_def)

section \<open>The queued events\<close>

text \<open>The events in the work queue, in order.\<close>

definition queued :: "ota_sys \<Rightarrow> event_data list" where
  "queued s = map (event_at s) (o_wq s)"

text \<open>From now on no call to the outside fails.\<close>

definition calm :: "ota_env \<Rightarrow> ota_sys \<Rightarrow> bool" where
  "calm env s \<longleftrightarrow> (\<forall>n \<ge> o_calls s. e_err env n = ERR_OK \<and> e_alloc env n)"

lemma calm_later: "calm env s \<Longrightarrow> o_calls s \<le> o_calls s' \<Longrightarrow> calm env s'"
  by (auto simp: calm_def)

lemma calm_now: "calm env s \<Longrightarrow> o_calls s \<le> n \<Longrightarrow> e_err env n = ERR_OK" "calm env s \<Longrightarrow> o_calls s \<le> n \<Longrightarrow> e_alloc env n"
  by (auto simp: calm_def)

lemma event_at_cong: "o_slots s' = o_slots s \<Longrightarrow> o_heap s' = o_heap s \<Longrightarrow> event_at s' = event_at s"
  by (auto simp: event_at_def fun_eq_iff split: event_ref.splits)

lemma event_at_update [simp]:
  "event_at (s\<lparr>o_calls := c\<rparr>) = event_at s" "event_at (s\<lparr>o_wq := w\<rparr>) = event_at s"
  "event_at (s\<lparr>o_state := st\<rparr>) = event_at s"
  by (rule event_at_cong; simp)+

lemma queued_cong: "o_wq s' = o_wq s \<Longrightarrow> o_slots s' = o_slots s \<Longrightarrow> o_heap s' = o_heap s \<Longrightarrow> queued s' = queued s"
  using event_at_cong [of s' s] by (simp add: queued_def)

lemma copy_event_data_queued:
  assumes m: "mem_ok xs s" and e: "event_ok e" "ed_payload e = None" and c: "calm env s"
  shows "\<exists>a. fst (copy_event_data env e s) = Some a \<and> event_at (snd (copy_event_data env e s)) a = e \<and>
    o_wq (snd (copy_event_data env e s)) = o_wq s \<and> queued (snd (copy_event_data env e s)) = queued s \<and>
    o_calls s \<le> o_calls (snd (copy_event_data env e s))"
proof -
  obtain q where q: "length (o_slots s) = OTA_JOB_EVENT_POOL_SIZE" "o_pool_free s = Some q"
    "set q \<subseteq> {..<OTA_JOB_EVENT_POOL_SIZE}" "\<forall>n. o_fresh s \<le> n \<longrightarrow> o_heap s n = None"
    "\<forall>a. a \<in> set (xs @ owned s) \<longrightarrow> event_live s a \<and> event_ok (event_at s a)"
    using mem_okD [OF m] by (elim exE conjE)
  have live: "event_live s a" if "a \<in> set (o_wq s)" for a
    using q(5) that by (simp add: owned_def)
  show ?thesis
  proof (cases q)
    case Nil
    have "Heap (o_fresh s) \<notin> set (o_wq s)" using live [of "Heap (o_fresh s)"] q(4) by (auto simp: event_live_def)
    with Nil show ?thesis
      using e q(2,4) calm_now [OF c] live
      by (auto simp: copy_event_data_def event_pool_take_def copy_event_heap_def ask_alloc_def heap_new_def
          queued_def event_at_def event_live_def Let_def split: event_ref.splits)
  next
    case (Cons i p)
    have "Slot i \<notin> set (o_wq s)" using live [of "Slot i"] q(2) Cons by (auto simp: event_live_def)
    then show ?thesis
      using e q(1-3) Cons
      by (auto simp: copy_event_data_def event_pool_take_def queued_def event_at_def Let_def
          intro!: nth_list_update_neq split: event_ref.splits)
  qed
qed

lemma enqueue_copy_queued:
  assumes "mem_ok xs s" "event_ok e" "ed_payload e = None" "calm env s"
  shows "fst (enqueue_copy env e s) = ERR_OK" "queued (snd (enqueue_copy env e s)) = queued s @ [e]"
    "o_calls s \<le> o_calls (snd (enqueue_copy env e s))"
proof -
  obtain a t where a: "copy_event_data env e s = (Some a, t)" "event_at t a = e" "o_wq t = o_wq s"
    "queued t = queued s" "o_calls s \<le> o_calls t"
    using copy_event_data_queued [OF assms] by (metis prod.collapse)
  have "e_err env (o_calls t) = ERR_OK" using calm_now [OF assms(4)] a(5) by simp
  then have x: "enqueue_copy env e s = (ERR_OK, t\<lparr>o_calls := Suc (o_calls t), o_wq := o_wq t @ [a]\<rparr>)"
    by (simp add: enqueue_copy_def a(1) enqueue_ref_def ask_err_def)
  show "fst (enqueue_copy env e s) = ERR_OK" "o_calls s \<le> o_calls (snd (enqueue_copy env e s))"
    using x a(5) by simp_all
  show "queued (snd (enqueue_copy env e s)) = queued s @ [e]"
    using x a(2-4) by (simp add: queued_def)
qed

lemma post_event_queued:
  assumes "mem_ok xs s" "event_ok e" "ed_payload e = None" "calm env s" "o_state_initialized s"
  shows "fst (ota_job_state_post_event env e s) = ERR_OK"
    "queued (snd (ota_job_state_post_event env e s)) = queued s @ [e]"
    "o_calls s \<le> o_calls (snd (ota_job_state_post_event env e s))"
  using enqueue_copy_queued [OF assms(1-4)] assms(5) by (simp_all add: ota_job_state_post_event_def)

lemma free_event_queued:
  assumes "mem_ok (a # xs) s"
  shows "queued (free_event_data (Some a) s) = queued s" "o_calls (free_event_data (Some a) s) = o_calls s"
proof -
  have a: "a \<notin> set (o_wq s)" "event_live s a"
    using mem_ok_distinct [OF assms] mem_ok_live [OF assms, of a] by (auto simp: owned_def)
  then show "queued (free_event_data (Some a) s) = queued s"
    by (cases a) (auto simp: free_event_data_def event_pool_return_def queued_def event_at_def event_live_def Let_def
        intro!: nth_list_update_neq split: event_ref.splits option.splits)
  show "o_calls (free_event_data (Some a) s) = o_calls s"
    by (cases a) (auto simp: free_event_data_def event_pool_return_def Let_def fault_def split: option.splits)
qed

section \<open>Running the tasks of the work queue\<close>

text \<open>The worker takes the first task and runs it.\<close>

definition ota_run_next :: "ota_env \<Rightarrow> ota_sys \<Rightarrow> ota_sys" where
  "ota_run_next env s = (case o_wq s of [] \<Rightarrow> s | a # w \<Rightarrow> ota_job_state_run_once env a (s\<lparr>o_wq := w\<rparr>))"

primrec ota_run :: "ota_env \<Rightarrow> nat \<Rightarrow> ota_sys \<Rightarrow> ota_sys" where
  "ota_run env 0 s = s"
| "ota_run env (Suc n) s = ota_run env n (ota_run_next env s)"

text \<open>The state the machine is in when it is up: it processes events.\<close>

definition running :: "ota_env \<Rightarrow> ota_sys \<Rightarrow> bool" where
  "running env s \<longleftrightarrow> mem_ok [] s \<and> o_state_initialized s \<and> o_pre_mutex s \<and> calm env s"

lemma queued_head:
  assumes "running env s" "queued s = e # es"
  shows "o_wq s = hd (o_wq s) # tl (o_wq s)" "mem_ok [hd (o_wq s)] (s\<lparr>o_wq := tl (o_wq s)\<rparr>)"
    "event_live (s\<lparr>o_wq := tl (o_wq s)\<rparr>) (hd (o_wq s))" "event_at s (hd (o_wq s)) = e"
    "queued (s\<lparr>o_wq := tl (o_wq s)\<rparr>) = es" "event_ok e"
proof -
  obtain a w where w: "o_wq s = a # w" using assms(2) by (cases "o_wq s") (auto simp: queued_def)
  then show "o_wq s = hd (o_wq s) # tl (o_wq s)" by simp
  have m: "mem_ok [a] (s\<lparr>o_wq := w\<rparr>)" using assms(1) w by (simp add: running_def mem_ok_from_wq)
  then show "mem_ok [hd (o_wq s)] (s\<lparr>o_wq := tl (o_wq s)\<rparr>)" using w by simp
  show "event_live (s\<lparr>o_wq := tl (o_wq s)\<rparr>) (hd (o_wq s))" using mem_ok_live [OF m, of a] w by simp
  show "event_at s (hd (o_wq s)) = e" "queued (s\<lparr>o_wq := tl (o_wq s)\<rparr>) = es"
    using assms(2) w by (auto simp: queued_def)
  show "event_ok e" using mem_ok_live [OF m, of a] assms(2) w by (auto simp: queued_def)
qed

text \<open>One task whose handler asks for its event to be freed.\<close>

lemma run_next_handles:
  assumes run: "running env s" and q: "queued s = e # es" and e: "ed_event e \<noteq> ERROR_OCCURRED"
    and h: "handle_state env (hd (o_wq s)) e (s\<lparr>o_wq := tl (o_wq s)\<rparr>) = (next, True, s1)"
    and s1: "mem_ok [hd (o_wq s)] s1" "calm env s1" "o_state_initialized s1" "o_pre_mutex s1"
  shows "running env (ota_run_next env s)" "queued (ota_run_next env s) = queued s1"
    "outer (ota_run_next env s) = outer (s1\<lparr>o_state := next\<rparr>)"
proof -
  let ?a = "hd (o_wq s)" and ?t = "s\<lparr>o_wq := tl (o_wq s)\<rparr>" and ?u = "s1\<lparr>o_state := next\<rparr>"
  note qh = queued_head [OF run q]
  have "pre_init_event_queue_check_init_flag ?t"
    using run by (simp add: running_def pre_init_event_queue_check_init_flag_def)
  then have x: "ota_run_next env s = free_event_data (Some ?a) ?u"
    using qh(3,4) h e by (cases "o_wq s") (use qh(1) in simp, simp add: ota_run_next_def ota_job_state_run_once_def)
  have m: "mem_ok [?a] ?u" using s1(1) by simp
  note f = free_event_queued [OF m]
  have "queued ?u = queued s1" by (simp add: queued_def)
  then show "queued (ota_run_next env s) = queued s1" using f(1) x by simp
  show "outer (ota_run_next env s) = outer ?u" using x by (simp add: outer_free)
  show "running env (ota_run_next env s)"
    using x s1 f(2) free_event_data_ok [OF m] by (simp add: running_def calm_def)
qed

lemma run_next_fields:
  assumes "outer s' = outer (s1\<lparr>o_state := next\<rparr>)"
  shows "o_state s' = next" "o_log s' = o_log s1" "o_rec_state s' = o_rec_state s1" "o_last_error s' = o_last_error s1"
    "o_rec_data s' = o_rec_data s1" "o_rec_event s' = o_rec_event s1" "o_job s' = o_job s1"
    "o_sub_intended s' = o_sub_intended s1"
  using outer_fields [OF assms] by simp_all

lemma running_enqueue:
  assumes "running env s" "event_ok e" "ed_payload e = None"
  shows "running env (snd (ota_job_state_post_event env e s))"
    "queued (snd (ota_job_state_post_event env e s)) = queued s @ [e]"
    "fst (ota_job_state_post_event env e s) = ERR_OK"
  using assms post_event_queued [where xs = "[]" and env = env and s = s and e = e]
  by (auto simp: running_def post_event_ok intro: calm_later)

section \<open>Recovery from transient errors\<close>

lemma retry_task_requests_recovery:
  assumes "running env s" "o_rec_state s \<noteq> UNINITIALIZED" "o_rec_event s \<noteq> ERROR_OCCURRED"
  shows "running env (retry_with_backoff_task env s)"
    "queued (retry_with_backoff_task env s) = queued s @ [plain_event RECOVERY_REQUESTED]"
    "outer (retry_with_backoff_task env s) = outer s"
  using assms running_enqueue [OF assms(1), of "plain_event RECOVERY_REQUESTED"]
  by (simp_all add: retry_with_backoff_task_def ota_job_state_recover_def Let_def case_prod_beta outer_post_event
      plain_event_def event_ok_def)

lemma recovery_step:
  assumes run: "running env s" and q: "queued s = [plain_event RECOVERY_REQUESTED]"
    and st: "o_state s = ERROR_STATE" "o_rec_data s = None" "event_ok (plain_event (o_rec_event s))"
  shows "running env (ota_run_next env s) \<and> queued (ota_run_next env s) = [plain_event (o_rec_event s)] \<and>
    o_state (ota_run_next env s) = o_rec_state s \<and> o_last_error (ota_run_next env s) = ERROR_NONE \<and>
    o_rec_state (ota_run_next env s) = UNINITIALIZED \<and> o_log (ota_run_next env s) = o_log s \<and>
    o_job (ota_run_next env s) = o_job s"
proof -
  let ?a = "hd (o_wq s)" and ?t = "s\<lparr>o_wq := tl (o_wq s)\<rparr>" and ?e = "plain_event (o_rec_event s)"
  note qh = queued_head [OF run q]
  let ?u = "snd (enqueue_copy env ?e ?t)"
  let ?s1 = "?u\<lparr>o_last_error := ERROR_NONE, o_rec_state := UNINITIALIZED, o_rec_event := ERROR_OCCURRED\<rparr>"
  have c: "calm env ?t" using run by (simp add: running_def calm_def)
  have p: "ed_payload ?e = None" by (simp add: plain_event_def)
  note eq = enqueue_copy_queued [OF qh(2) st(3) p c]
  have h: "handle_state env ?a (plain_event RECOVERY_REQUESTED) ?t = (o_rec_state s, True, ?s1)"
    using st eq(1)
    by (simp add: handle_state_def handle_state_error_def plain_event_def recovery_requested_def Let_def
        case_prod_beta recovery_reset_context_def)
  have m: "mem_ok [?a] ?s1"
    by (rule mem_ok_stash(1)) (use enqueue_copy_ok [OF qh(2) st(3)] in simp_all)
  have "calm env ?s1" using eq(3) c by (simp add: calm_def)
  note r = run_next_handles [OF run q _ h m this]
  have "queued ?s1 = queued ?u" by (rule queued_cong) simp_all
  with r eq(2) qh(5) run run_next_fields [OF r(3)] show ?thesis
    by (simp add: running_def plain_event_def)
qed

lemma idle_fetch_step:
  assumes run: "running env s" and q: "queued s = [plain_event FETCH_REQUESTED]" and st: "o_state s = IDLE"
  shows "running env (ota_run_next env s) \<and> queued (ota_run_next env s) = [plain_event EMPTY_TRANSITION] \<and>
    o_state (ota_run_next env s) = FETCHING_PENDING_JOBS \<and> o_last_error (ota_run_next env s) = o_last_error s \<and>
    o_rec_state (ota_run_next env s) = o_rec_state s \<and> o_log (ota_run_next env s) = o_log s"
proof -
  let ?a = "hd (o_wq s)" and ?t = "s\<lparr>o_wq := tl (o_wq s)\<rparr>" and ?e = "plain_event EMPTY_TRANSITION"
  note qh = queued_head [OF run q]
  let ?u = "snd (enqueue_copy env ?e ?t)"
  have c: "calm env ?t" using run by (simp add: running_def calm_def)
  have e: "ed_payload ?e = None" "event_ok ?e" by (simp_all add: plain_event_def event_ok_def)
  note eq = enqueue_copy_queued [OF qh(2) e(2,1) c]
  have h: "handle_state env ?a (plain_event FETCH_REQUESTED) ?t = (FETCHING_PENDING_JOBS, True, ?u)"
    using st eq(1)
    by (simp add: handle_state_def handle_state_idle_def transition_to_def enqueue_transition_event_def Let_def case_prod_beta)
  have "calm env ?u" using eq(3) c by (simp add: calm_def)
  note r = run_next_handles [OF run q _ h enqueue_copy_ok [OF qh(2) e(2)] this]
  from r eq(2) qh(5) run run_next_fields [OF r(3)] show ?thesis
    by (simp add: running_def plain_event_def)
qed

lemma fetching_step:
  assumes run: "running env s" and q: "queued s = [plain_event EMPTY_TRANSITION]" and st: "o_state s = FETCHING_PENDING_JOBS"
  shows "running env (ota_run_next env s) \<and> queued (ota_run_next env s) = [] \<and>
    o_state (ota_run_next env s) = WAITING_FOR_PENDING_JOBS \<and> o_last_error (ota_run_next env s) = o_last_error s \<and>
    o_rec_state (ota_run_next env s) = o_rec_state s \<and>
    o_log (ota_run_next env s) = o_log s @ [Publish_get_pending, Restart_timer]"
proof -
  let ?a = "hd (o_wq s)" and ?t = "s\<lparr>o_wq := tl (o_wq s)\<rparr>"
  note qh = queued_head [OF run q]
  let ?u = "?t\<lparr>o_calls := o_calls s + 3, o_log := o_log s @ [Publish_get_pending, Restart_timer]\<rparr>"
  have c: "calm env ?t" using run by (simp add: running_def calm_def)
  have "e_err env (o_calls s) = ERR_OK" "e_err env (Suc (o_calls s)) = ERR_OK" "e_err env (Suc (Suc (o_calls s))) = ERR_OK"
    using c by (simp_all add: calm_def)
  then have h: "handle_state env ?a (plain_event EMPTY_TRANSITION) ?t = (WAITING_FOR_PENDING_JOBS, True, ?u)"
    using st by (simp add: handle_state_def handle_state_fetching_pending_jobs_def mqtt_publish_get_pending_def
        publish_request_def start_response_timer_def ask_err_def call_def emit_def plain_event_def Let_def case_prod_beta
        numeral_3_eq_3)
  have "calm env ?u" "mem_ok [?a] ?u" using c qh(2) by (simp_all add: calm_def)
  note r = run_next_handles [OF run q _ h this(2,1)]
  have "queued ?u = queued ?t" by (rule queued_cong) simp_all
  with r qh(5) run run_next_fields [OF r(3)] show ?thesis
    by (simp add: running_def plain_event_def)
qed


lemma sample_calm [simp]: "calm sample_env s"
  by (simp add: calm_def sample_env_def)

definition sample_error_sys :: ota_sys where
  "sample_error_sys = sample_sys\<lparr>o_state := ERROR_STATE, o_last_error := GET_PENDING_REJECTED, o_rec_state := IDLE,
     o_rec_event := FETCH_REQUESTED\<rparr>"

lemma sample_error_running: "running sample_env sample_error_sys"
proof -
  have "mem_ok [] sample_error_sys"
    unfolding sample_error_sys_def by (rule mem_ok_stash(1)) (simp_all add: sample_sys_ok)
  then show ?thesis by (simp add: running_def sample_error_sys_def sample_sys_def)
qed


section \<open>The kinds of the waiting events\<close>

definition waiting :: "ota_sys \<Rightarrow> ota_event set" where
  "waiting s = (\<lambda>a. ed_event (event_at s a)) ` set (owned s)"

lemma waiting_cong:
  assumes "set (owned s') \<subseteq> set (owned s)" "\<And>a. a \<in> set (owned s') \<Longrightarrow> event_at s' a = event_at s a"
  shows "waiting s' \<subseteq> waiting s"
  using assms by (force simp: waiting_def)

lemma heap_new_at:
  assumes "\<forall>n. o_fresh s \<le> n \<longrightarrow> o_heap s n = None" "\<And>b. b \<in> B \<Longrightarrow> event_live s b" "heap_new e s = (a, s1)"
  shows "event_at s1 a = e" "owned s1 = owned s" "\<And>b. b \<in> B \<Longrightarrow> event_at s1 b = event_at s b"
proof -
  have a: "a = Heap (o_fresh s)" and s1: "s1 = s\<lparr>o_heap := (o_heap s)(o_fresh s := Some e), o_fresh := Suc (o_fresh s)\<rparr>"
    using assms(3) by (auto simp: heap_new_def)
  show "event_at s1 a = e" "owned s1 = owned s" by (simp_all add: a s1 event_at_def owned_def)
  fix b assume "b \<in> B"
  then have "event_live s b" by (rule assms(2))
  then have "b \<noteq> a" using assms(1) a by (auto simp: event_live_def)
  then show "event_at s1 b = event_at s b" by (cases b) (auto simp: event_at_def s1 a)
qed

lemma copy_event_heap_at:
  assumes f: "\<forall>n. o_fresh s \<le> n \<longrightarrow> o_heap s n = None" and l: "\<And>b. b \<in> set (owned s) \<Longrightarrow> event_live s b"
    and c: "copy_event_heap env e s = (r, s1)"
  shows "owned s1 = owned s \<and> (\<forall>b \<in> set (owned s). event_at s1 b = event_at s b) \<and>
    (\<forall>a. r = Some a \<longrightarrow> ed_event (event_at s1 a) = ed_event e \<and> (ed_payload e = None \<longrightarrow> event_at s1 a = e))"
proof (cases r)
  case None
  then have "owned s1 = owned s" "event_at s1 = event_at s"
    using c by (auto simp: copy_event_heap_def copy_payload_def ask_alloc_def heap_new_def Let_def owned_def
        split: if_splits option.splits prod.splits intro!: event_at_cong)
  then show ?thesis using None by simp
next
  case (Some a)
  obtain e' t where t: "heap_new e' t = (a, s1)" "ed_event e' = ed_event e \<and> (ed_payload e = None \<longrightarrow> e' = e)"
    "\<exists>k. t = s\<lparr>o_calls := k\<rparr>"
    using c Some by (auto simp: copy_event_heap_def copy_payload_def ask_alloc_def Let_def
        split: if_splits option.splits prod.splits) (force dest: spec)+
  then obtain k where k: "t = s\<lparr>o_calls := k\<rparr>" by blast
  have same: "event_live t = event_live s" "owned t = owned s" "event_at t = event_at s"
    by (auto simp: k event_live_def owned_def event_at_def fun_eq_iff split: event_ref.splits)
  show ?thesis
    using heap_new_at [of t "set (owned s)", OF _ _ t(1)] f l t(2) Some k same by simp
qed

lemma copy_event_data_at:
  assumes m: "mem_ok [] s" and c: "copy_event_data env e s = (r, s1)"
  shows "owned s1 = owned s \<and> (\<forall>b \<in> set (owned s). event_at s1 b = event_at s b) \<and>
    (\<forall>a. r = Some a \<longrightarrow> ed_event (event_at s1 a) = ed_event e \<and> (ed_payload e = None \<longrightarrow> event_at s1 a = e))"
proof -
  obtain q where q: "length (o_slots s) = OTA_JOB_EVENT_POOL_SIZE" "o_pool_free s = Some q"
    "set q \<subseteq> {..<OTA_JOB_EVENT_POOL_SIZE}" "\<forall>n. o_fresh s \<le> n \<longrightarrow> o_heap s n = None"
    "\<forall>a. a \<in> set ([] @ owned s) \<longrightarrow> event_live s a \<and> event_ok (event_at s a)"
    using mem_okD [OF m] by (elim exE conjE)
  then have l: "\<And>b. b \<in> set (owned s) \<Longrightarrow> event_live s b" by simp
  show ?thesis
  proof (cases "ed_payload e = None \<and> q \<noteq> []")
    case True
    then obtain i p where i: "q = i # p" by (cases q) auto
    have "Slot i \<notin> set (owned s)" using l [of "Slot i"] q(2) i by (auto simp: event_live_def)
    moreover have "r = Some (Slot i)" "s1 = s\<lparr>o_pool_free := Some p, o_slots := (o_slots s)[i := e]\<rparr>"
      using c True q(2) i by (auto simp: copy_event_data_def event_pool_take_def)
    ultimately show ?thesis
      using q(1,3) i by (auto simp: owned_def event_at_def intro!: nth_list_update_neq split: event_ref.splits)
  next
    case False
    then have "copy_event_heap env e s = (r, s1)"
      using c q(2) by (auto simp: copy_event_data_def event_pool_take_def split: if_splits)
    from copy_event_heap_at [OF q(4) l this] show ?thesis .
  qed
qed

lemma free_event_at:
  assumes "mem_ok [a] s" "b \<in> set (owned s)"
  shows "event_at (free_event_data (Some a) s) b = event_at s b"
proof -
  have "a \<noteq> b" using mem_ok_distinct [OF assms(1)] assms(2) by auto
  then show ?thesis
    by (cases a) (auto simp: free_event_data_def event_pool_return_def event_at_def Let_def fault_def
        intro!: nth_list_update_neq split: event_ref.splits option.splits)
qed

lemma free_event_owned: "owned (free_event_data a s) = owned s"
  by (auto simp: free_event_data_def event_pool_return_def owned_def Let_def fault_def
      split: event_ref.splits option.splits)

lemma waiting_free: "mem_ok [a] s \<Longrightarrow> waiting (free_event_data (Some a) s) \<subseteq> waiting s"
  by (rule waiting_cong) (simp_all add: free_event_owned free_event_at)

lemma waiting_calls [simp]: "waiting (s\<lparr>o_calls := c\<rparr>) = waiting s"
  by (simp add: waiting_def owned_def)

lemma waiting_enqueue_copy:
  assumes m: "mem_ok [] s" and e: "event_ok e"
  shows "waiting (snd (enqueue_copy env e s)) \<subseteq> insert (ed_event e) (waiting s)"
proof -
  obtain r s1 where c: "copy_event_data env e s = (r, s1)" by fastforce
  note at = copy_event_data_at [OF m c] and ok = copy_event_data_ok [OF m e c]
  have w: "waiting s1 = waiting s" using at by (simp add: waiting_def)
  show ?thesis
  proof (cases r)
    case None
    then show ?thesis using c w by (simp add: enqueue_copy_def subset_insertI)
  next
    case (Some a)
    let ?t = "s1\<lparr>o_calls := Suc (o_calls s1)\<rparr>"
    have "waiting (free_event_data (Some a) ?t) \<subseteq> waiting s"
      using waiting_free [of a ?t] ok Some w by simp
    moreover have "waiting (?t\<lparr>o_wq := o_wq s1 @ [a]\<rparr>) = insert (ed_event e) (waiting s)"
    proof -
      have "set (owned (?t\<lparr>o_wq := o_wq s1 @ [a]\<rparr>)) = insert a (set (owned s1))" by (auto simp: owned_def)
      moreover have "event_at (?t\<lparr>o_wq := o_wq s1 @ [a]\<rparr>) = event_at s1" by simp
      ultimately show ?thesis using at Some w by (simp add: waiting_def)
    qed
    ultimately show ?thesis
      using c Some by (auto simp: enqueue_copy_def enqueue_ref_def ask_err_def Let_def)
  qed
qed

lemma waiting_post_event:
  assumes "mem_ok [] s" "event_ok e" "o_state_initialized s"
  shows "waiting (snd (ota_job_state_post_event env e s)) \<subseteq> insert (ed_event e) (waiting s)"
  using waiting_enqueue_copy [OF assms(1,2)] assms(3) by (simp add: ota_job_state_post_event_def)

section \<open>Errors that are never recovered from\<close>

definition quiet :: "ota_env \<Rightarrow> bool" where
  "quiet env \<longleftrightarrow> (\<forall>n. e_err env n = ERR_OK \<and> e_alloc env n)"

text \<open>The machine is in the error state with a recovery event that \<^verbatim>\<open>ota_job_state_recover\<close> refuses, and no
recovery is on its way.\<close>

definition parked :: "ota_sys \<Rightarrow> bool" where
  "parked s \<longleftrightarrow> engine_inv s \<and> o_state_initialized s \<and> o_pre_mutex s \<and> o_state s = ERROR_STATE \<and>
     o_rec_event s = ERROR_OCCURRED \<and> RECOVERY_REQUESTED \<notin> waiting s \<and>
     ed_event (o_terminal_pending s) \<noteq> RECOVERY_REQUESTED"

lemma quiet_post: "quiet env \<Longrightarrow> o_state_initialized s \<Longrightarrow> fst (ota_job_state_post_event env e s) = ERR_OK"
  by (auto simp: quiet_def ota_job_state_post_event_def enqueue_copy_def copy_event_data_def copy_event_heap_def
      copy_payload_def heap_new_def enqueue_ref_def ask_alloc_def ask_err_def Let_def case_prod_beta
      split: option.splits)

lemma parked_post:
  assumes "parked s" "event_ok e" "ed_event e \<noteq> RECOVERY_REQUESTED"
  shows "parked (snd (ota_job_state_post_event env e s))"
  using assms waiting_post_event [of s e env] post_event_inv [of s e env]
  by (auto simp: parked_def engine_inv_mem)

text \<open>Updates of what does not matter here.\<close>

lemma parked_cong:
  assumes "parked s" "engine_inv s'" "o_state_initialized s' = o_state_initialized s" "o_pre_mutex s' = o_pre_mutex s"
    "o_state s' = o_state s" "o_rec_event s' = o_rec_event s" "o_terminal_pending s' = o_terminal_pending s"
    "o_wq s' = o_wq s" "o_pre_queue s' = o_pre_queue s" "o_rec_data s' = o_rec_data s" "o_slots s' = o_slots s" "o_heap s' = o_heap s"
  shows "parked s'"
proof -
  have "owned s' = owned s" using assms by (simp add: owned_def)
  moreover have "event_at s' = event_at s" by (rule event_at_cong) (use assms in simp_all)
  ultimately show ?thesis using assms by (simp add: parked_def waiting_def)
qed

lemma parked_inv: "parked s \<Longrightarrow> engine_inv s"
  by (simp add: parked_def)

lemma parked_flags [simp]:
  assumes "parked s"
  shows "parked (s\<lparr>o_calls := c\<rparr>)" "parked (s\<lparr>o_log := l\<rparr>)" "parked (s\<lparr>o_error_retry := b\<rparr>)"
    "parked (s\<lparr>o_sub_retry := b\<rparr>)" "parked (s\<lparr>o_terminal_retry := b\<rparr>)" "parked (s\<lparr>o_sub_work := n\<rparr>)"
    "parked (s\<lparr>o_subscribed := b\<rparr>)" "parked (s\<lparr>o_sub_intended := b\<rparr>)"
  by (rule parked_cong [OF assms]; simp add: parked_inv [OF assms])+

lemma parked_calls [simp]:
  assumes "parked s"
  shows "parked (emit x s)" "parked (snd (ask_err env s))" "parked (snd (ask f s))" "parked (snd (call env x s))"
    "parked (snd (error_backoff_retry env s))" "parked (snd (sub_backoff_retry env s))"
    "parked (snd (terminal_backoff_retry env s))" "parked (snd (mqtt_subscribe_jobs_topics env s))"
  using assms by (simp_all add: emit_def ask_err_def ask_def call_def error_backoff_retry_def
      sub_backoff_retry_def terminal_backoff_retry_def mqtt_subscribe_jobs_topics_def Let_def)

lemma parked_job:
  assumes "parked s" "ji_has_pending_job (g (o_job s)) = ji_has_pending_job (o_job s)"
    "ji_filetype_handler (g (o_job s)) = ji_filetype_handler (o_job s)"
  shows "parked (upd_job g s)"
proof (rule parked_cong [OF assms(1)])
  show "engine_inv (upd_job g s)"
    by (rule engine_inv_frame [OF parked_inv [OF assms(1)]]) (use assms in \<open>simp_all add: parked_def engine_inv_mem, simp_all add: upd_job_def\<close>)
qed (simp_all add: upd_job_def)

lemma parked_report:
  assumes "parked s" shows "parked (snd (esp_rmaker_ota_report_status env status d s))"
proof -
  have "parked (snd (ota_jobs_mqtt_publish_update_job_status env st d t))" if t: "parked t" for st t
    using t by (auto simp: ota_jobs_mqtt_publish_update_job_status_def mqtt_publish_update_job_status_def Let_def
        case_prod_beta split: option.splits intro!: parked_job)
  then show ?thesis using assms by (simp add: esp_rmaker_ota_report_status_def split: ota_status.splits)
qed

lemma parked_recover: "parked s \<Longrightarrow> ota_job_state_recover env s = (ERR_INVALID_STATE, s)"
  by (simp add: parked_def ota_job_state_recover_def)

lemma parked_handle_error:
  assumes "parked t" "ed_event e \<noteq> RECOVERY_REQUESTED"
  shows "\<exists>t1. handle_state_error env e t = (ERROR_STATE, True, t1) \<and> parked t1"
  using assms by (cases "ed_event e")
    (auto simp: handle_state_error_def on_event_ignored_def intro!: parked_job parked_report)

lemma parked_free:
  assumes "parked t1" "mem_ok [a] t1"
  shows "parked (free_event_data (Some a) t1)"
proof -
  have "engine_inv (free_event_data (Some a) t1)"
    by (rule engine_inv_frame [OF parked_inv [OF assms(1)]]) (simp_all add: free_event_data_ok [OF assms(2)])
  then show ?thesis using assms waiting_free [OF assms(2)] by (auto simp: parked_def)
qed

lemma parked_run:
  assumes p: "parked s" and a: "o_wq s = a # w" and v: "versions_fit env"
  shows "parked (ota_job_state_run_once env a (s\<lparr>o_wq := w\<rparr>))"
proof -
  let ?t = "s\<lparr>o_wq := w\<rparr>" and ?e = "event_at s a"
  have m: "mem_ok [a] ?t" using p a by (simp add: parked_def engine_inv_mem mem_ok_from_wq)
  then have "mem_ok [] ?t" by (rule mem_ok_move) (use mem_ok_distinct [OF m] in auto)
  then have "engine_inv ?t" by (rule_tac engine_inv_frame [OF parked_inv [OF p]]) simp_all
  moreover have "waiting ?t \<subseteq> waiting s" by (rule waiting_cong) (auto simp: owned_def a)
  ultimately have pt: "parked ?t" using p by (auto simp: parked_def)
  have "ed_event ?e \<in> waiting s" using a by (auto simp: waiting_def owned_def)
  then have e: "ed_event ?e \<noteq> RECOVERY_REQUESTED" using p by (auto simp: parked_def)
  obtain t1 where t1: "handle_state_error env ?e ?t = (ERROR_STATE, True, t1)" "parked t1"
    using parked_handle_error [OF pt e] by blast
  have "event_ok ?e" "event_live ?t a" using mem_ok_live [OF m, of a] by simp_all
  then have "mem_ok [a] t1" using error_state_ok [OF m, of ?e env] t1(1) by simp
  then have "parked (free_event_data (Some a) t1)" by (rule parked_free [OF t1(2)])
  moreover have "o_state t1 = ERROR_STATE" "o_state ?t = ERROR_STATE" using t1(2) pt by (simp_all add: parked_def)
  moreover have "pre_init_event_queue_check_init_flag ?t" using p by (simp add: parked_def pre_init_event_queue_check_init_flag_def)
  moreover have "s\<lparr>o_wq := w, o_state := ERROR_STATE\<rparr> = ?t" using \<open>o_state ?t = ERROR_STATE\<close> same_state by blast
  ultimately show ?thesis
    using t1(1) \<open>event_live ?t a\<close> by (simp add: ota_job_state_run_once_def handle_state_def Let_def)
qed

lemma parked_terminal:
  assumes p: "parked s" and q: "quiet env" and t: "terminal_event ev"
  shows "parked (snd (ota_job_state_post_terminal_event env \<lparr>ed_event = ev, ed_payload = None, ed_fixed = b\<rparr> s))"
proof -
  have "o_state_initialized s" using p by (simp add: parked_def)
  then have "fst (ota_job_state_post_event env \<lparr>ed_event = ev, ed_payload = None, ed_fixed = b\<rparr> s) = ERR_OK"
    by (rule quiet_post [OF q])
  then show ?thesis
    using p t terminal_event_ok [OF t, of b]
    by (auto simp: ota_job_state_post_terminal_event_def Let_def case_prod_beta terminal_event_def failed_reason_def
        intro!: parked_post)
qed

lemma parked_stash: "parked s \<Longrightarrow> event_ok (o_terminal_pending s) \<and> ed_event (o_terminal_pending s) \<noteq> RECOVERY_REQUESTED"
  by (auto simp: parked_def engine_inv_def mem_ok_def stash_ok_def)

lemma text_event_sel [simp]: "ed_event (text_event e msg) = e" "ed_event (details_event e d) = e"
  by (simp_all add: text_event_def details_event_def)

lemma parked_step:
  assumes step: "ota_step env s s'" and p: "parked s" and q: "quiet env" and v: "versions_fit env"
  shows "parked s'"
  using step
proof (cases rule: ota_step.cases)
  case (run a w)
  then show ?thesis using parked_run [OF p _ v] by simp
next
  case (init config)
  then show ?thesis using p by (simp add: parked_def ota_job_state_init_def)
next
  case (terminal ev b)
  then show ?thesis using parked_terminal [OF p q] by simp
next
  case terminal_retry
  then show ?thesis
    using p parked_stash [OF p] by (simp add: terminal_event_repost_task_def Let_def case_prod_beta parked_post)
next
  case error_retry
  then show ?thesis using p by (simp add: retry_with_backoff_task_def parked_recover)
next
  case (message topic msg response)
  then show ?thesis
    using p by (auto simp: mqtt_unified_callback_def mqtt_on_update_accepted_def mqtt_on_update_rejected_def Let_def
        parked_post parked_job split: jobs_topic.splits option.splits)
next
  case (mqtt ev)
  let ?t = "emit Resend_terminals (s\<lparr>o_subscribed := True, o_sub_retry := False\<rparr>)"
  have t: "parked ?t" using p by simp
  then have "fst (ota_job_state_fetch env ?t) = ERR_OK"
    by (simp add: ota_job_state_fetch_def quiet_post [OF q] parked_def)
  moreover have "parked (snd (ota_job_state_fetch env ?t))"
    by (simp add: ota_job_state_fetch_def parked_post [OF t])
  ultimately show ?thesis
    using p mqtt by (cases ev) (simp_all add: on_rmaker_mqtt_event_def Let_def case_prod_beta)
next
  case (progress msg)
  then show ?thesis using p by (simp add: parked_post text_event_def event_ok_def)
qed (use p in \<open>simp_all add: parked_post parked_report parked_recover sub_retry_sched_cb_def sub_retry_work_def
    ota_job_state_fetch_def ota_job_state_reboot_check_def esp_rmaker_ota_report_final_status_def
    timeout_callback_def Let_def case_prod_beta\<close>)

lemma parked_steps: "(ota_step env)\<^sup>*\<^sup>* s s' \<Longrightarrow> parked s \<Longrightarrow> quiet env \<Longrightarrow> versions_fit env \<Longrightarrow> parked s'"
  by (induction rule: rtranclp_induct) (auto intro: parked_step)

lemma publish_final_frame [simp]:
  "o_wq (snd (mqtt_publish_final_status env d s)) = o_wq s"
  "o_pre_queue (snd (mqtt_publish_final_status env d s)) = o_pre_queue s"
  "o_rec_data (snd (mqtt_publish_final_status env d s)) = o_rec_data s"
  "o_slots (snd (mqtt_publish_final_status env d s)) = o_slots s"
  "o_heap (snd (mqtt_publish_final_status env d s)) = o_heap s"
  "o_state_initialized (snd (mqtt_publish_final_status env d s)) = o_state_initialized s"
  "o_pre_mutex (snd (mqtt_publish_final_status env d s)) = o_pre_mutex s"
  "o_terminal_pending (snd (mqtt_publish_final_status env d s)) = o_terminal_pending s"
  by (simp_all add: mqtt_publish_final_status_def ota_jobs_mqtt_publish_update_job_status_def
      mqtt_publish_update_job_status_def upd_job_def call_def ask_def ask_err_def emit_def Let_def
      split: status_details.splits option.splits)

lemma custom_error_waiting:
  assumes m: "mem_ok [a] t" and i: "o_state_initialized t"
  shows "waiting (enter_error_state_custom env RETRY_WITH_BACKOFF st a t) \<subseteq>
    {ERROR_OCCURRED, ed_event (event_at t a)} \<union> waiting t"
proof -
  let ?u = "t\<lparr>o_rec_state := st, o_rec_data := Some a, o_rec_event := ERROR_OCCURRED, o_last_error := RETRY_WITH_BACKOFF\<rparr>"
  let ?v = "snd (ota_job_state_post_event env (plain_event ERROR_OCCURRED) ?u)"
  have "mem_ok [] (t\<lparr>o_rec_state := st, o_rec_data := Some a, o_rec_event := ERROR_OCCURRED\<rparr>)"
    by (rule mem_ok_stash, rule mem_ok_to_recovery) (use m in simp_all)
  then have "waiting ?v \<subseteq> insert ERROR_OCCURRED (waiting ?u)"
    using waiting_post_event [of ?u "plain_event ERROR_OCCURRED" env] i by simp
  moreover have "event_at ?u = event_at t" by (rule event_at_cong) simp_all
  then have "waiting ?u \<subseteq> insert (ed_event (event_at t a)) (waiting t)" by (auto simp: waiting_def owned_def)
  moreover have "event_at (snd (error_backoff_retry env ?v)) = event_at ?v" "owned (snd (error_backoff_retry env ?v)) = owned ?v"
    by (auto simp: error_backoff_retry_def ask_err_def owned_def Let_def intro!: event_at_cong)
  then have "waiting (snd (error_backoff_retry env ?v)) = waiting ?v" by (simp add: waiting_def)
  ultimately show ?thesis
    by (auto simp: enter_error_state_custom_def post_error_event_def)
qed


definition sample_offline_env :: ota_env where
  "sample_offline_env = sample_env\<lparr>e_err := \<lambda>_. ERR_FAIL\<rparr>"

definition sample_report_sys :: ota_sys where
  "sample_report_sys = sample_sys\<lparr>o_state := POST_DOWNLOAD, o_wq := [Heap 0], o_fresh := 1,
     o_heap := [0 \<mapsto> details_event FINAL_STATUS_REPORT_REQUESTED (DetailsFailed ''Unknown error'')],
     o_job := zero_job\<lparr>ji_filetype_handler := Some (filetype_handler_get_default_ctx sample_env)\<rparr>\<rparr>"

lemma sample_report_inv: "engine_inv sample_report_sys"
proof -
  have "mem_ok [] sample_report_sys"
    by (rule mem_okI [where q = "[0..<OTA_JOB_EVENT_POOL_SIZE]"])
      (auto simp: sample_report_sys_def sample_sys_def owned_def stash_ok_def zero_event_def event_live_def event_at_def)
  then show ?thesis by (simp add: engine_inv_def job_ok_def sample_report_sys_def sample_sys_def)
qed


end
