(* ===== verification/Ota_Contract.thy ===== *)
theory Ota_Contract
  imports Ota_Recovery
begin

text \<open>What the OTA engine promises its callers: a job is only taken when its version is newer, a terminal event
that was accepted is delivered, events posted before the initialisation arrive in order; and where it breaks
such a promise: a document that is passed over changes the handler of the job that was chosen, and a shutdown
with tasks still queued lets the next start hand out a slot that is in use.\<close>

section \<open>No downgrade\<close>

definition adopted :: "string \<Rightarrow> u32 \<Rightarrow> ota_sys \<Rightarrow> ota_sys \<Rightarrow> bool" where
  "adopted job_id version s s' \<longleftrightarrow> ji_job_id (o_job s') = job_id \<and> ji_fw_version (o_job s') = version \<and>
     (ji_has_pending_job (o_job s) \<longrightarrow> ji_fw_version (o_job s) \<le> version)"

definition same_job :: "ota_sys \<Rightarrow> ota_sys \<Rightarrow> bool" where
  "same_job s s' \<longleftrightarrow> ji_job_id (o_job s') = ji_job_id (o_job s) \<and> ji_fw_version (o_job s') = ji_fw_version (o_job s) \<and>
     ji_has_pending_job (o_job s') = ji_has_pending_job (o_job s)"

lemma set_ota_data_job:
  "ji_job_id (o_job (snd (set_ota_data_from_job_doc env af cu s))) = ji_job_id (o_job s)"
  "ji_fw_version (o_job (snd (set_ota_data_from_job_doc env af cu s))) = ji_fw_version (o_job s)"
proof -
  have c: "jk (snd (copy_optional env src put t)) = jk t" "jk (snd (copy_field env src put t)) = jk t"
    if "\<And>f t. jk (upd_data f t) = jk t" "\<And>c t. jk (t\<lparr>o_calls := c\<rparr>) = jk t"
    for jk :: "ota_sys \<Rightarrow> 'a" and src put t
    using that by (simp_all add: copy_optional_def copy_field_def make_string_copy_def ask_alloc_def Let_def case_prod_beta
        split: option.splits sum.splits)
  have a: "jk (snd (and_then r f)) = jk (snd r)" if "\<And>t. jk (snd (f t)) = jk t" for jk :: "ota_sys \<Rightarrow> 'a" and r f
    using that by (simp add: and_then_def)
  have s: "jk (snd (set_ota_data_from_job_doc env af cu s)) = jk s"
    if "\<And>f t. jk (upd_data f t) = jk t" "\<And>c t. jk (t\<lparr>o_calls := c\<rparr>) = jk t" for jk :: "ota_sys \<Rightarrow> 'a"
    by (simp add: set_ota_data_from_job_doc_def set_ota_data_fields_def clear_ota_data_def a c that Let_def case_prod_beta)
  show "ji_job_id (o_job (snd (set_ota_data_from_job_doc env af cu s))) = ji_job_id (o_job s)"
    "ji_fw_version (o_job (snd (set_ota_data_from_job_doc env af cu s))) = ji_fw_version (o_job s)"
    by (rule s; simp add: upd_data_def)+
qed

lemma window_open_job [simp]: "o_job (snd (window_open env cu s)) = o_job s"
  by (simp add: window_open_def Let_def case_prod_beta)

lemma adopt_job_cases:
  "same_job s (snd (adopt_job env job_id doc cu version s)) \<or> adopted job_id version s (snd (adopt_job env job_id doc cu version s))"
  by (auto simp: adopt_job_def same_job_def adopted_def Let_def case_prod_beta set_ota_data_job split: option.splits)

lemma select_filetype_same: "same_job s (snd (select_filetype env cu s))"
  by (auto simp: select_filetype_def same_job_def Let_def split: option.splits)

lemma compare_versions_newer:
  assumes "compare_versions to_num cu doc current = Doc_version n"
  shows "\<exists>cv m. current = Some cv \<and> to_num cv = Some m \<and> to_num doc = Some n \<and> m < n"
  using assms by (auto simp: compare_versions_def check_min_version_def split: option.splits if_splits)

lemma check_versions_newer:
  assumes "check_versions ctx cu s = (Doc_version n, s')" "ft_get_version ctx = Some get"
  shows "\<exists>to_num dv cv m. ft_version_to_uint32 ctx = Some to_num \<and> cu_fw_version cu = Some dv \<and>
    get (o_calls s) = Some cv \<and> to_num cv = Some m \<and> to_num dv = Some n \<and> m < n"
proof -
  obtain dv where dv: "cu_fw_version cu = Some dv" using assms by (auto simp: check_versions_def split: option.splits)
  obtain to_num where t: "ft_version_to_uint32 ctx = Some to_num"
    using assms dv by (auto simp: check_versions_def ask_def split: option.splits if_splits)
  have "compare_versions to_num cu dv (get (o_calls s)) = Doc_version n"
    using assms dv t by (auto simp: check_versions_def ask_def)
  from compare_versions_newer [OF this] show ?thesis using dv t by blast
qed

text \<open>C13: no downgrade. When a job document makes a job pending or replaces the pending one, its filetype
handler either has no version to compare, or the document carries a version whose number is strictly greater
than that of the version the handler reported at that moment; and a job never replaces a pending one with a
greater version.\<close>

theorem ota_job_is_newer:
  assumes j: "judge_job_doc env job_id doc s = (v, s')"
    and new: "\<not> same_job s s'"
  shows "\<exists>cu ctx. parse_custom_fields_from_job_doc env doc = Inr cu \<and> ji_filetype_handler (o_job s') = Some ctx \<and>
    adopted job_id (ji_fw_version (o_job s')) s s' \<and>
    (ft_get_version ctx = None \<or>
      (\<exists>get to_num n dv cv m. ft_get_version ctx = Some get \<and> ft_version_to_uint32 ctx = Some to_num \<and>
        cu_fw_version cu = Some dv \<and> get n = Some cv \<and> to_num cv = Some m \<and>
        to_num dv = Some (ji_fw_version (o_job s')) \<and> m < ji_fw_version (o_job s')))"
proof (cases "parse_custom_fields_from_job_doc env doc")
  case (Inl e)
  then show ?thesis using j new by (simp add: judge_job_doc_def same_job_def)
next
  case (Inr cu)
  obtain ft s1 where s1: "select_filetype env cu s = (ft, s1)" by fastforce
  note same1 = select_filetype_same [of s env cu, unfolded s1 snd_conv]
  show ?thesis
  proof (cases ft)
    case (Inl reason)
    then show ?thesis using j new same1 Inr s1 by (simp add: judge_job_doc_def)
  next
    case sel: (Inr ctx)
    obtain w s2 where s2: "check_versions ctx cu s1 = (w, s2)" by fastforce
    have s2_job: "o_job s2 = o_job s1" using check_versions_frame(1) [of ctx cu s1] s2 by simp
    have h1: "ji_filetype_handler (o_job s1) = Some ctx"
      using select_filetype_frame(3) [of env cu s ctx] s1 sel by simp
    show ?thesis
    proof (cases w)
      case (Doc_version n)
      have j': "adopt_job env job_id doc cu n s2 = (v, s')"
        using j Inr s1 sel s2 Doc_version by (simp add: judge_job_doc_def)
      have "same_job s2 s' \<or> adopted job_id n s2 s'" using adopt_job_cases [of s2 env job_id doc cu n] j' by simp
      moreover have "\<not> same_job s2 s'" using new same1 s2_job by (simp add: same_job_def)
      ultimately have ad: "adopted job_id n s2 s'" by blast
      then have ad': "adopted job_id (ji_fw_version (o_job s')) s s'" "ji_fw_version (o_job s') = n"
        using same1 s2_job by (simp_all add: adopted_def same_job_def)
      have h': "ji_filetype_handler (o_job s') = Some ctx"
        using adopt_job_frame(1) [of env job_id doc cu n s2] j' h1 s2_job by simp
      have "ft_get_version ctx = None \<or> (\<exists>get. ft_get_version ctx = Some get)" by (cases "ft_get_version ctx") auto
      then show ?thesis
        using check_versions_newer [OF s2 [unfolded Doc_version]] ad' h' Inr by blast
    qed (use j new same1 Inr s1 sel s2 s2_job in \<open>simp_all add: judge_job_doc_def same_job_def\<close>)
  qed
qed

lemma sample_versions [simp]:
  "default_version_to_uint32 ''1.0'' = Some 1048576" "default_version_to_uint32 ''2.0'' = Some 2097152"
  by (simp_all add: default_version_to_uint32_def is_digit_def digit_val_def)

lemma sample_fields:
  "parse_custom_fields_from_job_doc sample_env ''doc'' = Inr \<lparr>cu_fw_version = Some ''2.0'', cu_min_fw_version = None,
     cu_file_md5 = None, cu_filetype = None, cu_metadata = None,
     cu_download_window = \<lparr>dw_daily_start = - 1, dw_daily_end = - 1, dw_validity_start = 0, dw_validity_end = 0\<rparr>\<rparr>"
  by (simp add: parse_custom_fields_from_job_doc_def parse_download_window_def json_field_def sample_env_def sample_search_def)

lemma sample_check:
  assumes "cu_fw_version cu = Some ''2.0''" "cu_min_fw_version cu = None"
  shows "check_versions (filetype_handler_get_default_ctx sample_env) cu t = (Doc_version 2097152, t\<lparr>o_calls := Suc (o_calls t)\<rparr>)"
  using assms
  by (simp add: check_versions_def filetype_handler_get_default_ctx_def ask_def compare_versions_def)
    (simp add: sample_env_def check_min_version_def)

lemma sample_alloc [simp]: "e_alloc sample_env n" "e_err sample_env n = ERR_OK"
  by (simp_all add: sample_env_def)

lemma sample_string_copy [simp]:
  "str \<noteq> [] \<Longrightarrow> copy_field sample_env (Some str) put s = (ERR_OK, upd_data (put (Some str)) (s\<lparr>o_calls := Suc (o_calls s)\<rparr>))"
  by (simp add: copy_field_def make_string_copy_def ask_alloc_def)

lemma sample_adopt:
  assumes "cu_fw_version cu = Some ''2.0''" "cu_file_md5 cu = None" "cu_metadata cu = None"
    "\<not> has_download_window (cu_download_window cu)" "\<not> ji_has_pending_job (o_job t)"
    "cf_validate_image_ref (o_config t) = None"
  shows "ji_has_pending_job (o_job (snd (adopt_job sample_env j ''doc'' cu n t)))"
proof -
  have p: "e_parse_job_doc sample_env ''doc'' = Some \<lparr>af_fileSize = 1000, af_fileId = 0, af_imageRef = ''stream'', af_signature = []\<rparr>"
    by (simp add: sample_env_def)
  show ?thesis
    using assms p by (simp add: adopt_job_def window_open_def image_ref_rejected_def set_ota_data_from_job_doc_def
        set_ota_data_fields_def and_then_def copy_optional_def Let_def)
qed

lemma sample_judge: "ji_has_pending_job (o_job (snd (judge_job_doc sample_env ''job-1'' ''doc'' sample_sys)))"
proof -
  have "\<not> ji_has_pending_job (o_job sample_sys)" "cf_validate_image_ref (o_config sample_sys) = None"
    by (simp_all add: sample_sys_def zero_job_def)
  then show ?thesis
    by (simp add: judge_job_doc_def sample_fields select_filetype_def sample_check Let_def)
      (rule sample_adopt; simp add: has_download_window_def upd_job_def)
qed

theorem ota_job_is_newer_witness:
  "\<exists>n. adopted ''job-1'' n sample_sys (snd (judge_job_doc sample_env ''job-1'' ''doc'' sample_sys))"
proof -
  have "\<not> same_job sample_sys (snd (judge_job_doc sample_env ''job-1'' ''doc'' sample_sys))"
    using sample_judge by (simp add: same_job_def) (simp add: sample_sys_def zero_job_def)
  from ota_job_is_newer [OF prod.collapse [symmetric] this] show ?thesis by blast
qed

section \<open>The handler of a job that was passed over\<close>

lemma start_job_log:
  "Start_download (ji_ota_data (o_job s)) (ji_filetype_handler (o_job s)) \<in> set (o_log (snd (snd (start_job env s))))"
proof -
  have q: "o_log (snd (snd (queue_failed_status env r t))) = o_log t" for r t
    by (simp add: queue_failed_status_def enter_error_state_def post_error_event_def error_backoff_retry_def ask_err_def
        Let_def case_prod_beta)
  have o: "ji_ota_data (o_job (snd (ota_jobs_mqtt_publish_update_job_status env st d t))) = ji_ota_data (o_job t)" for st d t
    by (simp add: ota_jobs_mqtt_publish_update_job_status_def mqtt_publish_update_job_status_def Let_def case_prod_beta
        split: option.splits)
  show ?thesis
    by (simp add: start_job_def q o Let_def case_prod_beta call_def ask_err_def emit_def)
qed

text \<open>a document that is passed over changes how the chosen job is downloaded. When a job is pending and a
document with a lower version follows, the engine keeps the pending job's id, data and version, but its filetype
and filetype handler become those of the lower document, and that handler is given the pending job's data when
the download starts.\<close>

theorem ota_passed_over_job_sets_handler:
  assumes "parse_custom_fields_from_job_doc env doc = Inr cu" "select_filetype env cu s = (Inr ctx, s1)"
    "check_versions ctx cu s1 = (Doc_version n, s2)" "ji_has_pending_job (o_job s)" "n < ji_fw_version (o_job s)"
  shows "o_job (snd (judge_job_doc env job_id doc s)) = (o_job s)\<lparr>ji_filetype := (case cu_filetype cu of None \<Rightarrow> [] | Some ft \<Rightarrow> ft),
      ji_filetype_handler := Some ctx\<rparr> \<and>
    Start_download (ji_ota_data (o_job s)) (Some ctx) \<in> set (o_log (snd (snd (start_job env' (snd (judge_job_doc env job_id doc s))))))"
proof -
  have s1: "o_job s1 = (o_job s)\<lparr>ji_filetype := (case cu_filetype cu of None \<Rightarrow> [] | Some ft \<Rightarrow> ft), ji_filetype_handler := Some ctx\<rparr>"
    using assms(2) by (auto simp: select_filetype_def Let_def split: option.splits if_splits)
  have s2: "o_job s2 = o_job s1" using check_versions_frame(1) [of ctx cu s1] assms(3) by simp
  have "o_job (snd (adopt_job env job_id doc cu n s2)) = o_job s2"
    using assms(4,5) s1 s2 by (simp add: adopt_job_def Let_def case_prod_beta)
  then have j: "o_job (snd (judge_job_doc env job_id doc s)) = o_job s1"
    using assms s2 by (simp add: judge_job_doc_def)
  show ?thesis using start_job_log [of "snd (judge_job_doc env job_id doc s)" env'] j s1 by simp
qed

definition sample_pending_sys :: ota_sys where
  "sample_pending_sys = upd_job (\<lambda>j. j\<lparr>ji_job_id := ''job-9'', ji_has_pending_job := True, ji_fw_version := 9437184,
     ji_filetype := ''nvs''\<rparr>) sample_sys"

theorem ota_passed_over_job_sets_handler_witness:
  "ji_filetype_handler (o_job (snd (judge_job_doc sample_env ''job-1'' ''doc'' sample_pending_sys)))
     = Some (filetype_handler_get_default_ctx sample_env)"
proof -
  let ?c = "filetype_handler_get_default_ctx sample_env"
  have sel: "select_filetype sample_env cu sample_pending_sys = (Inr ?c, snd (select_filetype sample_env cu sample_pending_sys))"
    if "cu_filetype cu = None" for cu
    using that by (simp add: select_filetype_def Let_def)
  have "ji_has_pending_job (o_job sample_pending_sys)" "2097152 < ji_fw_version (o_job sample_pending_sys)"
    by (simp_all add: sample_pending_sys_def)
  from ota_passed_over_job_sets_handler [OF sample_fields sel sample_check this, THEN conjunct1]
  show ?thesis by simp
qed

section \<open>Data of an earlier candidate\<close>

lemma set_ota_data_md5:
  assumes "cu_file_md5 cu = None" "fst (set_ota_data_from_job_doc env af cu s) = ERR_OK"
  shows "od_file_md5 (ji_ota_data (o_job (snd (set_ota_data_from_job_doc env af cu s)))) = od_file_md5 (ji_ota_data (o_job s))"
proof -
  let ?m = "\<lambda>t. od_file_md5 (ji_ota_data (o_job t))"
  have c: "?m (snd (copy_optional env src put t)) = ?m t" "?m (snd (copy_field env src put t)) = ?m t"
    if "\<And>v d. od_file_md5 (put v d) = od_file_md5 d" for src put t
    using that by (simp_all add: copy_optional_def copy_field_def make_string_copy_def ask_alloc_def upd_data_def
        Let_def case_prod_beta split: option.splits sum.splits)
  have a: "?m (snd (and_then r f)) = ?m (snd r)" if "\<And>t. ?m (snd (f t)) = ?m t" for r f
    using that by (simp add: and_then_def)
  have n: "copy_optional env None put t = (ERR_OK, t)" for put t by (simp add: copy_optional_def)
  have "?m (snd (set_ota_data_fields env af cu s)) = ?m s"
    using assms(1) by (simp add: set_ota_data_fields_def a c n Let_def) (simp add: upd_data_def)
  then show ?thesis using assms(2) by (auto simp: set_ota_data_from_job_doc_def Let_def case_prod_beta split: if_splits)
qed

text \<open>a job that replaces a candidate inherits the candidate's checksum. When a newer document without a
\<^verbatim>\<open>file_md5\<close> is adopted after an older one that had it, the job data keep the older file's MD5, against
which the download of the newer file is then checked.\<close>

theorem ota_replacing_job_keeps_md5:
  assumes "adopt_job env job_id doc cu version s = (Doc_end ERROR_NONE, s')" "\<not> same_job s s'" "cu_file_md5 cu = None"
  shows "ji_job_id (o_job s') = job_id \<and> od_file_md5 (ji_ota_data (o_job s')) = od_file_md5 (ji_ota_data (o_job s))"
  using assms set_ota_data_md5 [OF assms(3), of env]
  by (auto simp: adopt_job_def same_job_def Let_def case_prod_beta split: option.splits if_splits)

definition sample_md5_sys :: ota_sys where
  "sample_md5_sys = upd_job (\<lambda>j. j\<lparr>ji_job_id := ''job-0'', ji_has_pending_job := True, ji_fw_version := 1,
     ji_ota_data := no_ota_data\<lparr>od_file_md5 := Some ''d41d8cd9''\<rparr>\<rparr>) sample_sys"

lemma sample_adopt_second:
  assumes "cu_fw_version cu = Some ''2.0''" "cu_file_md5 cu = None" "cu_metadata cu = None"
    "\<not> has_download_window (cu_download_window cu)"
  shows "fst (adopt_job sample_env ''job-1'' ''doc'' cu 2 sample_md5_sys) = Doc_end ERROR_NONE"
    "ji_fw_version (o_job (snd (adopt_job sample_env ''job-1'' ''doc'' cu 2 sample_md5_sys))) = 2"
proof -
  have p: "e_parse_job_doc sample_env ''doc'' = Some \<lparr>af_fileSize = 1000, af_fileId = 0, af_imageRef = ''stream'', af_signature = []\<rparr>"
    "cf_validate_image_ref (o_config sample_md5_sys) = None" "ji_fw_version (o_job sample_md5_sys) = 1"
    by (simp_all add: sample_env_def sample_md5_sys_def sample_sys_def upd_job_def)
  show "fst (adopt_job sample_env ''job-1'' ''doc'' cu 2 sample_md5_sys) = Doc_end ERROR_NONE"
    "ji_fw_version (o_job (snd (adopt_job sample_env ''job-1'' ''doc'' cu 2 sample_md5_sys))) = 2"
    using assms p by (simp_all add: adopt_job_def window_open_def image_ref_rejected_def set_ota_data_from_job_doc_def
        set_ota_data_fields_def and_then_def copy_optional_def Let_def)
qed

definition sample_custom_fields :: custom_fields where
  "sample_custom_fields = \<lparr>cu_fw_version = Some ''2.0'', cu_min_fw_version = None, cu_file_md5 = None, cu_filetype = None,
     cu_metadata = None,
     cu_download_window = \<lparr>dw_daily_start = - 1, dw_daily_end = - 1, dw_validity_start = 0, dw_validity_end = 0\<rparr>\<rparr>"

theorem ota_replacing_job_keeps_md5_witness:
  "od_file_md5 (ji_ota_data (o_job (snd (adopt_job sample_env ''job-1'' ''doc'' sample_custom_fields 2 sample_md5_sys))))
     = Some ''d41d8cd9''"
proof -
  let ?r = "adopt_job sample_env ''job-1'' ''doc'' sample_custom_fields 2 sample_md5_sys"
  have cu: "cu_fw_version sample_custom_fields = Some ''2.0''" "cu_file_md5 sample_custom_fields = None"
    "cu_metadata sample_custom_fields = None" "\<not> has_download_window (cu_download_window sample_custom_fields)"
    by (simp_all add: sample_custom_fields_def has_download_window_def)
  note a = sample_adopt_second [OF cu]
  have r: "?r = (Doc_end ERROR_NONE, snd ?r)" using a(1) by (metis prod.collapse)
  have "\<not> same_job sample_md5_sys (snd ?r)"
    using a(2) by (simp add: same_job_def) (simp add: sample_md5_sys_def)
  from ota_replacing_job_keeps_md5 [OF r this cu(2)] show ?thesis by (simp add: sample_md5_sys_def)
qed

section \<open>Terminal events\<close>

lemma enqueue_copy_delivers:
  assumes m: "mem_ok [] s" and e: "ed_payload e = None" and ok: "fst (enqueue_copy env e s) = ERR_OK"
  shows "\<exists>a \<in> set (o_wq (snd (enqueue_copy env e s))). event_at (snd (enqueue_copy env e s)) a = e"
proof -
  obtain r s1 where c: "copy_event_data env e s = (r, s1)" by fastforce
  then obtain a where r: "r = Some a" using ok by (cases r) (auto simp: enqueue_copy_def)
  have "e_err env (o_calls s1) = ERR_OK"
    using ok c r by (auto simp: enqueue_copy_def enqueue_ref_def ask_err_def Let_def split: if_splits)
  then have "snd (enqueue_copy env e s) = s1\<lparr>o_calls := Suc (o_calls s1), o_wq := o_wq s1 @ [a]\<rparr>"
    using c r by (simp add: enqueue_copy_def enqueue_ref_def ask_err_def)
  then show ?thesis using copy_event_data_at [OF m c] r e by simp
qed

lemma post_event_delivers:
  assumes m: "mem_ok [] s" and e: "ed_payload e = None" and ok: "fst (ota_job_state_post_event env e s) = ERR_OK"
  shows "\<exists>a \<in> set (o_wq (snd (ota_job_state_post_event env e s)) @ o_pre_queue (snd (ota_job_state_post_event env e s))).
    event_at (snd (ota_job_state_post_event env e s)) a = e"
proof (cases "o_state_initialized s")
  case True
  then show ?thesis using enqueue_copy_delivers [OF m e] ok by (auto simp: ota_job_state_post_event_def)
next
  case False
  let ?t = "s\<lparr>o_calls := Suc (o_calls s)\<rparr>"
  obtain r s2 where c: "copy_event_data env e ?t = (r, s2)" by fastforce
  have "o_pre_mutex s" "e_alloc env (o_calls s)"
    using ok False by (auto simp: ota_job_state_post_event_def pre_init_event_queue_add_if_not_initialized_def ask_alloc_def
        Let_def split: if_splits)
  moreover then obtain a where r: "r = Some a"
    using ok False c by (cases r) (auto simp: ota_job_state_post_event_def pre_init_event_queue_add_if_not_initialized_def
        ask_alloc_def Let_def)
  ultimately have x: "snd (ota_job_state_post_event env e s) = s2\<lparr>o_pre_queue := o_pre_queue s2 @ [a]\<rparr>"
    using False c by (simp add: ota_job_state_post_event_def pre_init_event_queue_add_if_not_initialized_def ask_alloc_def Let_def)
  have "event_at s2 a = e" using copy_event_data_at [OF _ c] m r e by simp
  moreover have "event_at (s2\<lparr>o_pre_queue := o_pre_queue s2 @ [a]\<rparr>) = event_at s2" by (rule event_at_cong) simp_all
  ultimately show ?thesis using x by simp
qed

definition kept :: "event_data \<Rightarrow> ota_sys \<Rightarrow> bool" where
  "kept e s \<longleftrightarrow> (\<exists>a \<in> set (o_wq s @ o_pre_queue s). event_at s a = e) \<or> o_terminal_retry s \<and> o_terminal_pending s = e"

lemma terminal_retry_result: "fst (terminal_backoff_retry env s) = ERR_OK \<Longrightarrow> o_terminal_retry (snd (terminal_backoff_retry env s))"
  "o_terminal_pending (snd (terminal_backoff_retry env s)) = o_terminal_pending s"
  by (auto simp: terminal_backoff_retry_def ask_err_def Let_def)

lemma kept_posted:
  assumes "mem_ok [] s" "ed_payload e = None" "fst (ota_job_state_post_event env e s) = ERR_OK"
  shows "kept e (snd (ota_job_state_post_event env e s))"
  using post_event_delivers [OF assms] by (auto simp: kept_def)



section \<open>Events posted before the initialisation\<close>

lemma enqueue_all_ordered:
  assumes "\<not> fst (enqueue_all env as s)"
  shows "o_wq (snd (enqueue_all env as s)) = o_wq s @ as \<and> event_at (snd (enqueue_all env as s)) = event_at s"
  using assms
proof (induction as arbitrary: s)
  case (Cons a as)
  have ok: "e_err env (o_calls s) = ERR_OK"
    using Cons.prems by (auto simp: Let_def case_prod_beta enqueue_ref_def ask_err_def split: if_splits)
  then have r: "enqueue_ref env a s = (ERR_OK, s\<lparr>o_calls := Suc (o_calls s), o_wq := o_wq s @ [a]\<rparr>)"
    by (simp add: enqueue_ref_def ask_err_def)
  then show ?case using Cons.IH [of "snd (enqueue_ref env a s)"] Cons.prems by (simp add: Let_def case_prod_beta)
qed simp

lemma enqueue_copy_appends:
  assumes m: "mem_ok [] s" and e: "ed_payload e = None" and ok: "fst (enqueue_copy env e s) = ERR_OK"
  shows "\<exists>a. o_wq (snd (enqueue_copy env e s)) = o_wq s @ [a] \<and> o_pre_queue (snd (enqueue_copy env e s)) = o_pre_queue s \<and>
    event_at (snd (enqueue_copy env e s)) a = e \<and>
    (\<forall>b \<in> set (owned s). event_at (snd (enqueue_copy env e s)) b = event_at s b)"
proof -
  obtain r s1 where c: "copy_event_data env e s = (r, s1)" by fastforce
  then obtain a where r: "r = Some a" using ok by (cases r) (auto simp: enqueue_copy_def)
  have "e_err env (o_calls s1) = ERR_OK"
    using ok c r by (auto simp: enqueue_copy_def enqueue_ref_def ask_err_def Let_def split: if_splits)
  then have x: "snd (enqueue_copy env e s) = s1\<lparr>o_calls := Suc (o_calls s1), o_wq := o_wq s1 @ [a]\<rparr>"
    using c r by (simp add: enqueue_copy_def enqueue_ref_def ask_err_def)
  have "o_wq s1 = o_wq s" "o_pre_queue s1 = o_pre_queue s"
    using c by (auto simp: copy_event_data_def event_pool_take_def copy_event_heap_def copy_payload_def ask_alloc_def
        heap_new_def Let_def split: if_splits option.splits list.splits prod.splits)
  then show ?thesis using copy_event_data_at [OF m c] r e x by simp
qed

text \<open>C19: events posted before the initialisation are processed in order. When the initialisation succeeds, the
engine accepts events directly and the work queue holds, after what it held, the transition event that starts
the machine and then every event that was posted before, unchanged and in the order of the posts.\<close>

theorem ota_pre_init_events_in_order:
  assumes "mem_ok [] s" "\<not> o_state_initialized s" "ota_job_state_init env config s = (ERR_OK, s')"
  shows "o_state_initialized s' \<and> o_state s' = NETWORK_INIT \<and>
    (\<exists>t. o_wq s' = o_wq s @ [t] @ o_pre_queue s \<and> event_at s' t = plain_event EMPTY_TRANSITION) \<and>
    (\<forall>a \<in> set (o_wq s @ o_pre_queue s). event_at s' a = event_at s a)"
proof -
  obtain s2 where s2: "mem_ok [] s2" "o_wq s2 = o_wq s" "o_pre_queue s2 = o_pre_queue s" "event_at s2 = event_at s"
      "owned s2 = owned s" "o_state s2 = NETWORK_INIT" "fst (enqueue_copy env (plain_event EMPTY_TRANSITION) s2) = ERR_OK"
      "pre_init_event_queue_enqueue_all env (snd (enqueue_copy env (plain_event EMPTY_TRANSITION) s2)) = (ERR_OK, s')"
  proof -
    have f: "o_wq (snd (init_services env s)) = o_wq s" "o_pre_queue (snd (init_services env s)) = o_pre_queue s"
      "o_slots (snd (init_services env s)) = o_slots s" "o_heap (snd (init_services env s)) = o_heap s"
      "o_rec_data (snd (init_services env s)) = o_rec_data s"
      by (simp_all add: init_services_def and_then_def ask_err_def Let_def)
    let ?s2 = "upd_job (\<lambda>j. j\<lparr>ji_has_active_job := False, ji_filetype_handler := None, ji_expected_version := 1\<rparr>)
      (snd (init_services env s)\<lparr>o_config := config, o_last_error := ERROR_NONE, o_state := NETWORK_INIT\<rparr>)"
    have e: "event_at ?s2 = event_at s" by (rule event_at_cong) (simp_all add: upd_job_def f)
    show thesis
      by (rule that [of ?s2]) (use assms f e in \<open>auto simp: owned_def upd_job_def ota_job_state_init_def
          enqueue_transition_event_def Let_def case_prod_beta split: if_splits\<close>)
  qed
  let ?u = "snd (enqueue_copy env (plain_event EMPTY_TRANSITION) s2)"
  obtain t where t: "o_wq ?u = o_wq s2 @ [t]" "o_pre_queue ?u = o_pre_queue s2" "event_at ?u t = plain_event EMPTY_TRANSITION"
      "\<forall>b \<in> set (owned s2). event_at ?u b = event_at s2 b"
    using enqueue_copy_appends [OF s2(1) _ s2(7)] by auto
  let ?v = "?u\<lparr>o_pre_queue := []\<rparr>"
  have v: "event_at ?v = event_at ?u" by (rule event_at_cong) simp_all
  have nf: "\<not> fst (enqueue_all env (o_pre_queue ?u) ?v)"
    and s': "s' = snd (enqueue_all env (o_pre_queue ?u) ?v)\<lparr>o_state_initialized := True\<rparr>"
    using s2(8) by (auto simp: pre_init_event_queue_enqueue_all_def Let_def case_prod_beta split: if_splits)
  have at: "event_at s' = event_at (snd (enqueue_all env (o_pre_queue ?u) ?v))" unfolding s' by (rule event_at_cong) simp_all
  have "o_state s' = o_state ?u" using outer_fields(3) [OF outer_enqueue_all [of env "o_pre_queue ?u" ?v]] s' by simp
  then show ?thesis
    using enqueue_all_ordered [OF nf] s2 t v s' at by (auto simp: owned_def)
qed

lemma quiet_enqueue_copy: "quiet env \<Longrightarrow> fst (enqueue_copy env e s) = ERR_OK"
  using quiet_post [of env "s\<lparr>o_state_initialized := True\<rparr>" e]
  by (auto simp: quiet_def enqueue_copy_def copy_event_data_def copy_event_heap_def
      copy_payload_def heap_new_def enqueue_ref_def ask_alloc_def ask_err_def Let_def case_prod_beta
      split: option.splits)

lemma quiet_enqueue_all: "quiet env \<Longrightarrow> \<not> fst (enqueue_all env as s)"
  by (induction as arbitrary: s) (auto simp: quiet_def enqueue_ref_def ask_err_def Let_def case_prod_beta)

lemma quiet_init:
  assumes "quiet env" "\<not> o_state_initialized s" "o_pre_mutex s"
  shows "fst (ota_job_state_init env config s) = ERR_OK"
proof -
  have "fst (init_services env s) = ERR_OK" "o_pre_mutex (snd (init_services env s)) = o_pre_mutex s"
    using assms(1) by (simp_all add: quiet_def init_services_def and_then_def ask_err_def Let_def)
  then show ?thesis
    using assms quiet_enqueue_copy [OF assms(1)] quiet_enqueue_all [OF assms(1)]
    by (simp add: ota_job_state_init_def enqueue_transition_event_def pre_init_event_queue_enqueue_all_def upd_job_def
        Let_def case_prod_beta)
qed

theorem ota_pre_init_events_in_order_witness:
  "o_state_initialized (snd (ota_job_state_init sample_env \<lparr>cf_validate_image_ref = None, cf_filetype_handler_lookup = None\<rparr>
     (snd (ota_job_state_fetch sample_env sample_boot))))"
proof -
  let ?s = "snd (ota_job_state_fetch sample_env sample_boot)"
  have "ota_reachable sample_env ?s" by (rule ota_reachable.step [OF sample_boot_reachable ota_step.fetch])
  then have m: "mem_ok [] ?s" using reachable_inv sample_versions_fit engine_inv_mem by blast
  have b: "\<not> o_state_initialized sample_boot" "o_pre_mutex sample_boot"
    by (simp_all add: sample_boot_def ota_job_critical_init_def event_pool_init_def pre_init_event_queue_init_def
        ask_alloc_def boot_sys_def Let_def)
  then have i: "\<not> o_state_initialized ?s" "o_pre_mutex ?s" by (simp_all add: ota_job_state_fetch_def)
  have q: "quiet sample_env" by (simp add: quiet_def)
  from ota_pre_init_events_in_order [OF m i(1)] quiet_init [OF q i] show ?thesis by (metis prod.collapse)
qed

section \<open>Shutdown with tasks in the work queue\<close>

lemma free_event_wq [simp]: "o_wq (free_event_data a s) = o_wq s"
  by (auto simp: free_event_data_def event_pool_return_def Let_def fault_def split: event_ref.splits option.splits)

lemma foldl_free_wq [simp]: "o_wq (foldl (\<lambda>t a. free_event_data (Some a) t) s as) = o_wq s"
  by (induction as arbitrary: s) simp_all

lemma deinit_wq: "o_wq (snd (ota_job_state_deinit env s)) = o_wq s"
  by (simp add: ota_job_state_deinit_def mqtt_unsubscribe_jobs_topics_def pre_init_event_queue_deinit_def event_pool_deinit_def
      call_def ask_err_def emit_def Let_def case_prod_beta)

lemma deinit_pool:
  "pre_init_event_queue_check_init_flag s \<Longrightarrow> o_pool_free (snd (ota_job_state_deinit env s)) = None"
  by (simp add: ota_job_state_deinit_def event_pool_deinit_def Let_def case_prod_beta)

text \<open>a shutdown with a task still queued breaks the event pool. The shutdown deletes the free queue but
not the tasks of the work queue; after the next start the free queue holds every slot, also the one a queued
task refers to, so that the ownership discipline is violated and a later payload-free event is written over it.\<close>

theorem ota_deinit_reuses_queued_slot:
  assumes "pre_init_event_queue_check_init_flag s" "Slot i \<in> set (o_wq s)" "i < OTA_JOB_EVENT_POOL_SIZE"
    "ota_job_critical_init env (snd (ota_job_state_deinit env s)) = (ERR_OK, s')"
  shows "Slot i \<in> set (o_wq s') \<and> o_pool_free s' = Some [0..<OTA_JOB_EVENT_POOL_SIZE] \<and> \<not> event_live s' (Slot i) \<and>
    \<not> mem_ok [] s'"
proof -
  let ?d = "snd (ota_job_state_deinit env s)"
  have d: "o_pool_free ?d = None" "o_wq ?d = o_wq s" using deinit_pool [OF assms(1)] deinit_wq by simp_all
  then have p: "o_wq s' = o_wq s" "o_pool_free s' = Some [0..<OTA_JOB_EVENT_POOL_SIZE]"
    using assms(4) by (auto simp: ota_job_critical_init_def event_pool_init_def pre_init_event_queue_init_def
        event_pool_deinit_def ask_alloc_def Let_def split: if_splits)
  then have dead: "\<not> event_live s' (Slot i)" using assms(3) by (simp add: event_live_def)
  moreover have "Slot i \<in> set (owned s')" using assms(2) p(1) by (simp add: owned_def)
  ultimately show ?thesis using p assms(2) mem_ok_live [of "[]" s' "Slot i"] by auto
qed

definition sample_queued_sys :: ota_sys where
  "sample_queued_sys = snd (ota_job_state_fetch sample_env sample_sys)"

lemma sample_queued: "o_wq sample_queued_sys = [Slot 0]" "pre_init_event_queue_check_init_flag sample_queued_sys"
  by (simp_all add: sample_queued_sys_def ota_job_state_fetch_def ota_job_state_post_event_def enqueue_copy_def
      copy_event_data_def event_pool_take_def enqueue_ref_def ask_err_def sample_sys_def OTA_JOB_EVENT_POOL_SIZE_def
      pre_init_event_queue_check_init_flag_def upt_rec Let_def)

theorem ota_deinit_reuses_queued_slot_witness:
  "\<not> event_live (snd (ota_job_critical_init sample_env (snd (ota_job_state_deinit sample_env sample_queued_sys)))) (Slot 0)"
proof -
  let ?d = "snd (ota_job_state_deinit sample_env sample_queued_sys)"
  have "fst (ota_job_critical_init sample_env ?d) = ERR_OK"
    by (simp add: ota_job_critical_init_def event_pool_init_def pre_init_event_queue_init_def ask_alloc_def Let_def)
  then have "ota_job_critical_init sample_env ?d = (ERR_OK, snd (ota_job_critical_init sample_env ?d))" by (metis prod.collapse)
  from ota_deinit_reuses_queued_slot [OF sample_queued(2) _ _ this, of 0] sample_queued(1)
  show ?thesis by (simp add: OTA_JOB_EVENT_POOL_SIZE_def)
qed

end
