(* ===== verification/Ota_Status.thy ===== *)
theory Ota_Status
  imports Ota_Job_Doc
begin

text \<open>The status manager of the OTA engine, \<^verbatim>\<open>ota_status.c\<close>: a linked list with one entry per job, which
holds the expected version of the job's next update and, for a terminal status, the update itself with a
retry timer until the service accepts it. The list is a list; an entry's address is its pointer, so that a
timer that outlives its entry is visible. The environment answers as it does for the engine.\<close>

section \<open>Data\<close>

text \<open>\<^verbatim>\<open>je_retry\<close>: no timer, or a timer that is armed or has fired.\<close>

record job_entries =
  je_addr :: nat
  je_job_id :: string
  je_job_id_int :: u32
  je_version :: int
  je_has_terminal :: bool
  je_status :: job_status
  je_details :: "string option"
  je_expected :: int
  je_delay :: u64
  je_retry :: "bool option"

record status_cache =
  sc_entries :: "job_entries list"
  sc_next_int :: u32
  sc_count :: nat

record status_update =
  su_status :: job_status
  su_job_id :: string
  su_details :: "string option"

record response_return =
  rr_job_id :: string
  rr_is_terminal :: bool
  rr_is_unrecoverable :: bool

datatype publication = Update string job_status "string option" int bool u32

text \<open>\<^verbatim>\<open>st_cache\<close> is \<^verbatim>\<open>p_ota_status_cache\<close>, \<^verbatim>\<open>None\<close> for \<^verbatim>\<open>NULL\<close>.\<close>

record status_sys =
  st_cache :: "status_cache option"
  st_calls :: nat
  st_fresh :: nat
  st_published :: "publication list"
  st_fault :: bool

definition RETRY_INITIAL_DELAY_MS :: u64 where
  "RETRY_INITIAL_DELAY_MS = 1000"

definition RETRY_MAX_DELAY_MS :: u64 where
  "RETRY_MAX_DELAY_MS = 60 * 1000"

definition st_err :: "ota_env \<Rightarrow> status_sys \<Rightarrow> err \<times> status_sys" where
  "st_err env s = (e_err env (st_calls s), s\<lparr>st_calls := Suc (st_calls s)\<rparr>)"

definition st_alloc :: "ota_env \<Rightarrow> status_sys \<Rightarrow> bool \<times> status_sys" where
  "st_alloc env s = (e_alloc env (st_calls s), s\<lparr>st_calls := Suc (st_calls s)\<rparr>)"

definition st_fail :: "status_sys \<Rightarrow> status_sys" where
  "st_fail s = s\<lparr>st_fault := True\<rparr>"

text \<open>Access through a pointer: the entry it points to, which must be in the list.\<close>

definition entries :: "status_sys \<Rightarrow> job_entries list" where
  "entries s = (case st_cache s of None \<Rightarrow> [] | Some c \<Rightarrow> sc_entries c)"

definition entry_at :: "nat \<Rightarrow> status_sys \<Rightarrow> job_entries option" where
  "entry_at p s = List.find (\<lambda>j. je_addr j = p) (entries s)"

definition upd_cache :: "(status_cache \<Rightarrow> status_cache) \<Rightarrow> status_sys \<Rightarrow> status_sys" where
  "upd_cache f s = s\<lparr>st_cache := map_option f (st_cache s)\<rparr>"

definition upd_entry :: "nat \<Rightarrow> (job_entries \<Rightarrow> job_entries) \<Rightarrow> status_sys \<Rightarrow> status_sys" where
  "upd_entry p f s =
     upd_cache (\<lambda>c. c\<lparr>sc_entries := map (\<lambda>j. if je_addr j = p then f j else j) (sc_entries c)\<rparr>) s"

section \<open>The cache\<close>

definition ota_status_cache_init :: "ota_env \<Rightarrow> status_sys \<Rightarrow> err \<times> status_sys" where
  "ota_status_cache_init env s =
     (let (ok, s1) = st_alloc env s
      in if \<not> ok then (ERR_NO_MEM, s1\<lparr>st_cache := None\<rparr>)
         else let (ok2, s2) = st_alloc env s1
              in if \<not> ok2 then (ERR_NO_MEM, s2\<lparr>st_cache := None\<rparr>)
                 else (ERR_OK, s2\<lparr>st_cache := Some \<lparr>sc_entries = [], sc_next_int = 1, sc_count = 0\<rparr>\<rparr>))"

definition ota_status_cache_deinit :: "status_sys \<Rightarrow> err \<times> status_sys" where
  "ota_status_cache_deinit s = (ERR_OK, s\<lparr>st_cache := None\<rparr>)"

definition new_entry :: "nat \<Rightarrow> string \<Rightarrow> u32 \<Rightarrow> job_entries" where
  "new_entry p job_id n =
     \<lparr>je_addr = p, je_job_id = job_id, je_job_id_int = n, je_version = 1, je_has_terminal = False, je_status = Queued,
      je_details = None, je_expected = 0, je_delay = RETRY_INITIAL_DELAY_MS, je_retry = None\<rparr>"

text \<open>The pointer to the entry of a job, found or created at the tail; reading the cache through \<^verbatim>\<open>NULL\<close> is
a fault.\<close>

definition get_or_create_job_entries :: "ota_env \<Rightarrow> string \<Rightarrow> status_sys \<Rightarrow> (err + nat) \<times> status_sys" where
  "get_or_create_job_entries env job_id s =
     (if job_id = [] \<or> length job_id > e_jobid_max env then (Inl ERR_INVALID_ARG, s)
      else case st_cache s of
             None \<Rightarrow> (Inl ERR_FAIL, st_fail s)
           | Some c \<Rightarrow>
               (case List.find (\<lambda>j. je_job_id j = job_id) (sc_entries c) of
                  Some j \<Rightarrow> (Inr (je_addr j), s)
                | None \<Rightarrow>
                    (let (ok, s1) = st_alloc env s; p = st_fresh s1
                     in if \<not> ok then (Inl ERR_NO_MEM, s1)
                        else (Inr p, s1\<lparr>st_fresh := Suc p, st_cache := Some (c\<lparr>
                               sc_entries := sc_entries c @ [new_entry p job_id (sc_next_int c)],
                               sc_next_int := sc_next_int c + 1\<rparr>)\<rparr>))))"

definition find_job_entries_by_int :: "u32 \<Rightarrow> status_sys \<Rightarrow> job_entries option" where
  "find_job_entries_by_int n s = List.find (\<lambda>j. je_job_id_int j = n) (entries s)"

text \<open>A first schedule creates the timer, later ones reset it.\<close>

definition schedule_or_reset_retry :: "ota_env \<Rightarrow> nat \<Rightarrow> status_sys \<Rightarrow> err \<times> status_sys" where
  "schedule_or_reset_retry env p s =
     (let (err, s1) = st_err env s
      in if err \<noteq> ERR_OK then (ERR_FAIL, s1) else (ERR_OK, upd_entry p (\<lambda>j. j\<lparr>je_retry := Some True\<rparr>) s1))"

definition details_given :: "string option \<Rightarrow> string option" where
  "details_given d = (case d of None \<Rightarrow> None | Some str \<Rightarrow> if str = [] then None else Some str)"

definition set_cached_terminal :: "ota_env \<Rightarrow> job_entries \<Rightarrow> status_update \<Rightarrow> int \<Rightarrow> status_sys \<Rightarrow> err \<times> status_sys" where
  "set_cached_terminal env j u expected s =
     (let p = je_addr j; s0 = upd_entry p (\<lambda>j. j\<lparr>je_details := None\<rparr>) s;
          (ok, s1) = (case details_given (su_details u) of None \<Rightarrow> (True, s0) | Some _ \<Rightarrow> st_alloc env s0)
      in if \<not> ok then (ERR_NO_MEM, s1)
         else schedule_or_reset_retry env p
                (upd_entry p (\<lambda>j. j\<lparr>je_details := details_given (su_details u), je_status := su_status u,
                                    je_expected := expected, je_has_terminal := True,
                                    je_delay := RETRY_INITIAL_DELAY_MS\<rparr>)
                  (if je_has_terminal j then s1 else upd_cache (\<lambda>c. c\<lparr>sc_count := Suc (sc_count c)\<rparr>) s1)))"

text \<open>Unlinks the entry, stops its timer and frees it.\<close>

definition remove_job_entries :: "nat \<Rightarrow> status_sys \<Rightarrow> status_sys" where
  "remove_job_entries p s = (case entry_at p s of
     None \<Rightarrow> s
   | Some j \<Rightarrow>
       upd_cache (\<lambda>c. c\<lparr>sc_entries := filter (\<lambda>k. je_addr k \<noteq> p) (sc_entries c),
                        sc_count := (if je_has_terminal j \<and> sc_count c > 0 then sc_count c - 1 else sc_count c)\<rparr>) s)"

definition is_terminal :: "job_status \<Rightarrow> bool" where
  "is_terminal st = (st = Failed \<or> st = Succeeded \<or> st = Rejected)"

section \<open>Publishing\<close>

text \<open>The decimal version must fit the ten bytes of \<^verbatim>\<open>expected_version_str\<close> with its terminator.\<close>

definition version_str_fits :: "int \<Rightarrow> bool" where
  "version_str_fits v = (- 100000000 < v \<and> v < 1000000000)"

definition publish_update :: "ota_env \<Rightarrow> status_update \<Rightarrow> int \<Rightarrow> bool \<Rightarrow> u32 \<Rightarrow> status_sys \<Rightarrow> err \<times> status_sys" where
  "publish_update env u expected terminal n s =
     (let (topic, s1) = st_err env s
      in if topic \<noteq> ERR_OK then (ERR_FAIL, s1)
         else if \<not> version_str_fits expected then (ERR_FAIL, s1)
         else let (msg, s2) = st_err env s1
              in if msg \<noteq> ERR_OK then (ERR_FAIL, s2)
                 else let (err, s3) = st_err env s2
                      in if err \<noteq> ERR_OK then (ERR_FAIL, s3)
                         else (ERR_OK, s3\<lparr>st_published := st_published s3 @
                                [Update (su_job_id u) (su_status u) (details_given (su_details u)) expected terminal n]\<rparr>))"

text \<open>The increment of an \<^verbatim>\<open>int32_t\<close>.\<close>

definition bump_version :: "nat \<Rightarrow> int \<Rightarrow> status_sys \<Rightarrow> status_sys" where
  "bump_version p v s =
     (if v < 2147483647 then upd_entry p (\<lambda>j. j\<lparr>je_version := v + 1\<rparr>) s else st_fail s)"

definition overwrite_version :: "ota_env \<Rightarrow> string \<Rightarrow> int \<Rightarrow> status_sys \<Rightarrow> err \<times> status_sys" where
  "overwrite_version env job_id version s =
     (if job_id = [] then (ERR_INVALID_ARG, s)
      else case get_or_create_job_entries env job_id s of
             (Inl err, s1) \<Rightarrow> (err, s1)
           | (Inr p, s1) \<Rightarrow> (ERR_OK, upd_entry p (\<lambda>j. j\<lparr>je_version := version\<rparr>) s1))"

text \<open>The timer task in its two parts: what it does under the lock, and what it does after it has released
it, with the pointer it was given. A copy of the details that cannot be allocated is left out.\<close>

definition copied_details :: "ota_env \<Rightarrow> string option \<Rightarrow> status_sys \<Rightarrow> string option \<times> status_sys" where
  "copied_details env d s = (case d of
     None \<Rightarrow> (None, s)
   | Some str \<Rightarrow> (let (ok, s1) = st_alloc env s in (if ok then Some str else None, s1)))"

definition retry_take :: "ota_env \<Rightarrow> nat \<Rightarrow> status_sys \<Rightarrow> (status_update \<times> int \<times> u64) option \<times> status_sys" where
  "retry_take env p s = (case entry_at p s of
     None \<Rightarrow> (None, st_fail s)
   | Some j \<Rightarrow>
       if \<not> je_has_terminal j then (None, s)
       else let (d, s1) = copied_details env (je_details j) s;
                next_delay = min (je_delay j * 2) RETRY_MAX_DELAY_MS
            in (Some (\<lparr>su_status = je_status j, su_job_id = je_job_id j, su_details = d\<rparr>, je_version j, next_delay),
                upd_entry p (\<lambda>j. j\<lparr>je_delay := next_delay\<rparr>) (bump_version p (je_version j) s1)))"

definition retry_finish :: "ota_env \<Rightarrow> nat \<Rightarrow> status_update \<times> int \<times> u64 \<Rightarrow> status_sys \<Rightarrow> status_sys" where
  "retry_finish env p t s =
     (let (u, expected, next_delay) = t
      in case entry_at p s of
           None \<Rightarrow> st_fail s
         | Some j \<Rightarrow>
             (let (err, s1) = publish_update env u expected True (je_job_id_int j) s
              in if err = ERR_OK then snd (schedule_or_reset_retry env p s1)
                 else snd (schedule_or_reset_retry env p (snd (overwrite_version env (su_job_id u) expected s1)))))"

definition ota_status_retry_task :: "ota_env \<Rightarrow> nat \<Rightarrow> status_sys \<Rightarrow> status_sys" where
  "ota_status_retry_task env p s = (case retry_take env p s of
     (None, s1) \<Rightarrow> s1
   | (Some t, s1) \<Rightarrow> retry_finish env p t s1)"

section \<open>Parsing responses\<close>

definition reject_is_unrecoverable :: "string \<Rightarrow> bool" where
  "reject_is_unrecoverable code =
     (code \<in> {''ResourceNotFound'', ''TerminalStateReached'', ''InvalidStateTransition'', ''InvalidRequest'',
              ''InvalidTopic'', ''InvalidJson''})"

fun str_to_uint32_loop :: "string \<Rightarrow> u32 \<Rightarrow> u32 option" where
  "str_to_uint32_loop [] v = Some v"
| "str_to_uint32_loop (c # cs) v =
     (if is_digit c then str_to_uint32_loop cs (v * 10 + of_nat (digit_val c)) else None)"

definition str_to_uint32 :: "string \<Rightarrow> u32 option" where
  "str_to_uint32 str = (if str = [] then None else str_to_uint32_loop str 0)"

definition client_token :: "bool \<Rightarrow> u32 \<Rightarrow> string" where
  "client_token terminal n = (if terminal then CHR ''1'' else CHR ''0'') # nat_str (unat n)"

definition parse_token :: "string \<Rightarrow> (bool \<times> u32) option" where
  "parse_token t =
     (if length t < 2 then None
      else case str_to_uint32 (tl t) of
             None \<Rightarrow> None
           | Some n \<Rightarrow> if hd t = CHR ''1'' then Some (True, n) else if hd t = CHR ''0'' then Some (False, n) else None)"

definition token_from_payload :: "ota_env \<Rightarrow> string \<Rightarrow> (bool \<times> u32) option" where
  "token_from_payload env payload = (case e_json_search env payload ''clientToken'' of
     Some (JSONString, t) \<Rightarrow> parse_token t
   | _ \<Rightarrow> None)"

section \<open>The interface\<close>

definition ota_status_deinit :: "status_sys \<Rightarrow> err \<times> status_sys" where
  "ota_status_deinit s = ota_status_cache_deinit s"

definition ota_status_init :: "ota_env \<Rightarrow> nat \<Rightarrow> string \<Rightarrow> status_sys \<Rightarrow> err \<times> status_sys" where
  "ota_status_init env thingname_max thing_name s =
     (if thing_name = [] \<or> length thing_name > thingname_max then (ERR_INVALID_ARG, s)
      else let (err, s1) = ota_status_cache_init env s
           in if err \<noteq> ERR_OK then ota_status_deinit s1 else (ERR_OK, s1))"

definition ota_status_set_initial_expected_version :: "ota_env \<Rightarrow> string \<Rightarrow> int \<Rightarrow> status_sys \<Rightarrow> err \<times> status_sys" where
  "ota_status_set_initial_expected_version env job_id version s =
     (if job_id = [] \<or> length job_id > e_jobid_max env then (ERR_INVALID_ARG, s)
      else overwrite_version env job_id version s)"

definition ota_status_clear_job_entries :: "string \<Rightarrow> status_sys \<Rightarrow> status_sys" where
  "ota_status_clear_job_entries job_id s =
     (if job_id = [] \<or> st_cache s = None then s
      else case List.find (\<lambda>j. je_job_id j = job_id) (entries s) of
             None \<Rightarrow> s | Some j \<Rightarrow> remove_job_entries (je_addr j) s)"

definition ota_status_is_cache_empty :: "status_sys \<Rightarrow> bool" where
  "ota_status_is_cache_empty s = (case st_cache s of None \<Rightarrow> True | Some c \<Rightarrow> sc_count c = 0)"

text \<open>The result and, when the code stores it, the version of the next update.\<close>

definition ota_status_send :: "ota_env \<Rightarrow> status_update \<Rightarrow> status_sys \<Rightarrow> err \<times> int option \<times> status_sys" where
  "ota_status_send env u s =
     (if su_job_id u = [] \<or> length (su_job_id u) > e_jobid_max env \<or> su_status u = Queued then (ERR_INVALID_ARG, None, s)
      else if (case details_given (su_details u) of None \<Rightarrow> False | Some d \<Rightarrow> \<not> e_json_validate env d)
      then (ERR_INVALID_ARG, None, s)
      else case get_or_create_job_entries env (su_job_id u) s of
             (Inl err, s1) \<Rightarrow> (err, None, s1)
           | (Inr p, s1) \<Rightarrow>
               (case entry_at p s1 of
                  None \<Rightarrow> (ERR_FAIL, None, st_fail s1)
                | Some j \<Rightarrow>
                    (let terminal = is_terminal (su_status u); expected = je_version j;
                         (err, s2) = (if terminal then set_cached_terminal env j u expected s1 else (ERR_OK, s1))
                     in if err \<noteq> ERR_OK then (err, None, s2)
                        else let (perr, s4) = publish_update env u expected terminal (je_job_id_int j) (bump_version p expected s2)
                             in if perr \<noteq> ERR_OK
                                then (if terminal then ERR_OK else perr, Some expected,
                                      snd (overwrite_version env (su_job_id u) expected s4))
                                else (ERR_OK, Some (expected + 1), s4))))"

definition cached_update :: "job_entries \<Rightarrow> string option \<Rightarrow> status_update" where
  "cached_update j d = \<lparr>su_status = je_status j, su_job_id = je_job_id j, su_details = d\<rparr>"

definition version_mismatch :: "ota_env \<Rightarrow> string \<Rightarrow> job_entries \<Rightarrow> status_sys \<Rightarrow> err \<times> status_sys" where
  "version_mismatch env payload j s = (case e_json_search env payload ''executionState.versionNumber'' of
     Some (JSONNumber, v) \<Rightarrow>
       (case str_to_uint32 v of
          None \<Rightarrow> (ERR_INVALID_ARG, s)
        | Some n \<Rightarrow>
            (let s1 = upd_entry (je_addr j) (\<lambda>j. j\<lparr>je_version := sint n\<rparr>) s
             in if \<not> je_has_terminal j then (ERR_OK, s1)
                else let (d, s2) = copied_details env (je_details j) s1
                     in (ERR_OK, snd (snd (ota_status_send env (cached_update j d) s2)))))
   | _ \<Rightarrow> (ERR_INVALID_ARG, s))"

definition ota_status_on_update_response ::
    "ota_env \<Rightarrow> string \<Rightarrow> bool \<Rightarrow> status_sys \<Rightarrow> (err \<times> response_return option) \<times> status_sys" where
  "ota_status_on_update_response env payload accepted s =
     (if payload = [] then ((ERR_INVALID_ARG, None), s)
      else case token_from_payload env payload of
             None \<Rightarrow> ((ERR_INVALID_ARG, None), s)
           | Some (terminal, n) \<Rightarrow>
               if st_cache s = None then ((ERR_FAIL, None), st_fail s)
               else case find_job_entries_by_int n s of
                      None \<Rightarrow> ((ERR_INVALID_ARG, None), s)
                    | Some j \<Rightarrow>
                        (let r = \<lparr>rr_job_id = je_job_id j, rr_is_terminal = terminal, rr_is_unrecoverable = False\<rparr>
                         in if accepted then ((ERR_OK, Some r), if terminal then remove_job_entries (je_addr j) s else s)
                            else case e_json_search env payload ''code'' of
                                   Some (JSONString, code) \<Rightarrow>
                                     if code = [] then ((ERR_INVALID_ARG, Some r), s)
                                     else if code = ''VersionMismatch''
                                     then (let (err, s1) = version_mismatch env payload j s in ((err, Some r), s1))
                                     else if reject_is_unrecoverable code
                                     then ((ERR_OK, Some (r\<lparr>rr_is_unrecoverable := True\<rparr>)), remove_job_entries (je_addr j) s)
                                     else if je_has_terminal j
                                     then ((ERR_OK, Some r), snd (schedule_or_reset_retry env (je_addr j) s))
                                     else ((ERR_OK, Some r), s)
                                 | _ \<Rightarrow> ((ERR_INVALID_ARG, Some r), s)))"

text \<open>The snapshot of the cached terminal updates, at most as many as the count says, and their resending.\<close>

primrec snapshot :: "ota_env \<Rightarrow> job_entries list \<Rightarrow> nat \<Rightarrow> status_sys \<Rightarrow> status_update list \<times> status_sys" where
  "snapshot env [] n s = ([], s)"
| "snapshot env (j # js) n s =
     (if n = 0 then ([], s)
      else if \<not> je_has_terminal j then snapshot env js n s
      else let (d, s1) = copied_details env (je_details j) s; (us, s2) = snapshot env js (n - 1) s1
           in (cached_update j d # us, s2))"

primrec send_all :: "ota_env \<Rightarrow> status_update list \<Rightarrow> status_sys \<Rightarrow> status_sys" where
  "send_all env [] s = s"
| "send_all env (u # us) s = send_all env us (snd (snd (ota_status_send env u s)))"

definition ota_status_resend_pending_terminals :: "ota_env \<Rightarrow> status_sys \<Rightarrow> status_sys" where
  "ota_status_resend_pending_terminals env s = (case st_cache s of
     None \<Rightarrow> s
   | Some c \<Rightarrow>
       if sc_count c = 0 then s
       else let (ok, s1) = st_alloc env s
            in if \<not> ok then s1
               else let (us, s2) = snapshot env (sc_entries c) (sc_count c) s1 in send_all env us s2)"

section \<open>The invariant of the cache\<close>

definition entry_ok :: "nat \<Rightarrow> u32 \<Rightarrow> job_entries \<Rightarrow> bool" where
  "entry_ok fresh next_int j \<longleftrightarrow> je_addr j < fresh \<and> je_job_id_int j < next_int \<and> je_job_id j \<noteq> [] \<and>
     RETRY_INITIAL_DELAY_MS \<le> je_delay j \<and> je_delay j \<le> RETRY_MAX_DELAY_MS"

definition cache_ok :: "nat \<Rightarrow> status_cache \<Rightarrow> bool" where
  "cache_ok fresh c \<longleftrightarrow>
     distinct (map je_addr (sc_entries c)) \<and> distinct (map je_job_id (sc_entries c)) \<and>
     distinct (map je_job_id_int (sc_entries c)) \<and> (\<forall>j \<in> set (sc_entries c). entry_ok fresh (sc_next_int c) j) \<and>
     sc_count c = length (filter je_has_terminal (sc_entries c))"

definition status_inv :: "status_sys \<Rightarrow> bool" where
  "status_inv s \<longleftrightarrow> (\<forall>c. st_cache s = Some c \<longrightarrow> cache_ok (st_fresh s) c)"

text \<open>The counter of job numbers has not run out.\<close>

definition room :: "status_sys \<Rightarrow> bool" where
  "room s \<longleftrightarrow> (\<forall>c. st_cache s = Some c \<longrightarrow> sc_next_int c \<noteq> - 1)"

lemma entries_Some [simp]: "st_cache s = Some c \<Longrightarrow> entries s = sc_entries c"
  by (simp add: entries_def)

lemma find_addr: "distinct (map je_addr es) \<Longrightarrow> j \<in> set es \<Longrightarrow> List.find (\<lambda>k. je_addr k = je_addr j) es = Some j"
  by (induction es) auto

lemma find_addr_map:
  assumes "\<And>j. je_addr (f j) = je_addr j"
  shows "List.find (\<lambda>j. je_addr j = q) (map (\<lambda>j. if je_addr j = p then f j else j) es)
    = map_option (\<lambda>j. if je_addr j = p then f j else j) (List.find (\<lambda>j. je_addr j = q) es)"
  by (induction es) (auto simp: assms)

lemma entry_at_upd [simp]:
  assumes "\<And>j. je_addr (f j) = je_addr j"
  shows "entry_at q (upd_entry p f s) = map_option (\<lambda>j. if je_addr j = p then f j else j) (entry_at q s)"
  by (cases "st_cache s") (simp_all add: entry_at_def entries_def upd_entry_def upd_cache_def find_addr_map [OF assms])

lemma entry_atD: "entry_at p s = Some j \<Longrightarrow> j \<in> set (entries s) \<and> je_addr j = p"
  unfolding entry_at_def by (drule find_SomeD) simp

lemma map_map_upd:
  assumes "\<And>j. g (f j) = g j"
  shows "map g (map (\<lambda>j. if je_addr j = p then f j else j) es) = map g es"
  by (induction es) (auto simp: assms)

lemma filter_upd_same:
  assumes "\<And>j. je_has_terminal (f j) = je_has_terminal j"
  shows "length (filter je_has_terminal (map (\<lambda>j. if je_addr j = p then f j else j) es)) = length (filter je_has_terminal es)"
  by (induction es) (auto simp: assms)

lemma filter_upd_terminal:
  assumes "distinct (map je_addr es)" "j \<in> set es" "\<And>k. je_has_terminal (f k)"
  shows "length (filter je_has_terminal (map (\<lambda>k. if je_addr k = je_addr j then f k else k) es))
    = length (filter je_has_terminal es) + (if je_has_terminal j then 0 else 1)"
  using assms(1,2)
proof (induction es)
  case (Cons k es)
  show ?case
  proof (cases "k = j")
    case True
    have "je_addr x \<noteq> je_addr j" if "x \<in> set es" for x using Cons.prems(1) True that by (auto simp: image_iff)
    then have "map (\<lambda>k. if je_addr k = je_addr j then f k else k) es = es" by (simp add: map_idI)
    then show ?thesis using True assms(3) by simp
  next
    case False
    then have "je_addr k \<noteq> je_addr j" using Cons.prems by force
    then show ?thesis using Cons False by auto
  qed
qed simp

text \<open>Updates of an entry that keep its identity.\<close>

lemma status_inv_upd:
  assumes "status_inv s" "\<And>j. je_addr (f j) = je_addr j" "\<And>j. je_job_id (f j) = je_job_id j"
    "\<And>j. je_job_id_int (f j) = je_job_id_int j" "\<And>j. je_has_terminal (f j) = je_has_terminal j"
    "\<And>j. RETRY_INITIAL_DELAY_MS \<le> je_delay j \<Longrightarrow> je_delay j \<le> RETRY_MAX_DELAY_MS \<Longrightarrow>
      RETRY_INITIAL_DELAY_MS \<le> je_delay (f j) \<and> je_delay (f j) \<le> RETRY_MAX_DELAY_MS"
  shows "status_inv (upd_entry p f s)"
proof (cases "st_cache s")
  case None
  then show ?thesis by (simp add: status_inv_def upd_entry_def upd_cache_def)
next
  case (Some c)
  then have c: "cache_ok (st_fresh s) c" using assms(1) by (simp add: status_inv_def)
  let ?es = "map (\<lambda>j. if je_addr j = p then f j else j) (sc_entries c)"
  have m: "map je_addr ?es = map je_addr (sc_entries c)" "map je_job_id ?es = map je_job_id (sc_entries c)"
    "map je_job_id_int ?es = map je_job_id_int (sc_entries c)"
    using assms(2-4) by (auto intro: map_map_upd)
  have "length (filter je_has_terminal ?es) = length (filter je_has_terminal (sc_entries c))"
    by (rule filter_upd_same [OF assms(5)])
  moreover have "\<forall>j \<in> set ?es. entry_ok (st_fresh s) (sc_next_int c) j"
    using c assms by (auto simp: cache_ok_def entry_ok_def)
  ultimately have "cache_ok (st_fresh s) (c\<lparr>sc_entries := ?es\<rparr>)"
    using c m unfolding cache_ok_def by (simp del: map_map)
  then show ?thesis using Some by (simp add: status_inv_def upd_entry_def upd_cache_def)
qed

lemma status_inv_calls [simp]:
  "status_inv (s\<lparr>st_calls := n\<rparr>) = status_inv s" "status_inv (s\<lparr>st_published := x\<rparr>) = status_inv s"
  "status_inv (st_fail s) = status_inv s"
  by (simp_all add: status_inv_def st_fail_def)

lemma status_inv_ask [simp]:
  "status_inv (snd (st_err env s)) = status_inv s" "status_inv (snd (st_alloc env s)) = status_inv s"
  "status_inv (snd (copied_details env d s)) = status_inv s" "status_inv (snd (publish_update env u v t n s)) = status_inv s"
  by (simp_all add: st_err_def st_alloc_def copied_details_def publish_update_def Let_def split: option.splits)

lemma status_inv_schedule: "status_inv s \<Longrightarrow> status_inv (snd (schedule_or_reset_retry env p s))"
  by (simp add: schedule_or_reset_retry_def Let_def case_prod_beta status_inv_upd)

lemma status_inv_bump: "status_inv s \<Longrightarrow> status_inv (bump_version p v s)"
  by (simp add: bump_version_def status_inv_upd)

lemma delay_const: "RETRY_INITIAL_DELAY_MS \<le> RETRY_MAX_DELAY_MS"
  by (simp add: RETRY_INITIAL_DELAY_MS_def RETRY_MAX_DELAY_MS_def)

lemma find_append: "List.find P (xs @ ys) = (case List.find P xs of None \<Rightarrow> List.find P ys | Some x \<Rightarrow> Some x)"
  by (induction xs) auto

lemma word_less_succ: "x \<noteq> - 1 \<Longrightarrow> x < x + 1" for x :: "'a::len word"
  by (metis add.commute add_eq_0_iff2 lessI minus_equation_iff unatSuc word_less_nat_alt)

lemma get_or_create_inv:
  assumes inv: "status_inv s" and room: "room s" and g: "get_or_create_job_entries env job_id s = (r, s1)"
  shows "status_inv s1" "\<And>p. r = Inr p \<Longrightarrow> \<exists>j. entry_at p s1 = Some j \<and> je_job_id j = job_id"
proof -
  have "status_inv s1 \<and> (\<forall>p. r = Inr p \<longrightarrow> (\<exists>j. entry_at p s1 = Some j \<and> je_job_id j = job_id))"
  proof (cases "st_cache s")
    case None
    then show ?thesis using inv g by (auto simp: get_or_create_job_entries_def split: if_splits)
  next
    case (Some c)
    then have c: "cache_ok (st_fresh s) c" using inv by (simp add: status_inv_def)
    show ?thesis
    proof (cases "List.find (\<lambda>j. je_job_id j = job_id) (sc_entries c)")
      case f: (Some j)
      then have "j \<in> set (sc_entries c)" "je_job_id j = job_id" using find_SomeD [OF f] by auto
      then have "entry_at (je_addr j) s = Some j"
        using c Some find_addr [of "sc_entries c" j] by (simp add: entry_at_def cache_ok_def)
      then show ?thesis
        using g Some f inv \<open>je_job_id j = job_id\<close> by (auto simp: get_or_create_job_entries_def split: if_splits)
    next
      case f: None
      let ?new = "new_entry (st_fresh s) job_id (sc_next_int c)"
      let ?c = "c\<lparr>sc_entries := sc_entries c @ [?new], sc_next_int := sc_next_int c + 1\<rparr>"
      have n: "sc_next_int c < sc_next_int c + 1"
        using room Some by (simp add: room_def word_less_succ)
      have fresh: "\<forall>j \<in> set (sc_entries c). je_job_id j \<noteq> job_id" using f by (auto simp: find_None_iff)
      have old: "\<forall>j \<in> set (sc_entries c). entry_ok (Suc (st_fresh s)) (sc_next_int c + 1) j"
        using c n by (auto simp: cache_ok_def entry_ok_def)
      have "cache_ok (Suc (st_fresh s)) ?c" if "job_id \<noteq> []"
        using c n old fresh that delay_const
        by (auto simp: cache_ok_def entry_ok_def new_entry_def)
      moreover have "List.find (\<lambda>j. je_addr j = st_fresh s) (sc_entries c) = None"
        using c by (fastforce simp: cache_ok_def entry_ok_def find_None_iff)
      then have "List.find (\<lambda>j. je_addr j = st_fresh s) (sc_entries ?c) = Some ?new"
        by (simp add: find_append new_entry_def)
      moreover have "je_job_id ?new = job_id" by (simp add: new_entry_def)
      ultimately show ?thesis
        using g Some f inv
        by (auto simp: get_or_create_job_entries_def st_alloc_def status_inv_def Let_def entry_at_def entries_def
            split: if_splits)
    qed
  qed
  then show "status_inv s1" "\<And>p. r = Inr p \<Longrightarrow> \<exists>j. entry_at p s1 = Some j \<and> je_job_id j = job_id" by auto
qed

text \<open>An entry that exists is found again, so no entry is created for its job.\<close>

definition has_job :: "string \<Rightarrow> status_sys \<Rightarrow> bool" where
  "has_job job_id s \<longleftrightarrow> (\<exists>j \<in> set (entries s). je_job_id j = job_id)"

lemma get_or_create_found:
  assumes "has_job job_id s" "get_or_create_job_entries env job_id s = (r, s1)"
  shows "s1 = s"
proof -
  obtain c where c: "st_cache s = Some c" "\<exists>j \<in> set (sc_entries c). je_job_id j = job_id"
    using assms(1) by (cases "st_cache s") (auto simp: has_job_def entries_def)
  then obtain j where "List.find (\<lambda>j. je_job_id j = job_id) (sc_entries c) = Some j"
    by (cases "List.find (\<lambda>j. je_job_id j = job_id) (sc_entries c)") (auto simp: find_None_iff)
  then show ?thesis using assms(2) c(1) by (auto simp: get_or_create_job_entries_def split: if_splits)
qed

lemma overwrite_inv:
  assumes "status_inv s" "room s \<or> has_job job_id s"
  shows "status_inv (snd (overwrite_version env job_id v s))"
proof -
  obtain r s1 where g: "get_or_create_job_entries env job_id s = (r, s1)" by fastforce
  have "status_inv s1" using assms get_or_create_inv(1) [OF _ _ g] get_or_create_found [OF _ g] by auto
  then show ?thesis using assms(1) g by (auto simp: overwrite_version_def status_inv_upd split: sum.splits)
qed

lemma upd_entry_has_job [simp]: "(\<And>j. je_job_id (f j) = je_job_id j) \<Longrightarrow> has_job job_id (upd_entry p f s) = has_job job_id s"
  by (cases "st_cache s") (auto simp: has_job_def entries_def upd_entry_def upd_cache_def)

lemma entries_ask [simp]:
  "entries (s\<lparr>st_calls := n\<rparr>) = entries s" "entries (s\<lparr>st_published := x\<rparr>) = entries s" "entries (st_fail s) = entries s"
  "entries (snd (st_err env s)) = entries s" "entries (snd (st_alloc env s)) = entries s"
  "entries (snd (copied_details env d s)) = entries s" "entries (snd (publish_update env u v t i s)) = entries s"
  by (simp_all add: entries_def st_fail_def st_err_def st_alloc_def copied_details_def publish_update_def Let_def
      split: option.splits)

lemma entry_at_ask [simp]:
  "entry_at p (snd (st_err env s)) = entry_at p s" "entry_at p (snd (st_alloc env s)) = entry_at p s"
  "entry_at p (snd (copied_details env d s)) = entry_at p s" "entry_at p (snd (publish_update env u v t i s)) = entry_at p s"
  "entry_at p (st_fail s) = entry_at p s" "entry_at p (s\<lparr>st_calls := n\<rparr>) = entry_at p s"
  by (simp_all add: entry_at_def)

lemma has_job_ask [simp]:
  "has_job i (snd (st_err env s)) = has_job i s" "has_job i (snd (st_alloc env s)) = has_job i s"
  "has_job i (snd (copied_details env d s)) = has_job i s" "has_job i (snd (publish_update env u v t n s)) = has_job i s"
  "has_job i (st_fail s) = has_job i s"
  by (simp_all add: has_job_def)

lemma has_job_schedule [simp]: "has_job i (snd (schedule_or_reset_retry env p s)) = has_job i s"
  by (simp add: schedule_or_reset_retry_def Let_def case_prod_beta)

lemma has_job_bump [simp]: "has_job i (bump_version p v s) = has_job i s"
  by (simp add: bump_version_def)

lemma has_job_entry: "entry_at p s = Some j \<Longrightarrow> has_job (je_job_id j) s"
  using entry_atD has_job_def by blast

lemma status_inv_remove:
  assumes "status_inv s"
  shows "status_inv (remove_job_entries p s)"
proof (cases "entry_at p s")
  case (Some j)
  then obtain c where c: "st_cache s = Some c" by (cases "st_cache s") (auto simp: entry_at_def entries_def)
  then have ok: "cache_ok (st_fresh s) c" using assms by (simp add: status_inv_def)
  have j: "j \<in> set (sc_entries c)" "je_addr j = p" using entry_atD [OF Some] c by simp_all
  have "length (filter je_has_terminal (filter (\<lambda>k. je_addr k \<noteq> p) es)) = length (filter je_has_terminal es) - (if je_has_terminal j then 1 else 0)
      \<and> (je_has_terminal j \<longrightarrow> length (filter je_has_terminal es) > 0)"
    if "distinct (map je_addr es)" "j \<in> set es" for es
    using that
  proof (induction es)
    case (Cons k es)
    show ?case
    proof (cases "k = j")
      case True
      have "je_addr x \<noteq> p" if "x \<in> set es" for x using Cons.prems(1) True that j(2) by (auto simp: image_iff)
      then have "filter (\<lambda>k. je_addr k \<noteq> p) es = es" by simp
      then show ?thesis using True j(2) by simp
    next
      case False
      then have "je_addr k \<noteq> p" using Cons.prems j(2) by force
      then show ?thesis using Cons False by auto
    qed
  qed simp
  then have "sc_count c - (if je_has_terminal j then 1 else 0) = length (filter je_has_terminal (filter (\<lambda>k. je_addr k \<noteq> p) (sc_entries c)))"
    "je_has_terminal j \<longrightarrow> sc_count c > 0"
    using ok j(1) by (simp_all add: cache_ok_def)
  then show ?thesis
    using ok c Some by (auto simp: remove_job_entries_def status_inv_def upd_cache_def cache_ok_def distinct_map_filter)
qed (use assms in \<open>simp add: remove_job_entries_def\<close>)

lemma status_inv_set_cached:
  assumes inv: "status_inv s" and j: "entry_at (je_addr j) s = Some j"
  shows "status_inv (snd (set_cached_terminal env j u v s))"
proof -
  obtain c where c: "st_cache s = Some c" using j by (cases "st_cache s") (auto simp: entry_at_def entries_def)
  define s0 where "s0 = upd_entry (je_addr j) (\<lambda>j. j\<lparr>je_details := None\<rparr>) s"
  define s1 where "s1 = snd (case details_given (su_details u) of None \<Rightarrow> (True, s0) | Some _ \<Rightarrow> st_alloc env s0)"
  define j0 where "j0 = j\<lparr>je_details := None\<rparr>"
  have i1: "status_inv s1"
    using inv by (simp add: s1_def s0_def status_inv_upd split: option.splits)
  have e1: "entry_at (je_addr j) s1 = Some j0"
    using j by (simp add: s1_def s0_def j0_def split: option.splits)
  then obtain c1 where c1: "st_cache s1 = Some c1" by (cases "st_cache s1") (auto simp: entry_at_def entries_def)
  let ?f = "\<lambda>j. j\<lparr>je_details := details_given (su_details u), je_status := su_status u, je_expected := v,
      je_has_terminal := True, je_delay := RETRY_INITIAL_DELAY_MS\<rparr>"
  let ?s2 = "upd_entry (je_addr j) ?f (if je_has_terminal j then s1 else upd_cache (\<lambda>c. c\<lparr>sc_count := Suc (sc_count c)\<rparr>) s1)"
  let ?es = "map (\<lambda>k. if je_addr k = je_addr j then ?f k else k) (sc_entries c1)"
  have ok: "cache_ok (st_fresh s1) c1" using i1 c1 by (simp add: status_inv_def)
  have m: "map je_addr ?es = map je_addr (sc_entries c1)" "map je_job_id ?es = map je_job_id (sc_entries c1)"
    "map je_job_id_int ?es = map je_job_id_int (sc_entries c1)"
    by (auto intro: map_map_upd)
  have "length (filter je_has_terminal ?es) = length (filter je_has_terminal (sc_entries c1)) + (if je_has_terminal j0 then 0 else 1)"
    using filter_upd_terminal [of "sc_entries c1" j0 ?f] ok entry_atD [OF e1] c1
    by (simp add: cache_ok_def j0_def del: map_map)
  moreover have "\<forall>k \<in> set ?es. entry_ok (st_fresh s1) (sc_next_int c1) k"
    using ok delay_const by (auto simp: cache_ok_def entry_ok_def)
  ultimately have "cache_ok (st_fresh s1) (c1\<lparr>sc_count := sc_count c1 + (if je_has_terminal j then 0 else 1), sc_entries := ?es\<rparr>)"
    using ok m unfolding cache_ok_def by (simp add: j0_def del: map_map)
  then have "status_inv ?s2" using c1 by (auto simp: status_inv_def upd_entry_def upd_cache_def)
  then show ?thesis
    using i1 by (auto simp: set_cached_terminal_def Let_def case_prod_beta s0_def s1_def intro!: status_inv_schedule
        split: option.splits)
qed

lemma has_job_set_cached [simp]: "has_job i (snd (set_cached_terminal env j u v s)) = has_job i s"
proof -
  have "has_job i (upd_cache (\<lambda>c. c\<lparr>sc_count := Suc (sc_count c)\<rparr>) t) = has_job i t" for t
    by (cases "st_cache t") (simp_all add: has_job_def entries_def upd_cache_def)
  then show ?thesis by (simp add: set_cached_terminal_def Let_def case_prod_beta split: option.splits)
qed

section \<open>Every operation keeps the invariant\<close>

definition can_add :: "string \<Rightarrow> status_sys \<Rightarrow> bool" where
  "can_add job_id s \<longleftrightarrow> room s \<or> has_job job_id s"

lemma get_or_create_ok:
  assumes "status_inv s" "can_add job_id s" "get_or_create_job_entries env job_id s = (Inr p, s1)"
  shows "status_inv s1" "\<exists>j. entry_at p s1 = Some j \<and> je_job_id j = job_id \<and> je_addr j = p"
proof -
  have "status_inv s1 \<and> (\<exists>j. entry_at p s1 = Some j \<and> je_job_id j = job_id)"
  proof (cases "has_job job_id s")
    case True
    then have s1: "s1 = s" using assms(3) by (rule get_or_create_found)
    obtain c where c: "st_cache s = Some c" using True by (cases "st_cache s") (auto simp: has_job_def entries_def)
    have "\<exists>j. List.find (\<lambda>j. je_job_id j = job_id) (sc_entries c) = Some j"
      using True c by (cases "List.find (\<lambda>j. je_job_id j = job_id) (sc_entries c)") (auto simp: find_None_iff has_job_def)
    then obtain j where f: "List.find (\<lambda>j. je_job_id j = job_id) (sc_entries c) = Some j" by blast
    then have "p = je_addr j" using assms(3) c by (auto simp: get_or_create_job_entries_def split: if_splits)
    then show ?thesis
      using s1 assms(1) c find_SomeD [OF f] find_addr [of "sc_entries c" j]
      by (auto simp: status_inv_def cache_ok_def entry_at_def)
  next
    case False
    then show ?thesis using assms get_or_create_inv by (auto simp: can_add_def)
  qed
  then show "status_inv s1" "\<exists>j. entry_at p s1 = Some j \<and> je_job_id j = job_id \<and> je_addr j = p"
    using entry_atD by blast+
qed

lemma send_inv:
  assumes inv: "status_inv s" and room: "can_add (su_job_id u) s"
  shows "status_inv (snd (snd (ota_status_send env u s)))"
proof -
  obtain r s1 where g: "get_or_create_job_entries env (su_job_id u) s = (r, s1)" by fastforce
  show ?thesis
  proof (cases r)
    case (Inl err)
    then show ?thesis
      using g inv room get_or_create_inv(1) [OF inv _ g] get_or_create_found [OF _ g]
      by (auto simp: ota_status_send_def can_add_def)
  next
    case (Inr p)
    have i1: "status_inv s1" and "\<exists>j. entry_at p s1 = Some j \<and> je_job_id j = su_job_id u \<and> je_addr j = p"
      using get_or_create_ok [OF inv room g [unfolded Inr]] by auto
    then obtain j where j: "entry_at p s1 = Some j" "je_job_id j = su_job_id u" "je_addr j = p" by blast
    have i2: "status_inv (snd (set_cached_terminal env j u (je_version j) s1))"
      by (rule status_inv_set_cached) (use i1 j in simp_all)
    have h: "has_job (su_job_id u) s1" using has_job_entry [OF j(1)] j(2) by simp
    let ?s2 = "if is_terminal (su_status u) then snd (set_cached_terminal env j u (je_version j) s1) else s1"
    let ?s4 = "snd (publish_update env u (je_version j) (is_terminal (su_status u)) (je_job_id_int j)
      (bump_version p (je_version j) ?s2))"
    have "status_inv ?s2" "has_job (su_job_id u) ?s2" using i1 i2 h by auto
    then have "status_inv ?s4" "has_job (su_job_id u) ?s4" by (simp_all add: status_inv_bump)
    then have "status_inv (snd (overwrite_version env (su_job_id u) (je_version j) ?s4))"
      by (simp add: overwrite_inv)
    then show ?thesis
      using inv i1 i2 \<open>status_inv ?s4\<close> \<open>status_inv ?s2\<close> g Inr j
      by (auto simp: ota_status_send_def Let_def case_prod_beta)
  qed
qed

lemma has_job_get_or_create: "has_job i s \<Longrightarrow> has_job i (snd (get_or_create_job_entries env job_id s))"
  by (auto simp: get_or_create_job_entries_def has_job_def entries_def st_alloc_def Let_def split: option.splits)

lemma has_job_overwrite: "has_job i s \<Longrightarrow> has_job i (snd (overwrite_version env job_id v s))"
  using has_job_get_or_create [of i s env job_id]
  by (auto simp: overwrite_version_def split: sum.splits prod.splits)

lemma has_job_send:
  assumes "has_job i s"
  shows "has_job i (snd (snd (ota_status_send env u s)))"
  using has_job_get_or_create [OF assms, of env "su_job_id u"] assms
  by (auto simp: ota_status_send_def Let_def case_prod_beta has_job_overwrite split: prod.splits sum.splits option.splits)

lemma send_all_inv:
  "status_inv s \<Longrightarrow> \<forall>u \<in> set us. has_job (su_job_id u) s \<Longrightarrow> status_inv (send_all env us s)"
  by (induction us arbitrary: s) (simp_all add: send_inv can_add_def has_job_send)

lemma snapshot_entries [simp]: "entries (snd (snapshot env js n s)) = entries s"
  "status_inv (snd (snapshot env js n s)) = status_inv s"
  by (induction js arbitrary: n s) (simp_all add: Let_def case_prod_beta)

lemma snapshot_jobs: "u \<in> set (fst (snapshot env js n s)) \<Longrightarrow> \<exists>j \<in> set js. su_job_id u = je_job_id j"
  by (induction js arbitrary: n s) (auto simp: Let_def case_prod_beta cached_update_def split: if_splits)

lemma resend_inv: "status_inv s \<Longrightarrow> status_inv (ota_status_resend_pending_terminals env s)"
proof (cases "st_cache s")
  case (Some c)
  assume inv: "status_inv s"
  let ?s1 = "snd (st_alloc env s)"
  have "has_job (su_job_id u) (snd (snapshot env (sc_entries c) n ?s1))"
    if "u \<in> set (fst (snapshot env (sc_entries c) n ?s1))" for u n
    using snapshot_jobs [OF that] Some by (auto simp: has_job_def)
  then show ?thesis
    using inv Some by (simp add: ota_status_resend_pending_terminals_def Let_def case_prod_beta send_all_inv)
qed (simp add: ota_status_resend_pending_terminals_def)

lemma delay_double:
  "RETRY_INITIAL_DELAY_MS \<le> d \<Longrightarrow> d \<le> RETRY_MAX_DELAY_MS \<Longrightarrow>
     RETRY_INITIAL_DELAY_MS \<le> min (d * 2) RETRY_MAX_DELAY_MS \<and> min (d * 2) RETRY_MAX_DELAY_MS \<le> RETRY_MAX_DELAY_MS"
  unfolding RETRY_INITIAL_DELAY_MS_def RETRY_MAX_DELAY_MS_def min_def
  by (auto simp: word_le_nat_alt unat_mult_lem [THEN iffD1])

lemma retry_take_inv:
  assumes "status_inv s"
  shows "status_inv (snd (retry_take env p s))"
proof (cases "entry_at p s")
  case (Some j)
  have "entry_ok (st_fresh s) (sc_next_int c) j" if "st_cache s = Some c" for c
    using assms entry_atD [OF Some] that by (auto simp: status_inv_def cache_ok_def)
  then have d: "RETRY_INITIAL_DELAY_MS \<le> je_delay j \<and> je_delay j \<le> RETRY_MAX_DELAY_MS"
    using Some by (cases "st_cache s") (auto simp: entry_at_def entries_def entry_ok_def)
  have "status_inv (upd_entry p (\<lambda>j. j\<lparr>je_delay := min (je_delay i * 2) RETRY_MAX_DELAY_MS\<rparr>) t)"
    if "status_inv t" "i = j" for i t
    using that delay_double [of "je_delay j"] d by (simp add: status_inv_upd)
  then show ?thesis
    using assms Some by (simp add: retry_take_def Let_def case_prod_beta status_inv_bump)
qed (use assms in \<open>simp add: retry_take_def\<close>)

lemma room_ask [simp]: "room (snd (publish_update env u v b n s)) = room s"
  by (simp add: publish_update_def st_err_def room_def Let_def)

lemma retry_finish_inv:
  assumes "status_inv s" "can_add (su_job_id (fst t)) s"
  shows "status_inv (retry_finish env p t s)"
  using assms
  by (auto simp: retry_finish_def Let_def case_prod_beta can_add_def split: option.splits
      intro!: status_inv_schedule overwrite_inv)

lemma version_mismatch_inv:
  assumes "status_inv s" "j \<in> set (entries s)"
  shows "status_inv (snd (version_mismatch env payload j s))"
proof -
  have "has_job (je_job_id j) s" using assms(2) by (auto simp: has_job_def)
  then show ?thesis
    using assms(1)
    by (auto simp: version_mismatch_def Let_def case_prod_beta cached_update_def can_add_def status_inv_upd
        intro!: send_inv split: option.splits json_type.splits)
qed

lemma find_by_intD: "find_job_entries_by_int n s = Some j \<Longrightarrow> j \<in> set (entries s) \<and> je_job_id_int j = n"
  unfolding find_job_entries_by_int_def by (drule find_SomeD) simp

lemma response_inv: "status_inv s \<Longrightarrow> status_inv (snd (ota_status_on_update_response env payload accepted s))"
  by (auto simp: ota_status_on_update_response_def Let_def case_prod_beta version_mismatch_inv status_inv_remove
      status_inv_schedule dest: find_by_intD split: option.splits json_type.splits)

section \<open>The manager among its callers\<close>

text \<open>The calls the engine and the scheduler make. \<^verbatim>\<open>Fire\<close> is a timer going off, up to the release of the
lock; \<^verbatim>\<open>Finish\<close> is the rest of the task, which runs later with what it took.\<close>

datatype st_action = Init string | Deinit | SetVersion string int | Clear string | Send status_update
  | Response string bool | Resend | Fire nat | Finish nat "status_update \<times> int \<times> u64"

type_synonym st_world = "status_sys \<times> (nat \<times> (status_update \<times> int \<times> u64)) list"

definition fire :: "ota_env \<Rightarrow> nat \<Rightarrow> status_sys \<Rightarrow> (status_update \<times> int \<times> u64) option \<times> status_sys" where
  "fire env p s = retry_take env p (upd_entry p (\<lambda>j. j\<lparr>je_retry := Some False\<rparr>) s)"

fun st_act :: "ota_env \<Rightarrow> nat \<Rightarrow> st_action \<Rightarrow> st_world \<Rightarrow> st_world" where
  "st_act env m (Init name) (s, fl) = (snd (ota_status_init env m name s), fl)"
| "st_act env m Deinit (s, fl) = (snd (ota_status_deinit s), fl)"
| "st_act env m (SetVersion i v) (s, fl) = (snd (ota_status_set_initial_expected_version env i v s), fl)"
| "st_act env m (Clear i) (s, fl) = (ota_status_clear_job_entries i s, fl)"
| "st_act env m (Send u) (s, fl) = (snd (snd (ota_status_send env u s)), fl)"
| "st_act env m (Response payload accepted) (s, fl) = (snd (ota_status_on_update_response env payload accepted s), fl)"
| "st_act env m Resend (s, fl) = (ota_status_resend_pending_terminals env s, fl)"
| "st_act env m (Fire p) (s, fl) =
     (if \<exists>j \<in> set (entries s). je_addr j = p \<and> je_retry j = Some True
      then case fire env p s of (None, s1) \<Rightarrow> (s1, fl) | (Some t, s1) \<Rightarrow> (s1, (p, t) # fl)
      else (s, fl))"
| "st_act env m (Finish p t) (s, fl) =
     (if (p, t) \<in> set fl then (retry_finish env p t s, remove1 (p, t) fl) else (s, fl))"

lemma st_init_inv: "status_inv s \<Longrightarrow> status_inv (snd (ota_status_init env m name s))"
  by (simp add: ota_status_init_def ota_status_deinit_def ota_status_cache_init_def ota_status_cache_deinit_def st_alloc_def
      Let_def status_inv_def cache_ok_def split: prod.splits)

lemma st_act_inv:
  assumes "status_inv (fst w)" "room (fst w)"
  shows "status_inv (fst (st_act env m a w))"
proof -
  obtain s fl where w: "w = (s, fl)" by fastforce
  have inv: "status_inv s" and add: "can_add i s" for i using assms w by (simp_all add: can_add_def)
  show ?thesis
  proof (cases a)
    case (Fire p)
    then show ?thesis
      using inv w retry_take_inv [of "upd_entry p (\<lambda>j. j\<lparr>je_retry := Some False\<rparr>) s" env p]
      by (auto simp: fire_def status_inv_upd split: prod.splits option.splits)
  qed (use inv add w in \<open>simp_all add: st_init_inv ota_status_deinit_def ota_status_cache_deinit_def status_inv_def [of "s\<lparr>st_cache := None\<rparr>"]
        ota_status_set_initial_expected_version_def overwrite_inv [unfolded can_add_def [symmetric]] send_inv response_inv
        resend_inv retry_finish_inv ota_status_clear_job_entries_def status_inv_remove split: option.splits\<close>)
qed

text \<open>The task without an interruption is a timer going off and its task finishing.\<close>

lemma retry_task_steps:
  assumes "\<exists>j \<in> set (entries s). je_addr j = p \<and> je_retry j = Some True"
  shows "fst (case st_act env m (Fire p) (s, []) of
      (s1, []) \<Rightarrow> (s1, []) | (s1, (q, t) # fl) \<Rightarrow> st_act env m (Finish q t) (s1, (q, t) # fl))
    = ota_status_retry_task env p (upd_entry p (\<lambda>j. j\<lparr>je_retry := Some False\<rparr>) s)"
  using assms by (simp add: fire_def ota_status_retry_task_def split: prod.splits option.splits)

definition pending :: "u32 \<Rightarrow> status_sys \<Rightarrow> bool" where
  "pending n s \<longleftrightarrow> (\<exists>j \<in> set (entries s). je_job_id_int j = n \<and> je_has_terminal j)"

text \<open>The calls that end the retries of the job with a given number.\<close>

definition settles :: "ota_env \<Rightarrow> st_action \<Rightarrow> u32 \<Rightarrow> status_sys \<Rightarrow> bool" where
  "settles env a n s = (case a of
     Deinit \<Rightarrow> True
   | Init name \<Rightarrow> True
   | Clear i \<Rightarrow> \<exists>j \<in> set (entries s). je_job_id_int j = n \<and> je_job_id j = i
   | Response payload accepted \<Rightarrow>
       (case token_from_payload env payload of
          Some (terminal, k) \<Rightarrow>
            k = n \<and> (if accepted then terminal
                     else case e_json_search env payload ''code'' of
                            Some (JSONString, code) \<Rightarrow> reject_is_unrecoverable code | _ \<Rightarrow> False)
        | None \<Rightarrow> False)
   | _ \<Rightarrow> False)"

lemma entries_upd: "entries (upd_entry p f s) = map (\<lambda>j. if je_addr j = p then f j else j) (entries s)"
  by (cases "st_cache s") (simp_all add: entries_def upd_entry_def upd_cache_def)

lemma pending_upd [intro]:
  "pending n s \<Longrightarrow> (\<And>j. je_job_id_int (f j) = je_job_id_int j) \<Longrightarrow>
     (\<And>j. je_has_terminal j \<Longrightarrow> je_has_terminal (f j)) \<Longrightarrow> pending n (upd_entry p f s)"
proof -
  assume "pending n s" and k: "\<And>j. je_job_id_int (f j) = je_job_id_int j" "\<And>j. je_has_terminal j \<Longrightarrow> je_has_terminal (f j)"
  then obtain j where j: "j \<in> set (entries s)" "je_job_id_int j = n" "je_has_terminal j" by (auto simp: pending_def)
  then have "(if je_addr j = p then f j else j) \<in> set (entries (upd_entry p f s))" by (auto simp: entries_upd)
  then show ?thesis using j k unfolding pending_def by (metis (full_types))
qed

lemma pending_ask [simp]:
  "pending n (snd (st_err env s)) = pending n s" "pending n (snd (st_alloc env s)) = pending n s"
  "pending n (snd (copied_details env d s)) = pending n s" "pending n (snd (publish_update env u v t i s)) = pending n s"
  "pending n (st_fail s) = pending n s" "pending n (snd (snapshot env js k s)) = pending n s"
  by (simp_all add: pending_def)

lemma pending_count [simp]: "pending n (upd_cache (\<lambda>c. c\<lparr>sc_count := g c\<rparr>) s) = pending n s"
  by (cases "st_cache s") (simp_all add: pending_def entries_def upd_cache_def)

lemma pending_schedule: "pending n s \<Longrightarrow> pending n (snd (schedule_or_reset_retry env p s))"
  by (auto simp: schedule_or_reset_retry_def Let_def case_prod_beta)

lemma pending_bump: "pending n s \<Longrightarrow> pending n (bump_version p v s)"
  by (auto simp: bump_version_def)

lemma pending_get_or_create: "pending n s \<Longrightarrow> pending n (snd (get_or_create_job_entries env job_id s))"
  by (auto simp: get_or_create_job_entries_def pending_def entries_def st_alloc_def Let_def split: option.splits)

lemma pending_overwrite: "pending n s \<Longrightarrow> pending n (snd (overwrite_version env job_id v s))"
  using pending_get_or_create [of n s env job_id] by (auto simp: overwrite_version_def split: sum.splits prod.splits)

lemma pending_set_cached: "pending n s \<Longrightarrow> pending n (snd (set_cached_terminal env j u v s))"
  by (auto simp: set_cached_terminal_def Let_def case_prod_beta intro!: pending_schedule pending_upd split: option.splits)

lemma pending_send: "pending n s \<Longrightarrow> pending n (snd (snd (ota_status_send env u s)))"
  using pending_get_or_create [of n s env "su_job_id u"]
  by (auto simp: ota_status_send_def Let_def case_prod_beta pending_overwrite pending_set_cached pending_bump
      split: prod.splits sum.splits option.splits)

lemma pending_send_all: "pending n s \<Longrightarrow> pending n (send_all env us s)"
  by (induction us arbitrary: s) (simp_all add: pending_send)

lemma pending_resend: "pending n s \<Longrightarrow> pending n (ota_status_resend_pending_terminals env s)"
  by (auto simp: ota_status_resend_pending_terminals_def Let_def case_prod_beta pending_send_all split: option.splits)

lemma pending_retry_take: "pending n s \<Longrightarrow> pending n (snd (retry_take env p s))"
  by (auto simp: retry_take_def Let_def case_prod_beta pending_bump split: option.splits)

lemma pending_retry_finish: "pending n s \<Longrightarrow> pending n (retry_finish env p t s)"
  by (auto simp: retry_finish_def Let_def case_prod_beta pending_overwrite pending_schedule split: option.splits)

lemma pending_remove:
  assumes "status_inv s" "pending n s" "\<not> pending n (remove_job_entries p s)"
  shows "\<exists>j. entry_at p s = Some j \<and> je_job_id_int j = n"
proof -
  obtain j where j: "entry_at p s = Some j" using assms(2,3) by (cases "entry_at p s") (auto simp: remove_job_entries_def)
  obtain c where c: "st_cache s = Some c" using j by (cases "st_cache s") (auto simp: entry_at_def entries_def)
  obtain k where k: "k \<in> set (sc_entries c)" "je_job_id_int k = n" "je_has_terminal k"
    using assms(2) c by (auto simp: pending_def)
  have "je_addr k = p"
    using assms(3) k j c by (auto simp: remove_job_entries_def pending_def upd_cache_def entries_def)
  moreover have "entry_at (je_addr k) s = Some k"
    using assms(1) c k(1) find_addr [of "sc_entries c" k] by (simp add: status_inv_def cache_ok_def entry_at_def)
  ultimately show ?thesis using k by blast
qed

lemma pending_version_mismatch: "pending n s \<Longrightarrow> pending n (snd (version_mismatch env payload j s))"
  by (auto simp: version_mismatch_def Let_def case_prod_beta intro!: pending_send pending_upd split: option.splits json_type.splits)

lemma entry_at_addr: "status_inv s \<Longrightarrow> j \<in> set (entries s) \<Longrightarrow> entry_at (je_addr j) s = Some j"
  by (cases "st_cache s") (auto simp: status_inv_def cache_ok_def entry_at_def entries_def find_addr)

lemma response_settles:
  assumes inv: "status_inv s" and p: "pending n s"
    and gone: "\<not> pending n (snd (ota_status_on_update_response env payload accepted s))"
  shows "settles env (Response payload accepted) n s"
proof -
  obtain b k where tok: "token_from_payload env payload = Some (b, k)"
    using p gone by (auto simp: ota_status_on_update_response_def split: if_splits option.splits)
  have c: "st_cache s \<noteq> None" using p by (cases "st_cache s") (simp_all add: pending_def entries_def)
  obtain j where j: "find_job_entries_by_int k s = Some j"
    using p gone tok c by (auto simp: ota_status_on_update_response_def split: if_splits option.splits)
  have e: "entry_at (je_addr j) s = Some j" "je_job_id_int j = k"
    using find_by_intD [OF j] entry_at_addr [OF inv] by auto
  have r: "k = n" if "\<not> pending n (remove_job_entries (je_addr j) s)"
    using pending_remove [OF inv p that] e by auto
  show ?thesis
  proof (cases accepted)
    case True
    then show ?thesis
      using p gone tok c j r by (auto simp: ota_status_on_update_response_def settles_def split: if_splits)
  next
    case False
    then obtain code where code: "e_json_search env payload ''code'' = Some (JSONString, code)"
      using p gone tok c j
      by (auto simp: ota_status_on_update_response_def Let_def split: if_splits option.splits json_type.splits)
    show ?thesis
      using False p gone tok c j r code pending_version_mismatch [OF p] pending_schedule [OF p]
      by (auto simp: ota_status_on_update_response_def settles_def Let_def case_prod_beta split: if_splits)
  qed
qed

lemma st_act_pending:
  assumes inv: "status_inv s" and p: "pending n s" and gone: "\<not> pending n (fst (st_act env m a (s, fl)))"
  shows "settles env a n s"
proof (cases a)
  case (Clear i)
  then have "i \<noteq> []" "st_cache s \<noteq> None" and f: "\<exists>j. List.find (\<lambda>j. je_job_id j = i) (entries s) = Some j"
    using p gone by (auto simp: ota_status_clear_job_entries_def split: if_splits option.splits)
  then obtain j where j: "List.find (\<lambda>j. je_job_id j = i) (entries s) = Some j" by blast
  then have "\<not> pending n (remove_job_entries (je_addr j) s)"
    using gone Clear \<open>i \<noteq> []\<close> \<open>st_cache s \<noteq> None\<close> by (simp add: ota_status_clear_job_entries_def)
  then obtain k where "entry_at (je_addr j) s = Some k" "je_job_id_int k = n" using pending_remove [OF inv p] by blast
  moreover have "entry_at (je_addr j) s = Some j" using find_SomeD [OF j] entry_at_addr [OF inv] by simp
  ultimately show ?thesis using find_SomeD [OF j] Clear by (auto simp: settles_def)
next
  case (Fire q)
  have "pending n (snd (fire env q s))"
    using p pending_retry_take [OF pending_upd [OF p, of "\<lambda>j. j\<lparr>je_retry := Some False\<rparr>" q]] by (simp add: fire_def)
  then show ?thesis using Fire p gone by (auto split: if_splits prod.splits option.splits)
qed (use p gone in \<open>auto simp: settles_def [of _ Deinit] settles_def [of _ "Init x" for x] ota_status_set_initial_expected_version_def
      pending_overwrite pending_send pending_resend pending_retry_finish split: if_splits
      intro: response_settles [OF inv p]\<close>)

section \<open>The client token\<close>

lemma uint32_loop_append:
  "str_to_uint32_loop (xs @ ys) v = (case str_to_uint32_loop xs v of None \<Rightarrow> None | Some w \<Rightarrow> str_to_uint32_loop ys w)"
  by (induction xs arbitrary: v) auto

lemma uint32_loop_nat_str: "str_to_uint32_loop (nat_str x) 0 = Some (of_nat x)"
proof (induction x rule: nat_str.induct)
  case (1 n)
  show ?case
  proof (cases "n < 10")
    case True
    then show ?thesis using digit_char [OF True] by (simp add: nat_str.simps [of n])
  next
    case False
    have d: "n mod 10 < 10" by simp
    have "(of_nat (n div 10) :: u32) * 10 + of_nat (n mod 10) = of_nat (n div 10 * 10 + n mod 10)"
      by (simp only: of_nat_add of_nat_mult of_nat_numeral)
    also have "n div 10 * 10 + n mod 10 = n" by simp
    finally have "(of_nat (n div 10) :: u32) * 10 + of_nat (n mod 10) = of_nat n" .
    then show ?thesis using 1 False digit_char [OF d] by (simp add: nat_str.simps [of n] uint32_loop_append)
  qed
qed

lemma nat_str_nonempty [simp]: "nat_str n \<noteq> []"
  by (simp add: nat_str.simps [of n])

lemma token_roundtrip: "parse_token (client_token b n) = Some (b, n)"
proof -
  have "Suc 0 \<le> length (nat_str (unat n))" by (cases "nat_str (unat n)") simp_all
  then show ?thesis by (simp add: parse_token_def client_token_def str_to_uint32_def uint32_loop_nat_str)
qed

lemma find_by_int:
  assumes "status_inv s" "j \<in> set (entries s)"
  shows "find_job_entries_by_int (je_job_id_int j) s = Some j"
proof -
  have "List.find (\<lambda>k. je_job_id_int k = je_job_id_int j) es = Some j"
    if "distinct (map je_job_id_int es)" "j \<in> set es" for es
    using that by (induction es) auto
  then show ?thesis
    using assms by (cases "st_cache s") (auto simp: status_inv_def cache_ok_def find_job_entries_by_int_def entries_def)
qed

section \<open>The versions of a send\<close>

definition holds_job :: "nat \<Rightarrow> string \<Rightarrow> int \<Rightarrow> bool \<Rightarrow> status_sys \<Rightarrow> bool" where
  "holds_job p job_id v terminal s \<longleftrightarrow>
     (\<exists>j. entry_at p s = Some j \<and> je_job_id j = job_id \<and> je_version j = v \<and> (terminal \<longrightarrow> je_has_terminal j))"

lemma entry_at_count [simp]: "entry_at p (upd_cache (\<lambda>c. c\<lparr>sc_count := g c\<rparr>) s) = entry_at p s"
  by (cases "st_cache s") (simp_all add: entry_at_def entries_def upd_cache_def)

lemma published_upd [simp]:
  "st_published (upd_cache f s) = st_published s" "st_published (upd_entry p g s) = st_published s"
  "st_published (snd (st_alloc env s)) = st_published s" "st_published (snd (st_err env s)) = st_published s"
  by (simp_all add: upd_entry_def upd_cache_def st_alloc_def st_err_def)

lemma holds_ask [simp]:
  "holds_job p i v t (snd (st_alloc env s)) = holds_job p i v t s" "holds_job p i v t (snd (st_err env s)) = holds_job p i v t s"
  "holds_job p i v t (snd (publish_update env u w b n s)) = holds_job p i v t s"
  by (simp_all add: holds_job_def)

lemma holds_upd:
  assumes "holds_job p i v t s" "\<And>j. je_addr (f j) = je_addr j" "\<And>j. je_job_id (f j) = je_job_id j"
    "\<And>j. je_version j = v \<Longrightarrow> je_version (f j) = w" "\<And>j. (t \<longrightarrow> je_has_terminal j) \<Longrightarrow> b \<Longrightarrow> je_has_terminal (f j)"
  shows "holds_job p i w b (upd_entry p f s)"
proof -
  obtain j where j: "entry_at p s = Some j" "je_job_id j = i" "je_version j = v" "t \<longrightarrow> je_has_terminal j"
    using assms(1) by (auto simp: holds_job_def)
  then have "entry_at p (upd_entry p f s) = Some (f j)" using entry_atD [OF j(1)] assms(2) by simp
  then show ?thesis using j assms(3-5) by (auto simp: holds_job_def)
qed

lemma holds_count [simp]: "holds_job p i v t (upd_cache (\<lambda>c. c\<lparr>sc_count := g c\<rparr>) s) = holds_job p i v t s"
  by (simp add: holds_job_def)

lemma holds_schedule: "holds_job p i v t s \<Longrightarrow> holds_job p i v t (snd (schedule_or_reset_retry env p s))"
  by (auto simp: schedule_or_reset_retry_def Let_def case_prod_beta intro: holds_upd [where s = "snd (st_err env s)"])

lemma holds_set_cached:
  assumes "holds_job p i v t s" "fst (set_cached_terminal env j u w s) = ERR_OK" "je_addr j = p"
  shows "holds_job p i v True (snd (set_cached_terminal env j u w s))"
proof -
  let ?s0 = "upd_entry p (\<lambda>j. j\<lparr>je_details := None\<rparr>) s"
  have "holds_job p i v t ?s0" by (rule holds_upd [OF assms(1)]) auto
  then have s1: "holds_job p i v t (snd (st_alloc env ?s0))" "holds_job p i v t ?s0" by simp_all
  show ?thesis
    using assms
    by (auto simp: set_cached_terminal_def Let_def case_prod_beta split: option.splits if_splits
        intro!: holds_schedule holds_upd [OF s1(1)] holds_upd [OF s1(2)] holds_upd [where t = t])
qed

lemma set_cached_published [simp]: "st_published (snd (set_cached_terminal env j u w s)) = st_published s"
  by (simp add: set_cached_terminal_def schedule_or_reset_retry_def Let_def case_prod_beta split: option.splits)

lemma holds_bump:
  "holds_job p i v t s \<Longrightarrow> v < 2147483647 \<Longrightarrow> holds_job p i (v + 1) t (bump_version p v s)"
  unfolding bump_version_def by (simp, rule holds_upd) auto

lemma holds_overwrite:
  assumes inv: "status_inv s" and h: "holds_job p i w t s" and i: "i \<noteq> []" "length i \<le> e_jobid_max env"
  shows "holds_job p i v t (snd (overwrite_version env i v s))" "st_published (snd (overwrite_version env i v s)) = st_published s"
proof -
  obtain j where j: "entry_at p s = Some j" "je_job_id j = i" "t \<longrightarrow> je_has_terminal j" using h by (auto simp: holds_job_def)
  obtain c where c: "st_cache s = Some c" using j(1) by (cases "st_cache s") (auto simp: entry_at_def entries_def)
  have "List.find (\<lambda>k. je_job_id k = i) es = Some j" if "distinct (map je_job_id es)" "j \<in> set es" for es
    using that j(2) by (induction es) auto
  then have "List.find (\<lambda>k. je_job_id k = i) (sc_entries c) = Some j"
    using inv c entry_atD [OF j(1)] by (simp add: status_inv_def cache_ok_def)
  then have "get_or_create_job_entries env i s = (Inr p, s)"
    using i c entry_atD [OF j(1)] by (simp add: get_or_create_job_entries_def)
  moreover have "holds_job p i v t (upd_entry p (\<lambda>j. j\<lparr>je_version := v\<rparr>) s)" by (rule holds_upd [OF h]) auto
  ultimately show "holds_job p i v t (snd (overwrite_version env i v s))"
    "st_published (snd (overwrite_version env i v s)) = st_published s"
    using i by (simp_all add: overwrite_version_def)
qed

lemma publish_published:
  "st_published (snd (publish_update env u v t n s)) = st_published s @
     (if fst (publish_update env u v t n s) = ERR_OK then [Update (su_job_id u) (su_status u) (details_given (su_details u)) v t n] else [])"
  by (simp add: publish_update_def st_err_def Let_def)

lemma get_or_create_published: "st_published (snd (get_or_create_job_entries env i s)) = st_published s"
  by (simp add: get_or_create_job_entries_def st_alloc_def st_fail_def Let_def split: option.splits)

lemma send_version:
  assumes inv: "status_inv s" and add: "can_add (su_job_id u) s"
    and send: "ota_status_send env u s = (r, Some v, s1)" and fault: "\<not> st_fault s1"
  shows "\<exists>p n. holds_job p (su_job_id u) v (is_terminal (su_status u)) s1 \<and> st_published s1 = st_published s @
    (if r = ERR_OK \<and> st_published s1 \<noteq> st_published s
     then [Update (su_job_id u) (su_status u) (details_given (su_details u)) (v - 1) (is_terminal (su_status u)) n] else [])"
proof -
  let ?i = "su_job_id u" let ?t = "is_terminal (su_status u)"
  obtain p s0 where g: "get_or_create_job_entries env ?i s = (Inr p, s0)"
    using send by (auto simp: ota_status_send_def split: if_splits prod.splits sum.splits)
  obtain j where j: "entry_at p s0 = Some j" "je_job_id j = ?i" "je_addr j = p" and i0: "status_inv s0"
    using get_or_create_ok [OF inv add g] by auto
  have i: "?i \<noteq> []" "length ?i \<le> e_jobid_max env" using send by (auto simp: ota_status_send_def split: if_splits)
  let ?w = "je_version j"
  define s2 where "s2 = (if ?t then snd (set_cached_terminal env j u ?w s0) else s0)"
  define s3 where "s3 = bump_version p ?w s2"
  define pu where "pu = publish_update env u ?w ?t (je_job_id_int j) s3"
  have c: "\<not> ?t \<or> fst (set_cached_terminal env j u ?w s0) = ERR_OK"
    using send g j by (auto simp: ota_status_send_def Let_def case_prod_beta split: if_splits)
  have h2: "holds_job p ?i ?w ?t s2"
    using j holds_set_cached [of p ?i ?w False s0 env j u ?w] c by (auto simp: s2_def holds_job_def)
  have i2: "status_inv s2" using i0 j status_inv_set_cached [of s0 j env u ?w] by (simp add: s2_def)
  have out: "v = (if fst pu = ERR_OK then ?w + 1 else ?w)"
    "s1 = (if fst pu = ERR_OK then snd pu else snd (overwrite_version env ?i ?w (snd pu)))"
    "fst pu = ERR_OK \<Longrightarrow> r = ERR_OK"
    using send g j c by (auto simp: ota_status_send_def Let_def case_prod_beta pu_def s3_def s2_def split: if_splits)
  have pub: "st_published s2 = st_published s" using get_or_create_published [of env ?i s] g by (simp add: s2_def)
  have inv_pu: "status_inv (snd pu)" using i2 by (simp add: pu_def s3_def status_inv_bump)
  show ?thesis
  proof (cases "?w < 2147483647")
    case True
    have h3: "holds_job p ?i (?w + 1) ?t s3" using holds_bump [OF h2 True] by (simp add: s3_def)
    then have h4: "holds_job p ?i (?w + 1) ?t (snd pu)" by (simp add: pu_def)
    have pub3: "st_published s3 = st_published s" using True pub by (simp add: s3_def bump_version_def)
    have pub4: "st_published (snd pu) = st_published s @ (if fst pu = ERR_OK
        then [Update ?i (su_status u) (details_given (su_details u)) ?w ?t (je_job_id_int j)] else [])"
      using publish_published [of env u ?w ?t "je_job_id_int j" s3] pub3 by (simp add: pu_def)
    show ?thesis
    proof (cases "fst pu = ERR_OK")
      case True
      then have "holds_job p ?i v ?t s1" using h4 out(1,2) by simp
      then show ?thesis using True out pub4 by (intro exI [of _ p] exI [of _ "je_job_id_int j"]) simp
    next
      case False
      then have "holds_job p ?i v ?t s1" "st_published s1 = st_published s"
        using out(1,2) holds_overwrite [OF inv_pu h4 i] pub4 by simp_all
      then show ?thesis by auto
    qed
  next
    case False
    have "st_fault (snd pu)" using False
      by (simp add: pu_def s3_def bump_version_def st_fail_def publish_update_def st_err_def Let_def)
    moreover have "st_fault (snd (overwrite_version env ?i ?w t)) \<or> \<not> st_fault t" for t
      by (simp add: overwrite_version_def get_or_create_job_entries_def st_alloc_def st_fail_def Let_def upd_entry_def
          upd_cache_def split: option.splits)
    ultimately show ?thesis using fault out(2) by (metis (full_types))
  qed
qed

section \<open>Properties\<close>

primrec st_run :: "ota_env \<Rightarrow> nat \<Rightarrow> st_action list \<Rightarrow> st_world \<Rightarrow> st_world" where
  "st_run env m [] w = w"
| "st_run env m (a # as) w = st_run env m as (st_act env m a w)"

definition roomy :: "ota_env \<Rightarrow> nat \<Rightarrow> st_action list \<Rightarrow> st_world \<Rightarrow> bool" where
  "roomy env m as w \<longleftrightarrow> (\<forall>k < length as. room (fst (st_run env m (take k as) w)))"

definition st_boot :: status_sys where
  "st_boot = \<lparr>st_cache = None, st_calls = 0, st_fresh = 0, st_published = [], st_fault = False\<rparr>"

lemma roomy_Cons: "roomy env m (a # as) w \<Longrightarrow> room (fst w) \<and> roomy env m as (st_act env m a w)"
  unfolding roomy_def
proof
  assume r: "\<forall>k < length (a # as). room (fst (st_run env m (take k (a # as)) w))"
  show "room (fst w)" using r [rule_format, of 0] by simp
  show "\<forall>k < length as. room (fst (st_run env m (take k as) (st_act env m a w)))"
    using r by (metis Suc_less_eq length_Cons st_run.simps(2) take_Suc_Cons)
qed

lemma st_run_inv: "roomy env m as w \<Longrightarrow> status_inv (fst w) \<Longrightarrow> status_inv (fst (st_run env m as w))"
proof (induction as arbitrary: w)
  case (Cons a as)
  then have "room (fst w)" "roomy env m as (st_act env m a w)" using roomy_Cons by blast+
  then show ?case using Cons.IH Cons.prems(2) by (simp add: st_act_inv)
qed simp

lemma st_boot_inv: "status_inv st_boot"
  by (simp add: status_inv_def st_boot_def)

definition sample_update :: status_update where
  "sample_update = \<lparr>su_status = Succeeded, su_job_id = ''job-1'', su_details = None\<rparr>"

definition sample_st_env :: ota_env where
  "sample_st_env = sample_env\<lparr>e_json_search := \<lambda>doc key.
     if doc = ''ok'' \<and> key = ''clientToken'' then Some (JSONString, ''11'') else None\<rparr>"

definition sample_entry :: job_entries where
  "sample_entry = \<lparr>je_addr = 0, je_job_id = ''job-1'', je_job_id_int = 1, je_version = 2, je_has_terminal = True,
     je_status = Succeeded, je_details = None, je_expected = 1, je_delay = 1000, je_retry = Some True\<rparr>"

lemma sample_st_run:
  "st_cache (fst (st_run sample_st_env 8 [Init ''node'', Send sample_update] (st_boot, [])))
    = Some \<lparr>sc_entries = [sample_entry], sc_next_int = 2, sc_count = 1\<rparr>"
  "st_fault (fst (st_run sample_st_env 8 [Init ''node'', Send sample_update] (st_boot, []))) = False"
  "snd (st_run sample_st_env 8 [Init ''node'', Send sample_update] (st_boot, [])) = []"
  by (simp_all add: st_boot_def sample_st_env_def sample_env_def sample_update_def sample_entry_def ota_status_init_def
      ota_status_cache_init_def st_alloc_def ota_status_send_def get_or_create_job_entries_def details_given_def is_terminal_def
      entry_at_def entries_def new_entry_def set_cached_terminal_def upd_entry_def upd_cache_def schedule_or_reset_retry_def
      st_err_def publish_update_def bump_version_def version_str_fits_def RETRY_INITIAL_DELAY_MS_def)

lemma sample_roomy: "roomy sample_st_env 8 [Init ''node'', Send sample_update] (st_boot, [])"
proof -
  have "room (fst (st_act sample_st_env 8 (Init ''node'') (st_boot, [])))"
    by (simp add: room_def ota_status_init_def ota_status_cache_init_def st_alloc_def sample_st_env_def sample_env_def Let_def)
  moreover have "room st_boot" by (simp add: room_def st_boot_def)
  ultimately show ?thesis by (auto simp: roomy_def less_Suc_eq numeral_2_eq_2)
qed



text \<open>C21: a terminal update is kept until it is answered. In every state the status manager can reach, a call
after which a job's cached terminal update is gone is a shutdown or start of the manager, a clear of that job, or a
response that carries the job's number and either accepts a terminal update or rejects with a code no retry can
change.\<close>

theorem ota_terminal_update_kept:
  assumes "roomy env m as (st_boot, [])" "pending n (fst (st_run env m as (st_boot, [])))"
    "\<not> pending n (fst (st_act env m a (st_run env m as (st_boot, []))))"
  shows "settles env a n (fst (st_run env m as (st_boot, [])))"
proof -
  have "status_inv (fst (st_run env m as (st_boot, [])))" using st_run_inv [OF assms(1)] st_boot_inv by simp
  then show ?thesis using st_act_pending [of "fst (st_run env m as (st_boot, []))" n env m a] assms(2,3) by (metis prod.collapse)
qed

lemma sample_st_pending:
  "pending 1 (fst (st_run sample_st_env 8 [Init ''node'', Send sample_update] (st_boot, [])))"
  using sample_st_run(1) by (simp add: pending_def entries_def sample_entry_def)

lemma sample_st_accepted:
  "\<not> pending 1 (fst (st_act sample_st_env 8 (Response ''ok'' True)
     (st_run sample_st_env 8 [Init ''node'', Send sample_update] (st_boot, []))))"
proof -
  obtain s where s: "st_run sample_st_env 8 [Init ''node'', Send sample_update] (st_boot, []) = (s, [])"
    "st_cache s = Some \<lparr>sc_entries = [sample_entry], sc_next_int = 2, sc_count = 1\<rparr>"
    using sample_st_run by (metis prod.collapse)
  then show ?thesis
    by (simp add: s(1) ota_status_on_update_response_def sample_st_env_def token_from_payload_def parse_token_def str_to_uint32_def
        is_digit_def digit_val_def find_job_entries_by_int_def entries_def sample_entry_def remove_job_entries_def
        entry_at_def upd_cache_def pending_def del: st_run.simps)
qed

theorem ota_terminal_update_kept_witness:
  "settles sample_st_env (Response ''ok'' True) 1
     (fst (st_run sample_st_env 8 [Init ''node'', Send sample_update] (st_boot, [])))"
  by (rule ota_terminal_update_kept [OF sample_roomy sample_st_pending sample_st_accepted])

lemma ota_token_finds_its_job_helper:
  assumes "status_inv s" "j \<in> set (entries s)" "payload \<noteq> []"
    "e_json_search env payload ''clientToken'' = Some (JSONString, client_token terminal (je_job_id_int j))"
  shows "ota_status_on_update_response env payload True s
    = ((ERR_OK, Some \<lparr>rr_job_id = je_job_id j, rr_is_terminal = terminal, rr_is_unrecoverable = False\<rparr>),
       if terminal then remove_job_entries (je_addr j) s else s)
    \<and> (terminal \<longrightarrow> entries (remove_job_entries (je_addr j) s) = filter (\<lambda>k. k \<noteq> j) (entries s))"
proof
  have c: "st_cache s \<noteq> None" using assms(2) by (cases "st_cache s") (simp_all add: entries_def)
  show "ota_status_on_update_response env payload True s
    = ((ERR_OK, Some \<lparr>rr_job_id = je_job_id j, rr_is_terminal = terminal, rr_is_unrecoverable = False\<rparr>),
       if terminal then remove_job_entries (je_addr j) s else s)"
    using assms c find_by_int [OF assms(1,2)]
    by (simp add: ota_status_on_update_response_def token_from_payload_def token_roundtrip)
  show "terminal \<longrightarrow> entries (remove_job_entries (je_addr j) s) = filter (\<lambda>k. k \<noteq> j) (entries s)"
  proof
    assume terminal
    obtain c where c: "st_cache s = Some c" using c by blast
    then have d: "distinct (map je_addr (sc_entries c))" "j \<in> set (sc_entries c)"
      using assms(1,2) by (simp_all add: status_inv_def cache_ok_def)
    have "filter (\<lambda>k. je_addr k \<noteq> je_addr j) (sc_entries c) = filter (\<lambda>k. k \<noteq> j) (sc_entries c)"
      using d by (intro filter_cong refl) (auto simp: distinct_map inj_on_def)
    then show "entries (remove_job_entries (je_addr j) s) = filter (\<lambda>k. k \<noteq> j) (entries s)"
      using c entry_at_addr [OF assms(1,2)] by (simp add: remove_job_entries_def upd_cache_def entries_def)
  qed
qed

text \<open>C23: a response finds its job. A client token is read back as the terminal flag and the job number it was
made from; so a response that carries the token of an entry is answered with the entry's job id and the flag, and
an acceptance removes exactly that entry, or nothing when the update was not terminal.\<close>

theorem ota_token_finds_its_job:
  assumes "status_inv s" "j \<in> set (entries s)" "payload \<noteq> []"
    "e_json_search env payload ''clientToken'' = Some (JSONString, client_token terminal (je_job_id_int j))"
  shows "ota_status_on_update_response env payload True s
    = ((ERR_OK, Some \<lparr>rr_job_id = je_job_id j, rr_is_terminal = terminal, rr_is_unrecoverable = False\<rparr>),
       if terminal then remove_job_entries (je_addr j) s else s)
    \<and> (terminal \<longrightarrow> entries (remove_job_entries (je_addr j) s) = filter (\<lambda>k. k \<noteq> j) (entries s))"
  by (rule ota_token_finds_its_job_helper [OF assms])

lemma sample_entry_held: "entry_at 0 s = Some sample_entry \<Longrightarrow> sample_entry \<in> set (entries s)"
  using entry_atD by blast

theorem ota_token_finds_its_job_witness:
  "entries (snd (ota_status_on_update_response sample_st_env ''ok'' True
     (fst (st_run sample_st_env 8 [Init ''node'', Send sample_update] (st_boot, []))))) = []"
proof -
  let ?s = "fst (st_run sample_st_env 8 [Init ''node'', Send sample_update] (st_boot, []))"
  have e: "entries ?s = [sample_entry]" using sample_st_run(1) by (simp only: entries_def option.case) simp
  have "status_inv ?s" using st_run_inv [OF sample_roomy] st_boot_inv by simp
  moreover have "e_json_search sample_st_env ''ok'' ''clientToken'' = Some (JSONString, client_token True (je_job_id_int sample_entry))"
    by (simp add: sample_st_env_def client_token_def sample_entry_def) code_simp
  ultimately show ?thesis
    using ota_token_finds_its_job [of ?s sample_entry "''ok''" sample_st_env True] e by (simp del: st_run.simps)
qed

text \<open>C24: versions follow the publications. When \<^verbatim>\<open>ota_status_send\<close> hands out the next version, the job's entry
has that version, a terminal status is cached in it, and either nothing was published or exactly one update was,
with the version before.\<close>

theorem ota_send_keeps_version:
  assumes "status_inv s" "can_add (su_job_id u) s" "ota_status_send env u s = (r, Some v, s1)" "\<not> st_fault s1"
  shows "(\<exists>p. holds_job p (su_job_id u) v (is_terminal (su_status u)) s1) \<and> (st_published s1 = st_published s \<or>
    r = ERR_OK \<and> (\<exists>n. st_published s1 = st_published s @
      [Update (su_job_id u) (su_status u) (details_given (su_details u)) (v - 1) (is_terminal (su_status u)) n]))"
  using send_version [OF assms] by (auto split: if_splits)

theorem ota_send_keeps_version_witness:
  "\<exists>s1 p n. holds_job p ''job-1'' 2 True s1 \<and> st_published s1 = [Update ''job-1'' Succeeded None 1 True n]"
proof -
  let ?s = "fst (st_act sample_st_env 8 (Init ''node'') (st_boot, []))"
  have s: "?s = \<lparr>st_cache = Some \<lparr>sc_entries = [], sc_next_int = 1, sc_count = 0\<rparr>, st_calls = 2, st_fresh = 0, st_published = [], st_fault = False\<rparr>"
    by (simp add: st_boot_def sample_st_env_def sample_env_def ota_status_init_def ota_status_cache_init_def st_alloc_def)
  have inv: "status_inv ?s" "can_add (su_job_id sample_update) ?s"
    unfolding s by (simp_all add: status_inv_def cache_ok_def can_add_def room_def)
  obtain s1 where s1: "ota_status_send sample_st_env sample_update ?s = (ERR_OK, Some 2, s1)" "\<not> st_fault s1"
      "st_published s1 = [Update ''job-1'' Succeeded None 1 True 1]"
    unfolding s
    by (simp add: sample_st_env_def sample_env_def sample_update_def st_alloc_def ota_status_send_def
      get_or_create_job_entries_def details_given_def is_terminal_def
      entry_at_def entries_def new_entry_def set_cached_terminal_def upd_entry_def upd_cache_def schedule_or_reset_retry_def
      st_err_def publish_update_def bump_version_def version_str_fits_def RETRY_INITIAL_DELAY_MS_def)
  have t: "is_terminal (su_status sample_update) = True" "su_job_id sample_update = ''job-1''"
    by (simp_all add: is_terminal_def sample_update_def)
  from ota_send_keeps_version [OF inv s1(1,2)] show ?thesis using s1(3) unfolding t by blast
qed

section \<open>Where the manager breaks its contract\<close>

text \<open>A response that arrives while a timer task publishes frees the entry the task still uses.\<close>

lemma ota_retry_outlives_entry:
  assumes "status_inv s" "j \<in> set (entries s)" "payload \<noteq> []"
    "e_json_search env payload ''clientToken'' = Some (JSONString, client_token True (je_job_id_int j))"
  shows "st_fault (retry_finish env (je_addr j) t (snd (ota_status_on_update_response env payload True s)))"
proof -
  have "entries (snd (ota_status_on_update_response env payload True s)) = filter (\<lambda>k. k \<noteq> j) (entries s)"
    using ota_token_finds_its_job_helper [OF assms] by simp
  moreover have "je_addr k \<noteq> je_addr j" if "k \<in> set (entries s)" "k \<noteq> j" for k
    using entry_at_addr [OF assms(1)] assms(2) that by (metis option.inject)
  ultimately have "entry_at (je_addr j) (snd (ota_status_on_update_response env payload True s)) = None"
    by (auto simp: entry_at_def find_None_iff)
  then show ?thesis by (simp add: retry_finish_def st_fail_def split: prod.splits)
qed

text \<open>An initialisation that ran out of memory answers OK and leaves no cache, and the next call that needs it
goes through \<^verbatim>\<open>NULL\<close>.\<close>

lemma ota_status_init_hides_failure:
  assumes "name \<noteq> []" "length name \<le> m" "\<not> e_alloc env (st_calls s)" "i \<noteq> []" "length i \<le> e_jobid_max env"
  shows "\<exists>s1. ota_status_init env m name s = (ERR_OK, s1) \<and> st_cache s1 = None
    \<and> st_fault (snd (ota_status_set_initial_expected_version env i v s1))"
  using assms by (simp add: ota_status_init_def ota_status_cache_init_def ota_status_deinit_def ota_status_cache_deinit_def
      st_alloc_def Let_def ota_status_set_initial_expected_version_def overwrite_version_def get_or_create_job_entries_def
      st_fail_def split: prod.splits)

text \<open>A terminal status whose timer cannot be scheduled is answered with an error although it stays cached, so the
manager never reports an empty cache and nothing retries it.\<close>

lemma ota_send_error_keeps_terminal:
  assumes j: "entry_at (je_addr j) s = Some j" and d: "details_given (su_details u) = None"
    and e: "e_err env (st_calls s) \<noteq> ERR_OK" and r: "je_retry j = None"
  shows "fst (set_cached_terminal env j u v s) = ERR_FAIL"
    "\<exists>k. entry_at (je_addr j) (snd (set_cached_terminal env j u v s)) = Some k \<and> je_has_terminal k \<and> je_retry k = None"
proof -
  have calls: "st_calls (upd_entry p f t) = st_calls t" "st_calls (upd_cache g t) = st_calls t" for p f g t
    by (simp_all add: upd_entry_def upd_cache_def)
  have same: "entry_at (je_addr j) (upd_entry (je_addr j) f t) = Some (f k)"
    if "entry_at (je_addr j) t = Some k" "\<And>j. je_addr (f j) = je_addr j" for f t k
    using that entry_atD [OF that(1)] by simp
  let ?f = "\<lambda>j. j\<lparr>je_details := None, je_status := su_status u, je_expected := v, je_has_terminal := True,
    je_delay := RETRY_INITIAL_DELAY_MS\<rparr>"
  let ?s0 = "upd_entry (je_addr j) (\<lambda>j. j\<lparr>je_details := None\<rparr>) s"
  let ?s1 = "if je_has_terminal j then ?s0 else upd_cache (\<lambda>c. c\<lparr>sc_count := Suc (sc_count c)\<rparr>) ?s0"
  let ?s2 = "upd_entry (je_addr j) ?f ?s1"
  have "set_cached_terminal env j u v s = (ERR_FAIL, snd (st_err env ?s2))"
    using d e by (simp add: set_cached_terminal_def schedule_or_reset_retry_def st_err_def Let_def calls)
  moreover have "entry_at (je_addr j) ?s0 = Some (j\<lparr>je_details := None\<rparr>)" by (rule same [OF j]) simp
  then have "entry_at (je_addr j) ?s1 = Some (j\<lparr>je_details := None\<rparr>)" by (cases "je_has_terminal j") (simp_all only: if_True if_False entry_at_count)
  then have "entry_at (je_addr j) ?s2 = Some (?f (j\<lparr>je_details := None\<rparr>))" by (rule same) simp
  ultimately show "fst (set_cached_terminal env j u v s) = ERR_FAIL"
    "\<exists>k. entry_at (je_addr j) (snd (set_cached_terminal env j u v s)) = Some k \<and> je_has_terminal k \<and> je_retry k = None"
    using r by (simp_all add: entry_at_def entries_def st_err_def)
qed

end
