(* ===== verification/Ota_Bitmap.thy ===== *)
theory Ota_Bitmap
  imports Prelude
begin

text \<open>The bitmap of blocks that the MQTT image download still waits for
(\<^verbatim>\<open>ota_mqtt_downloader_bitmap.c\<close>) and the choice of the next request from it (\<^verbatim>\<open>request_get_next\<close> and
\<^verbatim>\<open>request_deinit\<close> of \<^verbatim>\<open>ota_mqtt_downloader.c\<close>). A bit is set while its block is awaited. A read or write
outside an array is \<^verbatim>\<open>Crashed\<close>. The abstraction of a bitmap is the ascending list of awaited blocks,
that of a request the ascending list of blocks it asks for, by the rule of the file streams service: bit
\<open>b\<close> of byte \<open>j\<close> asks for block \<open>8 j + b\<close> plus the offset of the request. Numbers are those of a target with a
32-bit \<^verbatim>\<open>size_t\<close>; where the code can wrap around, the definition does.\<close>

section \<open>Data\<close>

record bitmap =
  bm_cells :: "byte list option"
  bm_block_count :: nat
  bm_unprocessed :: nat

record request =
  rq_file_id :: u32
  rq_block_offset :: nat
  rq_block_count :: nat
  rq_bitmap :: "byte list option"
  rq_bitmap_len :: nat

text \<open>Subtraction and decrement of 32-bit unsigned numbers.\<close>

definition sub32 :: "nat \<Rightarrow> nat \<Rightarrow> nat" where
  "sub32 a b = (a + 2 ^ 32 - b) mod 2 ^ 32"

definition cells_for :: "nat \<Rightarrow> nat" where
  "cells_for n = (n + 7) mod 2 ^ 32 div 8"

lemma sub32_le [simp]: "b \<le> a \<Longrightarrow> a < 2 ^ 32 \<Longrightarrow> sub32 a b = a - b"
proof -
  assume "b \<le> a" "a < 2 ^ 32"
  then have "a + 2 ^ 32 - b = (a - b) + 2 ^ 32" and "a - b < 2 ^ 32" by simp_all
  then show ?thesis by (simp only: sub32_def mod_add_self2 mod_less)
qed

lemma cells_for_small [simp]: "n + 7 < 2 ^ 32 \<Longrightarrow> cells_for n = (n + 7) div 8"
  by (simp add: cells_for_def)

section \<open>The bitmap\<close>

definition mqtt_downloader_bitmap_init :: "bool \<Rightarrow> u32 \<Rightarrow> bitmap \<Rightarrow> err \<times> bitmap" where
  "mqtt_downloader_bitmap_init alloc block_count bm =
    (if block_count = 0 then (ERR_INVALID_ARG, bm)
     else let cell_count = (block_count + 7) div 8 in
       if \<not> alloc then (ERR_NO_MEM, bm\<lparr>bm_cells := None\<rparr>)
       else (ERR_OK, \<lparr>bm_cells = Some (replicate (unat cell_count) 0xFF),
                      bm_block_count = unat block_count, bm_unprocessed = unat block_count\<rparr>))"

definition mqtt_downloader_bitmap_deinit :: "bitmap \<Rightarrow> bitmap" where
  "mqtt_downloader_bitmap_deinit bm = \<lparr>bm_cells = None, bm_block_count = 0, bm_unprocessed = 0\<rparr>"

definition mqtt_downloader_bitmap_is_processed :: "bitmap \<Rightarrow> int \<Rightarrow> bool outcome" where
  "mqtt_downloader_bitmap_is_processed bm block_id =
    (case bm_cells bm of
       None \<Rightarrow> Returned False
     | Some cs \<Rightarrow>
         if block_id < 0 \<or> int (bm_block_count bm) \<le> block_id then Returned False
         else let cell_index = nat block_id div 8; b = nat block_id mod 8 in
           obind (read_at cs cell_index) (\<lambda>w. Returned (\<not> bit w b)))"

definition mqtt_downloader_bitmap_set_processed :: "bitmap \<Rightarrow> int \<Rightarrow> (err \<times> bitmap) outcome" where
  "mqtt_downloader_bitmap_set_processed bm block_id =
    (case bm_cells bm of
       None \<Rightarrow> Returned (ERR_INVALID_ARG, bm)
     | Some cs \<Rightarrow>
         if block_id < 0 \<or> int (bm_block_count bm) \<le> block_id then Returned (ERR_INVALID_ARG, bm)
         else let cell_index = nat block_id div 8; b = nat block_id mod 8 in
           obind (read_at cs cell_index) (\<lambda>w.
             if \<not> bit w b then Returned (ERR_INVALID_STATE, bm)
             else Returned (ERR_OK, bm\<lparr>bm_cells := Some (cs[cell_index := unset_bit b w]),
                                      bm_unprocessed := sub32 (bm_unprocessed bm) 1\<rparr>)))"

section \<open>The next request\<close>

record scan =
  sc_first :: nat
  sc_last :: nat
  sc_count :: nat
  sc_reached :: bool

text \<open>The inner loop over the bits of a cell, and the outer one over the cells.\<close>

definition count_block :: "nat \<Rightarrow> scan \<Rightarrow> scan" where
  "count_block block_id s = s\<lparr>sc_first := (if block_id < sc_first s then block_id else sc_first s),
     sc_last := (if sc_last s < block_id then block_id else sc_last s), sc_count := Suc (sc_count s)\<rparr>"

fun scan_bits :: "nat \<Rightarrow> nat \<Rightarrow> byte \<Rightarrow> nat \<Rightarrow> nat list \<Rightarrow> scan \<Rightarrow> scan" where
  "scan_bits nb wanted w cell_idx [] s = s"
| "scan_bits nb wanted w cell_idx (b # bs) s =
    (let block_id = cell_idx * 8 + b in
     if nb \<le> block_id then s
     else if bit w b then
       let s' = count_block block_id s
       in if sc_count s' = wanted then s'\<lparr>sc_reached := True\<rparr>
          else scan_bits nb wanted w cell_idx bs s'
     else scan_bits nb wanted w cell_idx bs s)"

fun scan_cells :: "nat \<Rightarrow> nat \<Rightarrow> byte list \<Rightarrow> nat list \<Rightarrow> scan \<Rightarrow> scan outcome" where
  "scan_cells nb wanted cs [] s = Returned s"
| "scan_cells nb wanted cs (cell_idx # cis) s =
    obind (read_at cs cell_idx) (\<lambda>w.
      let s' = (if w \<noteq> 0 then scan_bits nb wanted w cell_idx [0..<8] s else s) in
      if sc_reached s' then Returned s' else scan_cells nb wanted cs cis s')"

text \<open>The two loops that copy the chosen bits to the compact bitmap.\<close>

fun compact_bits :: "nat \<Rightarrow> nat \<Rightarrow> byte \<Rightarrow> nat \<Rightarrow> nat list \<Rightarrow> byte list \<Rightarrow> byte list outcome" where
  "compact_bits lo hi w cell_idx [] out = Returned out"
| "compact_bits lo hi w cell_idx (b # bs) out =
    (let block_id = cell_idx * 8 + b in
     if hi < block_id then Returned out
     else if bit w b then
       let k = sub32 block_id lo in
       obind (read_at out (k div 8)) (\<lambda>v.
         compact_bits lo hi w cell_idx bs (out[k div 8 := set_bit (k mod 8) v]))
     else compact_bits lo hi w cell_idx bs out)"

fun compact_cells :: "nat \<Rightarrow> nat \<Rightarrow> byte list \<Rightarrow> nat list \<Rightarrow> byte list \<Rightarrow> byte list outcome" where
  "compact_cells lo hi cs [] out = Returned out"
| "compact_cells lo hi cs (cell_idx # cis) out =
    obind (read_at cs cell_idx) (\<lambda>w.
      if w \<noteq> 0
      then obind (compact_bits lo hi w cell_idx [0..<8] out) (compact_cells lo hi cs cis)
      else compact_cells lo hi cs cis out)"

definition request_get_next :: "bool \<Rightarrow> u32 \<Rightarrow> nat \<Rightarrow> bitmap \<Rightarrow> request \<Rightarrow> (err \<times> request) outcome" where
  "request_get_next alloc file_id block_count bm rq =
    (case bm_cells bm of
       None \<Rightarrow> Returned (ERR_INVALID_ARG, rq)
     | Some cs \<Rightarrow>
         if bm_unprocessed bm = 0
         then Returned (ERR_OK, \<lparr>rq_file_id = 0, rq_block_offset = 0, rq_block_count = 0,
                                 rq_bitmap = None, rq_bitmap_len = 0\<rparr>)
         else obind (scan_cells (bm_block_count bm) block_count cs [0..<cells_for (bm_block_count bm)]
                       \<lparr>sc_first = 2 ^ 32 - 1, sc_last = 0, sc_count = 0, sc_reached = False\<rparr>) (\<lambda>s.
           let range = (sub32 (sc_last s) (sc_first s) + 1) mod 2 ^ 32;
               compact_cell_count = cells_for range in
           if \<not> alloc then Returned (ERR_NO_MEM, rq)
           else obind (compact_cells (sc_first s) (sc_last s) cs
                         [sc_first s div 8..<Suc (sc_last s div 8)] (replicate compact_cell_count 0)) (\<lambda>out.
             Returned (ERR_OK, \<lparr>rq_file_id = file_id, rq_block_offset = sc_first s,
                                rq_block_count = sc_count s, rq_bitmap = Some out,
                                rq_bitmap_len = compact_cell_count\<rparr>))))"

definition zero_request :: request where
  "zero_request = \<lparr>rq_file_id = 0, rq_block_offset = 0, rq_block_count = 0, rq_bitmap = None, rq_bitmap_len = 0\<rparr>"

definition request_deinit :: "request \<Rightarrow> request" where
  "request_deinit rq = rq\<lparr>rq_file_id := 0, rq_block_offset := 0, rq_block_count := 0,
     rq_bitmap := None, rq_bitmap_len := 0\<rparr>"

section \<open>Abstraction\<close>

definition pending_in :: "byte list \<Rightarrow> nat \<Rightarrow> nat list" where
  "pending_in cs n = filter (\<lambda>i. bit (cs ! (i div 8)) (i mod 8)) [0..<n]"

definition pending :: "bitmap \<Rightarrow> nat list" where
  "pending bm = (case bm_cells bm of None \<Rightarrow> [] | Some cs \<Rightarrow> pending_in cs (bm_block_count bm))"

definition bitmap_ok :: "bitmap \<Rightarrow> bool" where
  "bitmap_ok bm = (case bm_cells bm of None \<Rightarrow> False | Some cs \<Rightarrow>
     0 < bm_block_count bm \<and> bm_block_count bm + 7 < 2 ^ 32 \<and>
     length cs = (bm_block_count bm + 7) div 8 \<and> bm_unprocessed bm = length (pending bm))"

definition requested_blocks :: "request \<Rightarrow> nat list" where
  "requested_blocks rq = (case rq_bitmap rq of None \<Rightarrow> [] | Some cs \<Rightarrow>
     map (\<lambda>k. rq_block_offset rq + k) (pending_in cs (8 * length cs)))"

section \<open>Packed bits\<close>

definition bit_at :: "byte list \<Rightarrow> nat \<Rightarrow> bool" where
  "bit_at cs i = bit (cs ! (i div 8)) (i mod 8)"

lemma pending_in_bit_at: "pending_in cs n = filter (bit_at cs) [0..<n]"
  by (simp add: pending_in_def bit_at_def [abs_def])

lemma bit_at_update:
  assumes "j < 8 * length cs" "i < 8 * length cs"
  shows "bit_at (cs[j div 8 := set_bit (j mod 8) (cs ! (j div 8))]) i \<longleftrightarrow> bit_at cs i \<or> i = j"
    and "bit_at (cs[j div 8 := unset_bit (j mod 8) (cs ! (j div 8))]) i \<longleftrightarrow> bit_at cs i \<and> i \<noteq> j"
proof -
  have j: "j div 8 < length cs" "j mod 8 < 8" and i: "i mod 8 < 8" using assms by auto
  have same: "i div 8 = j div 8 \<Longrightarrow> i mod 8 = j mod 8 \<longleftrightarrow> i = j"
    by (metis div_mult_mod_eq)
  show "bit_at (cs[j div 8 := set_bit (j mod 8) (cs ! (j div 8))]) i \<longleftrightarrow> bit_at cs i \<or> i = j"
    using j i same by (cases "i div 8 = j div 8") (auto simp: bit_at_def bit_set_bit_iff nth_list_update)
  show "bit_at (cs[j div 8 := unset_bit (j mod 8) (cs ! (j div 8))]) i \<longleftrightarrow> bit_at cs i \<and> i \<noteq> j"
    using j i same by (cases "i div 8 = j div 8") (auto simp: bit_at_def bit_unset_bit_iff nth_list_update)
qed

lemma pending_in_sorted [simp]: "sorted (pending_in cs n)" "distinct (pending_in cs n)"
  by (simp_all add: pending_in_bit_at sorted_wrt_filter)

lemma pending_in_set: "set (pending_in cs n) = {i. i < n \<and> bit_at cs i}"
  by (auto simp: pending_in_bit_at)

text \<open>The awaited blocks of one cell, and all of them cell by cell.\<close>

definition hits :: "nat \<Rightarrow> byte \<Rightarrow> nat \<Rightarrow> nat list \<Rightarrow> nat list" where
  "hits nb w cell_idx bs = filter (\<lambda>i. i < nb \<and> bit w (i - cell_idx * 8)) (map (\<lambda>b. cell_idx * 8 + b) bs)"

lemma hits_Nil [simp]: "hits nb w cell_idx [] = []"
  by (simp add: hits_def)

lemma hits_Cons: "hits nb w cell_idx (b # bs) =
    (if cell_idx * 8 + b < nb \<and> bit w b then [cell_idx * 8 + b] else []) @ hits nb w cell_idx bs"
  by (simp add: hits_def)

lemma hits_zero [simp]: "hits nb 0 cell_idx bs = []"
  by (simp add: hits_def)

lemma hits_beyond: "\<forall>b \<in> set bs. nb \<le> cell_idx * 8 + b \<Longrightarrow> hits nb w cell_idx bs = []"
  by (auto simp: hits_def filter_empty_conv)

lemma upt_cells: "map (\<lambda>b. c * 8 + b) [0..<8] = [8 * c..<8 * Suc c]"
  by (simp add: upt_rec numeral_eq_Suc)

lemma hits_cell:
  "hits nb w c [0..<8] = filter (\<lambda>i. i < nb \<and> bit w (i mod 8)) [8 * c..<8 * Suc c]"
proof -
  have "i - c * 8 = i mod 8" if "i \<in> set [8 * c..<8 * Suc c]" for i
  proof -
    from that have "8 * c \<le> i" "i < 8 * c + 8" by simp_all
    then obtain r where "i = 8 * c + r" "r < 8" using le_Suc_ex by fastforce
    then show ?thesis by simp
  qed
  then show ?thesis unfolding hits_def upt_cells by (intro filter_cong) auto
qed

section \<open>The scan finds the first awaited blocks\<close>

text \<open>The scan state after the blocks \<open>xs\<close>, in ascending order, were counted.\<close>

definition scan_of :: "nat list \<Rightarrow> bool \<Rightarrow> scan" where
  "scan_of xs r = \<lparr>sc_first = (if xs = [] then 2 ^ 32 - 1 else hd xs), sc_last = (if xs = [] then 0 else last xs),
     sc_count = length xs, sc_reached = r\<rparr>"

lemma scan_of_snoc:
  assumes "sorted xs" "\<forall>x \<in> set xs. x < i" "i < 2 ^ 32 - 1"
  shows "count_block i (scan_of xs r) = scan_of (xs @ [i]) r"
proof (cases "xs = []")
  case True
  then show ?thesis using assms(3) by (simp add: scan_of_def count_block_def)
next
  case False
  then have "hd xs < i" "last xs < i" using assms(2) by simp_all
  then show ?thesis using False by (simp add: scan_of_def count_block_def)
qed

lemma scan_of_sel [simp]:
  "sc_count (scan_of xs r) = length xs" "sc_reached (scan_of xs r) = r"
  "(scan_of xs r)\<lparr>sc_reached := r'\<rparr> = scan_of xs r'"
  "xs \<noteq> [] \<Longrightarrow> sc_first (scan_of xs r) = hd xs" "xs \<noteq> [] \<Longrightarrow> sc_last (scan_of xs r) = last xs"
  by (simp_all add: scan_of_def)

lemma scan_bits_finds:
  assumes "sorted xs" "sorted_wrt (<) bs" "\<forall>x \<in> set xs. \<forall>b \<in> set bs. x < cell_idx * 8 + b"
    and "nb < 2 ^ 32" "length xs < wanted"
  shows "scan_bits nb wanted w cell_idx bs (scan_of xs False) =
    scan_of (take wanted (xs @ hits nb w cell_idx bs)) (wanted \<le> length (xs @ hits nb w cell_idx bs))"
  using assms
proof (induction bs arbitrary: xs)
  case Nil
  then show ?case by simp
next
  case (Cons b bs)
  let ?i = "cell_idx * 8 + b"
  consider "nb \<le> ?i" | "?i < nb" "bit w b" | "?i < nb" "\<not> bit w b" by linarith
  then show ?case
  proof cases
    case 1
    then have "hits nb w cell_idx (b # bs) = []" using Cons.prems(2) by (intro hits_beyond) auto
    then show ?thesis using 1 Cons.prems(5) by simp
  next
    case 2
    have snoc: "scan_bits nb wanted w cell_idx (b # bs) (scan_of xs False) =
        (if Suc (length xs) = wanted then scan_of (xs @ [?i]) True
         else scan_bits nb wanted w cell_idx bs (scan_of (xs @ [?i]) False))"
      using 2 Cons.prems(3,4) scan_of_snoc [of xs ?i False, OF Cons.prems(1)]
      by (simp add: Let_def)
    show ?thesis
    proof (cases "Suc (length xs) = wanted")
      case True
      have "wanted = Suc (length xs)" using True by simp
      then show ?thesis using 2 unfolding snoc by (simp add: hits_Cons)
    next
      case False
      have "scan_bits nb wanted w cell_idx bs (scan_of (xs @ [?i]) False) =
          scan_of (take wanted ((xs @ [?i]) @ hits nb w cell_idx bs)) (wanted \<le> length ((xs @ [?i]) @ hits nb w cell_idx bs))"
        using Cons.prems False 2 by (intro Cons.IH) (auto simp: sorted_append less_imp_le)
      then show ?thesis using False 2 unfolding snoc by (simp add: hits_Cons)
    qed
  next
    case 3
    have "scan_bits nb wanted w cell_idx bs (scan_of xs False) =
        scan_of (take wanted (xs @ hits nb w cell_idx bs)) (wanted \<le> length (xs @ hits nb w cell_idx bs))"
      using Cons.prems by (intro Cons.IH) auto
    then show ?thesis using 3 by (simp add: hits_Cons)
  qed
qed

lemma scan_cells_finds:
  assumes "sorted xs" "sorted_wrt (<) cis" "\<forall>x \<in> set xs. \<forall>c \<in> set cis. x < 8 * c"
    and "nb < 2 ^ 32" "length xs < wanted" "\<forall>c \<in> set cis. c < length cs"
  defines "ys \<equiv> concat (map (\<lambda>c. hits nb (cs ! c) c [0..<8]) cis)"
  shows "scan_cells nb wanted cs cis (scan_of xs False) =
    Returned (scan_of (take wanted (xs @ ys)) (wanted \<le> length (xs @ ys)))"
  unfolding ys_def using assms(1-6)
proof (induction cis arbitrary: xs)
  case Nil
  then show ?case by simp
next
  case (Cons c cis)
  let ?h = "hits nb (cs ! c) c [0..<8]"
  have h: "\<forall>x \<in> set ?h. 8 * c \<le> x \<and> x < 8 * Suc c" "sorted ?h"
    by (simp_all add: hits_cell sorted_wrt_filter)
  have bits: "scan_bits nb wanted (cs ! c) c [0..<8] (scan_of xs False) =
      scan_of (take wanted (xs @ ?h)) (wanted \<le> length (xs @ ?h))"
    using Cons.prems by (intro scan_bits_finds) fastforce+
  have step: "(if cs ! c \<noteq> 0 then scan_bits nb wanted (cs ! c) c [0..<8] (scan_of xs False)
      else scan_of xs False) = scan_of (take wanted (xs @ ?h)) (wanted \<le> length (xs @ ?h))"
    using Cons.prems(5) by (cases "cs ! c = 0") (simp_all add: bits)
  have c: "c < length cs" using Cons.prems(6) by simp
  show ?case
  proof (cases "wanted \<le> length (xs @ ?h)")
    case True
    then show ?thesis using c by (simp add: step Let_def)
  next
    case False
    have later: "\<forall>c' \<in> set cis. Suc c \<le> c'" using Cons.prems(2) by (auto simp: Suc_le_eq)
    have "scan_cells nb wanted cs cis (scan_of (xs @ ?h) False) =
      Returned (scan_of (take wanted ((xs @ ?h) @ concat (map (\<lambda>c. hits nb (cs ! c) c [0..<8]) cis)))
        (wanted \<le> length ((xs @ ?h) @ concat (map (\<lambda>c. hits nb (cs ! c) c [0..<8]) cis))))"
    proof (rule Cons.IH)
      show "sorted (xs @ ?h)" using Cons.prems(1,3) h by (fastforce simp: sorted_append)
      show "\<forall>x \<in> set (xs @ ?h). \<forall>c' \<in> set cis. x < 8 * c'"
        using Cons.prems(3) h(1) later by (fastforce dest!: bspec)
    qed (use Cons.prems False in auto)
    then show ?thesis using c False by (simp add: step Let_def)
  qed
qed

lemma pending_in_cells:
  "concat (map (\<lambda>c. hits nb (cs ! c) c [0..<8]) [0..<k]) = pending_in cs (min nb (8 * k))"
proof (induction k)
  case 0
  then show ?case by (simp add: pending_in_def)
next
  case (Suc k)
  have cell: "hits nb (cs ! k) k [0..<8] = filter (\<lambda>i. i < nb \<and> bit_at cs i) [8 * k..<8 * Suc k]"
    unfolding hits_cell by (intro filter_cong) (auto simp: bit_at_def div_nat_eqI)
  have part: "pending_in cs (min nb (8 * k)) = filter (\<lambda>i. i < nb \<and> bit_at cs i) [0..<8 * k]" for k
  proof (cases "nb \<le> 8 * k")
    case True
    then have "[0..<8 * k] = [0..<nb] @ [nb..<8 * k]" by (metis le0 le_add_diff_inverse upt_add_eq_append)
    moreover have "filter (\<lambda>i. i < nb \<and> bit_at cs i) [0..<nb] = filter (bit_at cs) [0..<nb]"
      by (intro filter_cong) auto
    moreover have "filter (\<lambda>i. i < nb \<and> bit_at cs i) [nb..<8 * k] = []" by (auto simp: filter_empty_conv)
    ultimately show ?thesis using True by (simp add: pending_in_bit_at)
  next
    case False
    then show ?thesis unfolding pending_in_bit_at by (intro filter_cong) auto
  qed
  have "[0..<8 * Suc k] = [0..<8 * k] @ [8 * k..<8 * Suc k]"
    by (metis le0 le_add1 mult_Suc_right add.commute upt_add_eq_append le_add_diff_inverse)
  then have "pending_in cs (min nb (8 * Suc k)) = pending_in cs (min nb (8 * k)) @ hits nb (cs ! k) k [0..<8]"
    by (simp only: part cell filter_append)
  then show ?case using Suc by simp
qed

lemma scan_finds_pending:
  assumes "length cs = (nb + 7) div 8" "nb + 7 < 2 ^ 32" "0 < wanted"
  shows "scan_cells nb wanted cs [0..<(nb + 7) div 8] (scan_of [] False) =
    Returned (scan_of (take wanted (pending_in cs nb)) (wanted \<le> length (pending_in cs nb)))"
proof -
  have "concat (map (\<lambda>c. hits nb (cs ! c) c [0..<8]) [0..<(nb + 7) div 8]) = pending_in cs nb"
    unfolding pending_in_cells by (rule arg_cong [where f = "pending_in cs"]) (simp add: min_def)
  then show ?thesis
    using scan_cells_finds [of "[]" "[0..<(nb + 7) div 8]" nb wanted cs] assms by simp
qed

section \<open>The compact bitmap\<close>

text \<open>A bit that is copied lies between the first and the last chosen block.\<close>

lemma compact_bits_copies:
  assumes "\<forall>b \<in> set bs. bit w b \<and> c * 8 + b \<le> hi \<longrightarrow> lo \<le> c * 8 + b" "sorted_wrt (<) bs"
    and "hi < 2 ^ 32" "hi - lo < 8 * length out"
  shows "\<exists>out'. compact_bits lo hi w c bs out = Returned out' \<and> length out' = length out \<and>
    (\<forall>k < 8 * length out. bit_at out' k \<longleftrightarrow>
       bit_at out k \<or> (\<exists>b \<in> set bs. bit w b \<and> c * 8 + b \<le> hi \<and> k = c * 8 + b - lo))"
  using assms
proof (induction bs arbitrary: out)
  case Nil
  then show ?case by simp
next
  case (Cons b bs)
  let ?i = "c * 8 + b"
  consider "hi < ?i" | "?i \<le> hi" "\<not> bit w b" | "?i \<le> hi" "bit w b" by linarith
  then show ?case
  proof cases
    case 1
    then have "\<forall>b' \<in> set (b # bs). hi < c * 8 + b'" using Cons.prems(2) by fastforce
    then show ?thesis using 1 by (fastforce simp: Let_def)
  next
    case 2
    have "\<exists>out'. compact_bits lo hi w c bs out = Returned out' \<and> length out' = length out \<and>
      (\<forall>k < 8 * length out. bit_at out' k \<longleftrightarrow>
         bit_at out k \<or> (\<exists>b \<in> set bs. bit w b \<and> c * 8 + b \<le> hi \<and> k = c * 8 + b - lo))"
      using Cons.prems by (intro Cons.IH) auto
    then show ?thesis using 2 by (simp add: Let_def)
  next
    case 3
    let ?k = "?i - lo" and ?out = "out[(?i - lo) div 8 := set_bit ((?i - lo) mod 8) (out ! ((?i - lo) div 8))]"
    have lo: "lo \<le> ?i" using Cons.prems(1) 3 by simp
    have k: "?k < 8 * length out" using Cons.prems(4) 3 lo by linarith
    have sub: "sub32 ?i lo = ?k" using lo 3 Cons.prems(3) by (intro sub32_le) auto
    have "\<exists>out'. compact_bits lo hi w c bs ?out = Returned out' \<and> length out' = length ?out \<and>
      (\<forall>k < 8 * length ?out. bit_at out' k \<longleftrightarrow>
         bit_at ?out k \<or> (\<exists>b \<in> set bs. bit w b \<and> c * 8 + b \<le> hi \<and> k = c * 8 + b - lo))"
      using Cons.prems by (intro Cons.IH) auto
    moreover have "compact_bits lo hi w c (b # bs) out = compact_bits lo hi w c bs ?out"
      using 3 k by (simp add: Let_def sub less_mult_imp_div_less)
    ultimately show ?thesis using 3 bit_at_update(1) [OF k] by auto
  qed
qed

lemma cell_bits: "(\<exists>b \<in> set [0..<8]. bit w b \<and> P (c * 8 + b)) \<longleftrightarrow> (\<exists>i. i div 8 = c \<and> bit w (i mod 8) \<and> P i)"
  for P :: "nat \<Rightarrow> bool"
proof
  assume "\<exists>b \<in> set [0..<8]. bit w b \<and> P (c * 8 + b)"
  then obtain b where "b < 8" "bit w b" "P (c * 8 + b)" by auto
  then show "\<exists>i. i div 8 = c \<and> bit w (i mod 8) \<and> P i" by (intro exI [of _ "c * 8 + b"]) simp
next
  assume "\<exists>i. i div 8 = c \<and> bit w (i mod 8) \<and> P i"
  then obtain i where "i div 8 = c" "bit w (i mod 8)" "P i" by blast
  moreover from this have "i = c * 8 + i mod 8" by (metis div_mult_mod_eq)
  ultimately show "\<exists>b \<in> set [0..<8]. bit w b \<and> P (c * 8 + b)" by (intro bexI [of _ "i mod 8"]) auto
qed

lemma compact_cells_copies:
  assumes "\<forall>i. i div 8 \<in> set cis \<and> bit_at cs i \<and> i \<le> hi \<longrightarrow> lo \<le> i" "\<forall>c \<in> set cis. c < length cs"
    and "hi < 2 ^ 32" "hi - lo < 8 * length out"
  shows "\<exists>out'. compact_cells lo hi cs cis out = Returned out' \<and> length out' = length out \<and>
    (\<forall>k < 8 * length out. bit_at out' k \<longleftrightarrow>
       bit_at out k \<or> (\<exists>i. i div 8 \<in> set cis \<and> bit_at cs i \<and> i \<le> hi \<and> k = i - lo))"
  using assms
proof (induction cis arbitrary: out)
  case Nil
  then show ?case by simp
next
  case (Cons c cis)
  let ?in = "\<lambda>i k. bit (cs ! c) (i mod 8) \<and> i \<le> hi \<and> k = i - lo"
  have c: "c < length cs" using Cons.prems(2) by simp
  have first: "\<exists>out1. (if cs ! c \<noteq> 0 then compact_bits lo hi (cs ! c) c [0..<8] out else Returned out) = Returned out1 \<and>
    length out1 = length out \<and>
    (\<forall>k < 8 * length out. bit_at out1 k \<longleftrightarrow> bit_at out k \<or> (\<exists>i. i div 8 = c \<and> ?in i k))"
  proof (cases "cs ! c = 0")
    case True
    then show ?thesis by simp
  next
    case False
    have "\<forall>b \<in> set [0..<8]. bit (cs ! c) b \<and> c * 8 + b \<le> hi \<longrightarrow> lo \<le> c * 8 + b"
      using Cons.prems(1) by (auto simp: bit_at_def)
    from compact_bits_copies [OF this _ Cons.prems(3,4)] obtain out1 where
      "compact_bits lo hi (cs ! c) c [0..<8] out = Returned out1" "length out1 = length out"
      "\<forall>k < 8 * length out. bit_at out1 k \<longleftrightarrow> bit_at out k \<or>
         (\<exists>b \<in> set [0..<8]. bit (cs ! c) b \<and> c * 8 + b \<le> hi \<and> k = c * 8 + b - lo)" by auto
    moreover note cell_bits [of "cs ! c" "\<lambda>i. i \<le> hi \<and> _ = i - lo" c]
    ultimately show ?thesis using False by simp
  qed
  then obtain out1 where out1: "(if cs ! c \<noteq> 0 then compact_bits lo hi (cs ! c) c [0..<8] out else Returned out) = Returned out1"
    "length out1 = length out"
    "\<forall>k < 8 * length out. bit_at out1 k \<longleftrightarrow> bit_at out k \<or> (\<exists>i. i div 8 = c \<and> ?in i k)" by blast
  have step: "compact_cells lo hi cs (c # cis) out = compact_cells lo hi cs cis out1"
    using c out1(1) by (simp split: if_splits)
  have "\<exists>out'. compact_cells lo hi cs cis out1 = Returned out' \<and> length out' = length out1 \<and>
    (\<forall>k < 8 * length out1. bit_at out' k \<longleftrightarrow>
       bit_at out1 k \<or> (\<exists>i. i div 8 \<in> set cis \<and> bit_at cs i \<and> i \<le> hi \<and> k = i - lo))"
    using Cons.prems out1(2) by (intro Cons.IH) auto
  then show ?case using out1 unfolding step by (auto simp: bit_at_def)
qed

section \<open>Correctness of the request\<close>

lemma sorted_take_set:
  fixes xs :: "nat list"
  assumes "sorted xs" "distinct xs" "take n xs \<noteq> []"
  shows "set (take n xs) = {x \<in> set xs. x \<le> last (take n xs)}"
proof -
  let ?t = "take n xs" and ?d = "drop n xs"
  have split: "set xs = set ?t \<union> set ?d" by (metis append_take_drop_id set_append)
  have s: "sorted (?t @ ?d)" and d: "distinct (?t @ ?d)" using assms(1,2) by simp_all
  have le: "x \<le> last ?t" if "x \<in> set ?t" for x
  proof -
    have "sorted (butlast ?t @ [last ?t])" using s assms(3) by (simp add: sorted_append)
    moreover have "x \<in> set (butlast ?t) \<or> x = last ?t"
      using that assms(3) by (metis append_butlast_last_id rotate1.simps(2) set_ConsD set_rotate1)
    ultimately show ?thesis by (auto simp: sorted_append)
  qed
  have gt: "last ?t < y" if "y \<in> set ?d" for y
  proof -
    have l: "last ?t \<in> set ?t" using assms(3) by simp
    have "last ?t \<le> y" using s l that unfolding sorted_append by blast
    moreover have "last ?t \<noteq> y" using d l that unfolding distinct_append by blast
    ultimately show ?thesis by simp
  qed
  show ?thesis
  proof (intro equalityI subsetI)
    fix x assume "x \<in> set ?t"
    then show "x \<in> {x \<in> set xs. x \<le> last ?t}" using le split by blast
  next
    fix x assume "x \<in> {x \<in> set xs. x \<le> last ?t}"
    then have "x \<in> set ?t \<union> set ?d" "\<not> last ?t < x" using split by auto
    then show "x \<in> set ?t" using gt by blast
  qed
qed

lemma request_decodes:
  fixes wanted :: nat
  assumes "length cs = (nb + 7) div 8" "nb + 7 < 2 ^ 32"
  defines "xs \<equiv> take wanted (pending_in cs nb)"
  assumes "xs \<noteq> []"
  shows "\<exists>out. compact_cells (hd xs) (last xs) cs [hd xs div 8..<Suc (last xs div 8)]
      (replicate (cells_for ((sub32 (last xs) (hd xs) + 1) mod 2 ^ 32)) 0) = Returned out \<and>
    map (\<lambda>k. hd xs + k) (pending_in out (8 * length out)) = xs"
proof -
  let ?lo = "hd xs" and ?hi = "last xs" and ?p = "pending_in cs nb"
  have sx: "sorted xs" "distinct xs" unfolding xs_def by (simp_all add: sorted_wrt_take)
  have set_xs: "set xs = {i. i < nb \<and> bit_at cs i \<and> i \<le> ?hi}"
    using sorted_take_set [of ?p wanted] assms(4) unfolding xs_def by (auto simp: pending_in_set)
  have hi: "?hi < nb" "?hi \<in> set xs" using set_xs last_in_set [OF assms(4)] by auto
  have lo: "?lo \<le> i" if "i \<in> set xs" for i using sx(1) that assms(4) by (cases xs) auto
  have lohi: "?lo \<le> ?hi" using lo hi(2) by blast
  let ?n = "cells_for ((sub32 ?hi ?lo + 1) mod 2 ^ 32)"
  have sub: "sub32 ?hi ?lo = ?hi - ?lo" using lohi hi(1) assms(2) by (intro sub32_le) auto
  have n: "?n = (?hi - ?lo + 8) div 8" unfolding sub using hi(1) assms(2) by simp
  have fits: "?hi - ?lo < 8 * ?n" unfolding n by linarith
  have zero: "\<not> bit_at (replicate ?n 0) k" if "k < 8 * ?n" for k
    using that by (simp add: bit_at_def less_mult_imp_div_less)
  have "\<exists>out. compact_cells ?lo ?hi cs [?lo div 8..<Suc (?hi div 8)] (replicate ?n 0) = Returned out \<and>
    length out = length (replicate ?n (0::byte)) \<and> (\<forall>k < 8 * length (replicate ?n (0::byte)). bit_at out k \<longleftrightarrow>
      bit_at (replicate ?n 0) k \<or> (\<exists>i. i div 8 \<in> set [?lo div 8..<Suc (?hi div 8)] \<and> bit_at cs i \<and> i \<le> ?hi \<and> k = i - ?lo))"
  proof (rule compact_cells_copies)
    show "\<forall>i. i div 8 \<in> set [?lo div 8..<Suc (?hi div 8)] \<and> bit_at cs i \<and> i \<le> ?hi \<longrightarrow> ?lo \<le> i"
      using hi(1) set_xs lo by auto
    show "\<forall>c \<in> set [?lo div 8..<Suc (?hi div 8)]. c < length cs"
      using hi(1) assms(1) by auto
    show "?hi < 2 ^ 32" using hi(1) assms(2) by linarith
  qed (use fits in simp)
  then obtain out where out: "compact_cells ?lo ?hi cs [?lo div 8..<Suc (?hi div 8)] (replicate ?n 0) = Returned out"
    "length out = ?n"
    "\<forall>k < 8 * ?n. bit_at out k \<longleftrightarrow>
       (\<exists>i. i div 8 \<in> set [?lo div 8..<Suc (?hi div 8)] \<and> bit_at cs i \<and> i \<le> ?hi \<and> k = i - ?lo)"
    using zero by auto
  let ?r = "map (\<lambda>k. ?lo + k) (pending_in out (8 * length out))"
  have in_r: "i \<in> set ?r \<longleftrightarrow> i \<in> set xs" for i
  proof
    assume "i \<in> set ?r"
    then obtain k where k: "i = ?lo + k" "k < 8 * ?n" "bit_at out k" by (auto simp: pending_in_set out(2))
    then obtain j where j: "bit_at cs j" "j \<le> ?hi" "k = j - ?lo" using out(3) by blast
    then have "j \<in> set xs" using hi(1) by (simp add: set_xs)
    then show "i \<in> set xs" using lo [of j] j k by simp
  next
    assume i: "i \<in> set xs"
    then have b: "bit_at cs i" "i \<le> ?hi" "?lo \<le> i" using set_xs lo by auto
    then have k: "i - ?lo < 8 * ?n" using fits by linarith
    then have "bit_at out (i - ?lo)"
      using out(3) b by (auto intro!: exI [of _ i] div_le_mono simp: less_Suc_eq_le)
    then show "i \<in> set ?r" using k b(3) by (auto simp: pending_in_set out(2) intro!: image_eqI [of _ _ "i - ?lo"])
  qed
  then have "set ?r = set xs" by blast
  moreover have "sorted ?r" "distinct ?r" by (simp_all add: sorted_wrt_map distinct_map)
  ultimately have "?r = xs" using sx by (simp only: sorted_distinct_set_unique)
  then show ?thesis using out(1) by blast
qed

lemma request_result:
  assumes "bitmap_ok bm" "0 < wanted"
  shows "(\<exists>rq'. request_get_next True fid wanted bm rq = Returned (ERR_OK, rq') \<and>
      requested_blocks rq' = take wanted (pending bm) \<and> rq_block_count rq' = length (requested_blocks rq')) \<and>
    request_get_next False fid wanted bm rq =
      (if pending bm = [] then request_get_next True fid wanted bm rq else Returned (ERR_NO_MEM, rq))"
proof (intro conjI)
  let ?nb = "bm_block_count bm"
  from assms(1) obtain cs where cs: "bm_cells bm = Some cs" "length cs = (?nb + 7) div 8" "?nb + 7 < 2 ^ 32"
    "bm_unprocessed bm = length (pending bm)"
    unfolding bitmap_ok_def by (cases "bm_cells bm") auto
  have p: "pending bm = pending_in cs ?nb" using cs(1) by (simp add: pending_def)
  let ?xs = "take wanted (pending bm)"
  have start: "\<lparr>sc_first = 2 ^ 32 - 1, sc_last = 0, sc_count = 0, sc_reached = False\<rparr> = scan_of [] False"
    by (simp add: scan_of_def)
  note scan = scan_finds_pending [OF cs(2,3) assms(2)]
  show "\<exists>rq'. request_get_next True fid wanted bm rq = Returned (ERR_OK, rq') \<and>
      requested_blocks rq' = ?xs \<and> rq_block_count rq' = length (requested_blocks rq')"
  proof (cases "pending bm = []")
    case True
    then show ?thesis using cs(1,4) by (simp add: request_get_next_def requested_blocks_def)
  next
    case False
    then have ne: "take wanted (pending_in cs ?nb) \<noteq> []" using assms(2) p by simp
    obtain out where "compact_cells (hd ?xs) (last ?xs) cs [hd ?xs div 8..<Suc (last ?xs div 8)]
        (replicate (cells_for ((sub32 (last ?xs) (hd ?xs) + 1) mod 2 ^ 32)) 0) = Returned out"
      "map (\<lambda>k. hd ?xs + k) (pending_in out (8 * length out)) = ?xs"
      using request_decodes [OF cs(2,3) ne] unfolding p by blast
    then have "request_get_next True fid wanted bm rq = Returned (ERR_OK,
        \<lparr>rq_file_id = fid, rq_block_offset = hd ?xs, rq_block_count = length ?xs, rq_bitmap = Some out,
         rq_bitmap_len = cells_for ((sub32 (last ?xs) (hd ?xs) + 1) mod 2 ^ 32)\<rparr>)"
      unfolding request_get_next_def start cs(1) option.case cells_for_small [OF cs(3)] scan obind_simps Let_def
      using cs(4) False ne by (simp add: p del: upt_Suc take_eq_Nil)
    then show ?thesis
      using \<open>map (\<lambda>k. hd ?xs + k) (pending_in out (8 * length out)) = ?xs\<close>
      by (simp add: requested_blocks_def)
  qed
  show "request_get_next False fid wanted bm rq =
      (if pending bm = [] then request_get_next True fid wanted bm rq else Returned (ERR_NO_MEM, rq))"
    unfolding request_get_next_def start using cs by (simp add: scan Let_def)
qed

text \<open>C28: A request asks for exactly the first awaited blocks: decoded by the rule of the file streams
service, it names the first \<open>wanted\<close> awaited blocks in ascending order, its count is their number, and
neither loop reads or writes outside its array. Without memory the request stays as it was.\<close>

theorem request_asks_first_pending:
  assumes "bitmap_ok bm" "0 < wanted"
  shows "(\<exists>rq'. request_get_next True fid wanted bm rq = Returned (ERR_OK, rq') \<and>
      requested_blocks rq' = take wanted (pending bm) \<and> rq_block_count rq' = length (requested_blocks rq')) \<and>
    request_get_next False fid wanted bm rq =
      (if pending bm = [] then request_get_next True fid wanted bm rq else Returned (ERR_NO_MEM, rq))"
  by (rule request_result [OF assms])

theorem request_asks_first_pending_witness:
  defines "bm \<equiv> \<lparr>bm_cells = Some [0xF4, 0xFF], bm_block_count = 11, bm_unprocessed = 8\<rparr>"
  shows "\<exists>rq'. request_get_next True 7 3 bm zero_request = Returned (ERR_OK, rq') \<and>
    requested_blocks rq' = [2, 4, 5] \<and> rq_block_count rq' = 3"
proof -
  have upt: "[0..<11] = [0, 1, 2, 3, 4, 5, 6, 7, 8, 9, 10::nat]" by (simp add: upt_rec)
  have p: "pending bm = [2, 4, 5, 6, 7, 8, 9, 10]" by (simp add: bm_def pending_def pending_in_def upt)
  then have "bitmap_ok bm" by (simp add: bm_def bitmap_ok_def)
  from request_asks_first_pending [OF this, of 3 7 zero_request] obtain rq' where
    "request_get_next True 7 3 bm zero_request = Returned (ERR_OK, rq')"
    "requested_blocks rq' = [2, 4, 5]" "rq_block_count rq' = length (requested_blocks rq')"
    using p by auto
  then show ?thesis by (intro exI [of _ rq']) simp
qed

section \<open>The bitmap is a set of blocks\<close>

lemma bitmap_ok_init:
  assumes "0 < n" "unat n + 7 < 2 ^ 32"
  shows "\<exists>bm. mqtt_downloader_bitmap_init True n bm0 = (ERR_OK, bm) \<and> bitmap_ok bm \<and> pending bm = [0..<unat n]"
proof -
  have c: "unat ((n + 7) div 8) = (unat n + 7) div 8"
    using assms(2) by (simp add: unat_div unat_word_ariths)
  have "bit_at (replicate k 0xFF) i" if "i < 8 * k" for i k
  proof -
    have "i mod 8 \<in> {0, 1, 2, 3, 4, 5, 6, 7}" by auto
    then have "bit (0xFF :: byte) (i mod 8)" by (elim insertE emptyE) simp_all
    then show ?thesis using that by (simp add: bit_at_def less_mult_imp_div_less)
  qed
  moreover have "i < unat n \<Longrightarrow> i < 8 * ((unat n + 7) div 8)" for i by linarith
  ultimately have p: "pending_in (replicate ((unat n + 7) div 8) 0xFF) (unat n) = [0..<unat n]"
    unfolding pending_in_bit_at by (simp add: filter_id_conv)
  have "0 < unat n" using assms(1) by (simp add: word_less_nat_alt)
  moreover have "n \<noteq> 0" using assms(1) by simp
  ultimately show ?thesis
    using assms(2) by (simp add: mqtt_downloader_bitmap_init_def c p Let_def pending_def bitmap_ok_def)
qed

lemma is_processed_pending:
  assumes "bitmap_ok bm"
  shows "mqtt_downloader_bitmap_is_processed bm i =
    Returned (0 \<le> i \<and> i < int (bm_block_count bm) \<and> nat i \<notin> set (pending bm))"
proof -
  from assms obtain cs where cs: "bm_cells bm = Some cs" "length cs = (bm_block_count bm + 7) div 8"
    unfolding bitmap_ok_def by (cases "bm_cells bm") auto
  have "nat i div 8 < length cs" if "0 \<le> i" "i < int (bm_block_count bm)" using that cs(2) by linarith
  then show ?thesis
    using cs(1) by (auto simp: mqtt_downloader_bitmap_is_processed_def Let_def pending_def pending_in_set bit_at_def)
qed

lemma set_processed_pending:
  assumes "bitmap_ok bm"
  shows "\<exists>r bm'. mqtt_downloader_bitmap_set_processed bm i = Returned (r, bm') \<and> bitmap_ok bm' \<and>
    bm_block_count bm' = bm_block_count bm \<and>
    (r = ERR_OK \<longleftrightarrow> 0 \<le> i \<and> nat i \<in> set (pending bm)) \<and> pending bm' = filter (\<lambda>j. int j \<noteq> i) (pending bm)"
proof -
  from assms obtain cs where cs: "bm_cells bm = Some cs" "length cs = (bm_block_count bm + 7) div 8"
    "bm_unprocessed bm = length (pending bm)" "bm_block_count bm + 7 < 2 ^ 32" "0 < bm_block_count bm"
    unfolding bitmap_ok_def by (cases "bm_cells bm") auto
  have p: "pending bm = pending_in cs (bm_block_count bm)" using cs(1) by (simp add: pending_def)
  show ?thesis
  proof (cases "0 \<le> i \<and> nat i \<in> set (pending bm)")
    case False
    then have "filter (\<lambda>j. int j \<noteq> i) (pending bm) = pending bm" by (auto simp: filter_id_conv)
    moreover have "nat i div 8 < length cs" if "0 \<le> i" "i < int (bm_block_count bm)" using that cs(2) by linarith
    ultimately show ?thesis
      using False assms cs(1)
      by (auto simp: mqtt_downloader_bitmap_set_processed_def Let_def p pending_in_set bit_at_def)
  next
    case True
    let ?j = "nat i" and ?cs = "cs[nat i div 8 := unset_bit (nat i mod 8) (cs ! (nat i div 8))]"
    have j: "?j < bm_block_count bm" "bit_at cs ?j" "i = int ?j" using True by (simp_all add: p pending_in_set)
    have "?j div 8 < length cs" "?j < 8 * length cs" using j(1) cs(2) by linarith+
    note upd = bit_at_update(2) [OF this(2)]
    have p': "pending_in ?cs (bm_block_count bm) = filter (\<lambda>k. int k \<noteq> i) (pending bm)"
    proof -
      have "k < 8 * length cs" if "k < bm_block_count bm" for k using that cs(2) by linarith
      then show ?thesis
        unfolding p pending_in_bit_at filter_filter using upd j(3) by (intro filter_cong) auto
    qed
    have "filter (\<lambda>k. int k \<noteq> i) (pending bm) = removeAll ?j (pending bm)"
      unfolding removeAll_filter_not_eq using j(3) by (intro filter_cong) auto
    then have len: "length (filter (\<lambda>k. int k \<noteq> i) (pending bm)) = length (pending bm) - 1"
      using True unfolding p by (simp only: distinct_remove1_removeAll [symmetric] length_remove1 if_True pending_in_sorted)
    have "length (pending bm) \<le> bm_block_count bm"
      unfolding p pending_in_bit_at by (rule order_trans [OF length_filter_le]) simp
    then have "length (pending bm) < 2 ^ 32" "1 \<le> length (pending bm)"
      using cs(4) True by (linarith, cases "pending bm") simp_all
    then have sub: "sub32 (length (pending bm)) 1 = length (pending bm) - 1" by (intro sub32_le)
    let ?bm = "bm\<lparr>bm_cells := Some ?cs, bm_unprocessed := length (pending bm) - 1\<rparr>"
    have "mqtt_downloader_bitmap_set_processed bm i = Returned (ERR_OK, ?bm)"
      using j(1,2) True \<open>?j div 8 < length cs\<close>
      unfolding mqtt_downloader_bitmap_set_processed_def cs(1,3) option.case Let_def sub bit_at_def by simp
    moreover have "pending ?bm = pending_in ?cs (bm_block_count bm)" by (simp add: pending_def)
    then have "pending ?bm = filter (\<lambda>k. int k \<noteq> i) (pending bm)" unfolding p' .
    moreover from this have "bitmap_ok ?bm" using cs len unfolding bitmap_ok_def by simp
    ultimately show ?thesis using True by simp
  qed
qed

text \<open>The code marks blocks in the order in which they arrive.\<close>

fun mark_all :: "int list \<Rightarrow> bitmap \<Rightarrow> (err list \<times> bitmap) outcome" where
  "mark_all [] bm = Returned ([], bm)"
| "mark_all (i # ids) bm =
    obind (mqtt_downloader_bitmap_set_processed bm i) (\<lambda>(r, bm').
      obind (mark_all ids bm') (\<lambda>(rs, bm''). Returned (r # rs, bm'')))"

lemma mark_all_pending:
  assumes "bitmap_ok bm"
  shows "\<exists>rs bm'. mark_all ids bm = Returned (rs, bm') \<and> bitmap_ok bm' \<and>
    bm_block_count bm' = bm_block_count bm \<and> pending bm' = filter (\<lambda>j. int j \<notin> set ids) (pending bm) \<and>
    map (\<lambda>r. r = ERR_OK) rs =
      map (\<lambda>k. 0 \<le> ids ! k \<and> nat (ids ! k) \<in> set (pending bm) \<and> ids ! k \<notin> set (take k ids)) [0..<length ids]"
  using assms
proof (induction ids arbitrary: bm)
  case Nil
  then show ?case by simp
next
  case (Cons i ids)
  obtain r bm1 where 1: "mqtt_downloader_bitmap_set_processed bm i = Returned (r, bm1)" "bitmap_ok bm1"
    "bm_block_count bm1 = bm_block_count bm" "r = ERR_OK \<longleftrightarrow> 0 \<le> i \<and> nat i \<in> set (pending bm)"
    "pending bm1 = filter (\<lambda>j. int j \<noteq> i) (pending bm)"
    using set_processed_pending [OF Cons.prems] by blast
  obtain rs bm2 where 2: "mark_all ids bm1 = Returned (rs, bm2)" "bitmap_ok bm2"
    "bm_block_count bm2 = bm_block_count bm1" "pending bm2 = filter (\<lambda>j. int j \<notin> set ids) (pending bm1)"
    "map (\<lambda>r. r = ERR_OK) rs =
      map (\<lambda>k. 0 \<le> ids ! k \<and> nat (ids ! k) \<in> set (pending bm1) \<and> ids ! k \<notin> set (take k ids)) [0..<length ids]"
    using Cons.IH [OF 1(2)] by blast
  have "[0..<length (i # ids)] = 0 # map Suc [0..<length ids]"
    by (simp add: upt_conv_Cons map_Suc_upt del: upt_Suc)
  then have "map (\<lambda>r. r = ERR_OK) (r # rs) =
    map (\<lambda>k. 0 \<le> (i # ids) ! k \<and> nat ((i # ids) ! k) \<in> set (pending bm) \<and> (i # ids) ! k \<notin> set (take k (i # ids)))
      [0..<length (i # ids)]"
    using 1(4,5) 2(5) by auto
  then show ?case using 1 2 by (auto simp: conj_commute)
qed

text \<open>C29: The bitmap is the set of awaited blocks: from initialisation on, with the blocks of an image
marked in any order and however often, out of range ones included, no access leaves the array, the awaited blocks are the
ones never marked, their counter is their number, a mark succeeds exactly the first time for a block of the
image, and the test for a processed block answers accordingly.\<close>

theorem bitmap_is_block_set:
  assumes "0 < n" "unat n + 7 < 2 ^ 32" and "mqtt_downloader_bitmap_init True n bm0 = (ERR_OK, bm)"
  shows "\<exists>rs bm'. mark_all ids bm = Returned (rs, bm') \<and>
    pending bm' = filter (\<lambda>j. int j \<notin> set ids) [0..<unat n] \<and> bm_unprocessed bm' = length (pending bm') \<and>
    map (\<lambda>r. r = ERR_OK) rs =
      map (\<lambda>k. 0 \<le> ids ! k \<and> ids ! k < int (unat n) \<and> ids ! k \<notin> set (take k ids)) [0..<length ids] \<and>
    (\<forall>i. mqtt_downloader_bitmap_is_processed bm' i = Returned (0 \<le> i \<and> i < int (unat n) \<and> i \<in> set ids))"
proof -
  have bm: "bitmap_ok bm" "pending bm = [0..<unat n]" "bm_block_count bm = unat n"
    using bitmap_ok_init [OF assms(1,2), of bm0] assms(1,3)
    by (auto simp: mqtt_downloader_bitmap_init_def Let_def split: if_splits)
  obtain rs bm' where m: "mark_all ids bm = Returned (rs, bm')" "bitmap_ok bm'" "bm_block_count bm' = unat n"
    "pending bm' = filter (\<lambda>j. int j \<notin> set ids) [0..<unat n]"
    "map (\<lambda>r. r = ERR_OK) rs =
      map (\<lambda>k. 0 \<le> ids ! k \<and> nat (ids ! k) \<in> set [0..<unat n] \<and> ids ! k \<notin> set (take k ids)) [0..<length ids]"
    using mark_all_pending [OF bm(1)] unfolding bm(2,3) by blast
  have r: "0 \<le> i \<and> nat i \<in> set [0..<unat n] \<and> Q \<longleftrightarrow> 0 \<le> i \<and> i < int (unat n) \<and> Q" for i Q
    by (cases "0 \<le> i") (simp_all add: nat_less_iff)
  have "bm_unprocessed bm' = length (pending bm')"
    using m(2) unfolding bitmap_ok_def by (cases "bm_cells bm'") auto
  moreover have "\<forall>i. mqtt_downloader_bitmap_is_processed bm' i = Returned (0 \<le> i \<and> i < int (unat n) \<and> i \<in> set ids)"
    unfolding is_processed_pending [OF m(2)] m(3,4) by (auto simp: nat_less_iff)
  ultimately show ?thesis using m(1,4,5) unfolding r by blast
qed

theorem bitmap_is_block_set_witness:
  defines "bm \<equiv> \<lparr>bm_cells = Some [0xFF, 0xFF], bm_block_count = 11, bm_unprocessed = 11\<rparr>"
  shows "\<exists>rs bm'. mark_all [9, 3, 11, 9, -1] bm = Returned (rs, bm') \<and>
    pending bm' = [0, 1, 2, 4, 5, 6, 7, 8, 10] \<and> bm_unprocessed bm' = 9 \<and>
    map (\<lambda>r. r = ERR_OK) rs = [True, True, False, False, False]"
proof -
  have i: "mqtt_downloader_bitmap_init True 11 (mqtt_downloader_bitmap_deinit bm) = (ERR_OK, bm)"
    unfolding bm_def by code_simp
  have n: "0 < (11 :: u32)" "unat (11 :: u32) + 7 < 2 ^ 32" "unat (11 :: u32) = 11" by simp_all
  have len: "length [9, 3, 11, 9, -1 :: int] = 5" "int 11 = 11" by simp_all
  have u: "[0..<11] = [0, 1, 2, 3, 4, 5, 6, 7, 8, 9, 10::nat]" "[0..<5] = [0, 1, 2, 3, 4::nat]"
    by (simp_all add: upt_rec)
  have f: "filter (\<lambda>j. int j \<notin> set [9, 3, 11, 9, -1]) [0..<11] = [0, 1, 2, 4, 5, 6, 7, 8, 10]" by (simp add: u)
  obtain rs bm' where r: "mark_all [9, 3, 11, 9, -1] bm = Returned (rs, bm')"
    "pending bm' = filter (\<lambda>j. int j \<notin> set [9, 3, 11, 9, -1]) [0..<11]" "bm_unprocessed bm' = length (pending bm')"
    "map (\<lambda>r. r = ERR_OK) rs = map (\<lambda>k. 0 \<le> [9, 3, 11, 9, -1::int] ! k \<and> [9, 3, 11, 9, -1::int] ! k < 11 \<and>
       [9, 3, 11, 9, -1::int] ! k \<notin> set (take k [9, 3, 11, 9, -1])) [0..<5]"
    using bitmap_is_block_set [OF n(1,2) i, of "[9, 3, 11, 9, -1]", unfolded n(3) len] by blast
  have "map (\<lambda>r. r = ERR_OK) rs = [True, True, False, False, False]" unfolding r(4) u(2) by simp
  then show ?thesis using r(1) r(2)[unfolded f] r(3) by (intro exI [of _ rs] exI [of _ bm']) simp
qed

text \<open>The number of cells is computed in 32 bits: a count within seven of the greatest number wraps to an
empty array, and the bitmap then reads outside it.\<close>

lemma bitmap_init_wraps:
  "\<exists>bm. mqtt_downloader_bitmap_init True 0xFFFFFFFF bm0 = (ERR_OK, bm) \<and>
    mqtt_downloader_bitmap_is_processed bm 0 = Crashed"
  by (simp add: mqtt_downloader_bitmap_init_def Let_def mqtt_downloader_bitmap_is_processed_def read_at_def)

end
