(* ===== verification/Kv_Store.thy ===== *)
theory Kv_Store
  imports Prelude
begin

text \<open>The key-value storage as its clients see it (\<^verbatim>\<open>osal_storage.h\<close>): the types of the interface, the
specification of the operations on maps, and the contract as a locale. An operation that succeeds has its
effect, one that fails has it or not, and nothing else can happen.\<close>

definition KEY_MAX_LENGTH :: nat where
  "KEY_MAX_LENGTH = 16"

datatype storage_type = TYPE_BINARY | TYPE_U16 | TYPE_I32 | TYPE_U8

definition type_byte :: "storage_type \<Rightarrow> byte" where
  "type_byte t = (case t of TYPE_BINARY \<Rightarrow> 0 | TYPE_U16 \<Rightarrow> 1 | TYPE_I32 \<Rightarrow> 2 | TYPE_U8 \<Rightarrow> 3)"

datatype open_mode = OPEN_READONLY | OPEN_READWRITE

text \<open>The contents of a namespace. A key fits a record when it is not empty and shorter than the limit.\<close>

type_synonym store = "byte list \<Rightarrow> (byte \<times> byte list) option"

definition key_ok :: "byte list \<Rightarrow> bool" where
  "key_ok key \<longleftrightarrow> 0 < length key \<and> length key < KEY_MAX_LENGTH"

text \<open>The operations on an open handle with their arguments: the read with whether a buffer is passed
and its length, the write with its bytes and type.\<close>

datatype kv_op =
    Kv_get "byte list" bool nat | Kv_set "byte list" "byte list" storage_type | Kv_erase "byte list" | Kv_erase_all
  | Kv_commit

fun kv_valid :: "kv_op \<Rightarrow> bool" where
  "kv_valid (Kv_get key _ _) = key_ok key"
| "kv_valid (Kv_set key val _) = (key_ok key \<and> length val < 2 ^ 32)"
| "kv_valid (Kv_erase key) = key_ok key"
| "kv_valid _ = True"

text \<open>Answers and effects.\<close>

fun kv_spec :: "kv_op \<Rightarrow> err \<times> nat \<times> byte list \<Rightarrow> store \<Rightarrow> store \<Rightarrow> bool" where
  "kv_spec (Kv_get key buffer cap) (rc, n, bs) m m' \<longleftrightarrow> m' = m \<and>
    (case m key of
       None \<Rightarrow> rc = ERR_NVS_KEY_NOT_FOUND \<or> rc = ERR_FAIL \<or> rc = ERR_NO_MEM
     | Some (ty, v) \<Rightarrow>
         rc = ERR_OK \<and> n = length v \<and> (if buffer then bs = v \<and> length v \<le> cap else bs = []) \<or>
         rc = ERR_NO_MEM \<or> rc = ERR_FAIL)"
| "kv_spec (Kv_set key val ty) (rc, _, _) m m' \<longleftrightarrow>
    (rc = ERR_OK \<and> m' = m(key \<mapsto> (type_byte ty, val)) \<or>
     (rc = ERR_FAIL \<or> rc = ERR_NO_MEM) \<and> (m' = m \<or> m' = m(key \<mapsto> (type_byte ty, val))))"
| "kv_spec (Kv_erase key) (rc, _, _) m m' \<longleftrightarrow>
    (rc = ERR_OK \<and> m key \<noteq> None \<and> m' = m(key := None) \<or> rc = ERR_NVS_KEY_NOT_FOUND \<and> m key = None \<and> m' = m \<or>
     (rc = ERR_FAIL \<or> rc = ERR_NO_MEM) \<and> (m' = m \<or> m' = m(key := None)))"
| "kv_spec Kv_erase_all (rc, _, _) m m' \<longleftrightarrow>
    (rc = ERR_OK \<and> m' = Map.empty \<or> rc = ERR_FAIL \<and> (m' = m \<or> m' = Map.empty))"
| "kv_spec Kv_commit (rc, _, _) m m' \<longleftrightarrow> m' = m \<and> (rc = ERR_OK \<or> rc = ERR_FAIL)"

section \<open>The interface\<close>

record ('h, 's) storage_ops =
  so_open :: "string option \<Rightarrow> string \<Rightarrow> open_mode \<Rightarrow> 's \<Rightarrow> (err \<times> 'h option) \<times> 's"
  so_close :: "'h \<Rightarrow> 's \<Rightarrow> 's"
  so_run :: "'h \<Rightarrow> kv_op \<Rightarrow> 's \<Rightarrow> (err \<times> nat \<times> byte list) \<times> 's"

text \<open>\<open>disk s p ns m\<close>: the namespace holds \<open>m\<close>; \<open>opened s h p ns\<close>: the handle is for it, and can be used even
if its operations fail.\<close>

locale kv_storage =
  fixes ops :: "('h, 's) storage_ops"
    and disk :: "'s \<Rightarrow> string option \<Rightarrow> string \<Rightarrow> store \<Rightarrow> bool"
    and opened :: "'s \<Rightarrow> 'h \<Rightarrow> string option \<Rightarrow> string \<Rightarrow> bool"
  assumes open_law: "disk s p ns m \<Longrightarrow> ns \<noteq> '''' \<Longrightarrow> so_open ops p ns mode s = ((rc, ho), s') \<Longrightarrow>
      disk s' p ns m \<and> (rc = ERR_OK \<longrightarrow> (\<exists>h. ho = Some h \<and> opened s' h p ns))"
    and run_law: "disk s p ns m \<Longrightarrow> opened s h p ns \<Longrightarrow> kv_valid oper \<Longrightarrow> so_run ops h oper s = ((rc, n, bs), s') \<Longrightarrow>
      (\<exists>m'. disk s' p ns m' \<and> kv_spec oper (rc, n, bs) m m') \<and> opened s' h p ns"
    and close_law: "disk s p ns m \<Longrightarrow> disk (so_close ops h s) p ns m"
begin

text \<open>The laws operation by operation.\<close>

lemma get_keeps:
  assumes "disk s p ns m" "opened s h p ns" "key_ok key"
    and "so_run ops h (Kv_get key buffer cap) s = ((rc, n, bs), s')"
  shows "disk s' p ns m" "kv_spec (Kv_get key buffer cap) (rc, n, bs) m m" "opened s' h p ns"
  using run_law [OF assms(1,2) _ assms(4)] assms(3) by auto

lemma set_writes:
  assumes "disk s p ns m" "opened s h p ns" "key_ok key" "length val < 2 ^ 32"
    and "so_run ops h (Kv_set key val ty) s = ((rc, n, bs), s')"
  shows "opened s' h p ns \<and> (rc = ERR_OK \<and> disk s' p ns (m(key \<mapsto> (type_byte ty, val))) \<or>
    rc \<noteq> ERR_OK \<and> (disk s' p ns m \<or> disk s' p ns (m(key \<mapsto> (type_byte ty, val)))))"
  using run_law [OF assms(1,2) _ assms(5)] assms(3,4) by auto

lemma commit_keeps:
  assumes "disk s p ns m" "opened s h p ns" "so_run ops h Kv_commit s = ((rc, n, bs), s')"
  shows "disk s' p ns m" "opened s' h p ns"
  using run_law [OF assms(1,2) _ assms(3)] by auto

lemma erase_removes:
  assumes "disk s p ns m" "opened s h p ns" "key_ok key"
    and "so_run ops h (Kv_erase key) s = ((rc, n, bs), s')"
  shows "opened s' h p ns \<and> (rc = ERR_OK \<and> disk s' p ns (m(key := None)) \<or>
    rc \<noteq> ERR_OK \<and> (disk s' p ns m \<or> disk s' p ns (m(key := None))))"
  using run_law [OF assms(1,2) _ assms(4)] assms(3) by auto

end

text \<open>A storage without failing calls, on a partition that is initialised: it opens namespaces for writing, and
an operation on a sound handle only reports an absent key or too small a buffer.\<close>

locale reliable_storage = kv_storage ops disk opened
  for ops :: "('h, 's) storage_ops"
    and disk :: "'s \<Rightarrow> string option \<Rightarrow> string \<Rightarrow> store \<Rightarrow> bool"
    and opened :: "'s \<Rightarrow> 'h \<Rightarrow> string option \<Rightarrow> string \<Rightarrow> bool" +
  fixes ready :: "'s \<Rightarrow> string option \<Rightarrow> bool"
    and sound :: "'s \<Rightarrow> 'h \<Rightarrow> string option \<Rightarrow> string \<Rightarrow> bool"
  assumes open_good: "disk s p ns m \<Longrightarrow> ready s p \<Longrightarrow> ns \<noteq> '''' \<Longrightarrow>
      so_open ops p ns OPEN_READWRITE s = ((rc, ho), s') \<Longrightarrow> rc = ERR_OK \<and> ready s' p \<and> (\<exists>h. ho = Some h \<and> sound s' h p ns)"
    and run_good: "disk s p ns m \<Longrightarrow> sound s h p ns \<Longrightarrow> ready s p \<Longrightarrow> kv_valid oper \<Longrightarrow>
      so_run ops h oper s = ((rc, n, bs), s') \<Longrightarrow>
      ready s' p \<and> sound s' h p ns \<and> (rc = ERR_OK \<or> rc = ERR_NVS_KEY_NOT_FOUND \<or>
        rc = ERR_NO_MEM \<and> (\<exists>key cap t v. oper = Kv_get key True cap \<and> m key = Some (t, v) \<and> cap < length v))"
    and sound_opened: "sound s h p ns \<Longrightarrow> opened s h p ns"
    and close_good: "ready s p \<Longrightarrow> ready (so_close ops h s) p"

end
