(* ===== verification/Posix_Storage.thy ===== *)
theory Posix_Storage
  imports Kv_Store
begin

text \<open>The key-value storage of the POSIX port (\<^verbatim>\<open>osal/storage/src/nvs_posix_impl.c\<close>): one file per
namespace, a sequence of records with the last record of a key in force, rewritten through a temporary file
that is renamed over it. The file system is explicit: a directory from paths to inodes, the contents of
inodes, open files as inodes; a handle is a heap block found by its address. Every system call and allocation
may fail, and the process may die between any two of them: from the call numbered \<open>sys_alive\<close> on
nothing has an effect. A use of a freed handle or a failed \<^verbatim>\<open>assert\<close> sets
\<open>fs_fault\<close>.
A failed write leaves nothing behind (the code unlinks the temporary file it wrote to). Keys and values are lists of bytes, keys are C
strings, pointers are not \<^verbatim>\<open>NULL\<close>; the mutex, held throughout each operation, is left out.\<close>

section \<open>The file system\<close>

record sys =
  sys_fails :: "nat \<Rightarrow> bool"
  sys_alive :: "nat option"

record handle =
  h_fd :: "nat option"
  h_path :: string

record iterator =
  it_fd :: "nat option"
  it_offset :: nat
  it_valid :: bool
  it_type :: byte

record slot =
  sl_label :: string
  sl_inited :: bool

record fs =
  fs_calls :: nat
  fs_fault :: bool
  fs_base :: bool
  fs_dir :: "(string \<times> nat) list"
  fs_data :: "nat \<Rightarrow> byte list"
  fs_inodes :: nat
  fs_handles :: "nat \<Rightarrow> handle option"
  fs_iters :: "nat \<Rightarrow> iterator option"
  fs_fresh :: nat
  fs_slots :: "slot list"

definition sys_call :: "sys \<Rightarrow> fs \<Rightarrow> bool \<times> fs" where
  "sys_call env s =
    (\<not> sys_fails env (fs_calls s) \<and> (case sys_alive env of None \<Rightarrow> True | Some n \<Rightarrow> fs_calls s < n),
     s\<lparr>fs_calls := Suc (fs_calls s)\<rparr>)"

definition dir_set :: "string \<Rightarrow> nat \<Rightarrow> (string \<times> nat) list \<Rightarrow> (string \<times> nat) list" where
  "dir_set p i d = (p, i) # filter (\<lambda>e. fst e \<noteq> p) d"

definition dir_remove :: "string \<Rightarrow> (string \<times> nat) list \<Rightarrow> (string \<times> nat) list" where
  "dir_remove p d = filter (\<lambda>e. fst e \<noteq> p) d"

text \<open>\<^verbatim>\<open>open\<close>, with the distinction the code makes by \<^verbatim>\<open>errno\<close>.\<close>

datatype opened = Opened nat | No_entry | Not_opened

definition file_open :: "sys \<Rightarrow> string \<Rightarrow> bool \<Rightarrow> bool \<Rightarrow> fs \<Rightarrow> opened \<times> fs" where
  "file_open env path creat trunc s =
    (let (ok, s1) = sys_call env s in
     if \<not> ok then (Not_opened, s1)
     else case map_of (fs_dir s1) path of
         Some i \<Rightarrow> (Opened i, if trunc then s1\<lparr>fs_data := (fs_data s1)(i := [])\<rparr> else s1)
       | None \<Rightarrow>
           if creat
           then (Opened (fs_inodes s1), s1\<lparr>fs_dir := dir_set path (fs_inodes s1) (fs_dir s1),
                   fs_data := (fs_data s1)(fs_inodes s1 := []), fs_inodes := Suc (fs_inodes s1)\<rparr>)
           else (No_entry, s1))"

definition file_unlink :: "sys \<Rightarrow> string \<Rightarrow> fs \<Rightarrow> bool \<times> fs" where
  "file_unlink env path s =
    (let (ok, s1) = sys_call env s in
     if ok then (map_of (fs_dir s1) path \<noteq> None, s1\<lparr>fs_dir := dir_remove path (fs_dir s1)\<rparr>) else (False, s1))"

definition file_rename :: "sys \<Rightarrow> string \<Rightarrow> string \<Rightarrow> fs \<Rightarrow> bool \<times> fs" where
  "file_rename env a b s =
    (let (ok, s1) = sys_call env s in
     case map_of (fs_dir s1) a of
       Some i \<Rightarrow> if ok then (True, s1\<lparr>fs_dir := dir_set b i (dir_remove a (fs_dir s1))\<rparr>) else (False, s1)
     | None \<Rightarrow> (False, s1))"

definition file_append :: "nat \<Rightarrow> byte list \<Rightarrow> fs \<Rightarrow> fs" where
  "file_append i bs s = s\<lparr>fs_data := (fs_data s)(i := fs_data s i @ bs)\<rparr>"

text \<open>A read of at most \<open>n\<close> of the bytes that are left, and one that has to deliver \<open>n\<close>. Both return the bytes
that are left then.\<close>

definition file_read :: "sys \<Rightarrow> nat \<Rightarrow> byte list \<Rightarrow> fs \<Rightarrow> (byte list option \<times> byte list) \<times> fs" where
  "file_read env n bs s =
    (case sys_call env s of (ok, s1) \<Rightarrow> (if ok then (Some (take n bs), drop n bs) else (None, bs), s1))"

definition read_exact :: "sys \<Rightarrow> nat \<Rightarrow> byte list \<Rightarrow> fs \<Rightarrow> (byte list option \<times> byte list) \<times> fs" where
  "read_exact env n bs s =
    (case file_read env n bs s of
       ((Some xs, rest), s1) \<Rightarrow> ((if length xs = n then Some xs else None, rest), s1)
     | ((None, rest), s1) \<Rightarrow> ((None, rest), s1))"

section \<open>Records\<close>

record nvs_record =
  nr_key :: "byte list"
  nr_value :: "byte list"
  nr_type :: byte

datatype read_result = Got nvs_record "byte list" | Failed err "byte list"

definition read_next_record :: "sys \<Rightarrow> byte list \<Rightarrow> fs \<Rightarrow> read_result \<times> fs" where
  "read_next_record env bs s =
    (case file_read env 2 bs s of
       ((None, bs1), s1) \<Rightarrow> (Failed ERR_FAIL bs1, s1)
     | ((Some kb, bs1), s1) \<Rightarrow>
         if kb = [] then (Failed ERR_NVS_KEY_NOT_FOUND bs1, s1)
         else if length kb \<noteq> 2 then (Failed ERR_FAIL bs1, s1)
         else case read_exact env 4 bs1 s1 of
             ((None, bs2), s2) \<Rightarrow> (Failed ERR_FAIL bs2, s2)
           | ((Some vb, bs2), s2) \<Rightarrow>
         (case read_exact env 1 bs2 s2 of
             ((None, bs3), s3) \<Rightarrow> (Failed ERR_FAIL bs3, s3)
           | ((Some tb, bs3), s3) \<Rightarrow>
         let klen = unat (of_le_bytes kb :: u16) in
         if klen = 0 \<or> KEY_MAX_LENGTH \<le> klen then (Failed ERR_FAIL bs3, s3)
         else case sys_call env s3 of (mem, s4) \<Rightarrow>
         if \<not> mem then (Failed ERR_NO_MEM bs3, s4)
         else case read_exact env klen bs3 s4 of
             ((None, bs4), s5) \<Rightarrow> (Failed ERR_FAIL bs4, s5)
           | ((Some k, bs4), s5) \<Rightarrow>
         let vlen = unat (of_le_bytes vb :: u32) in
         if vlen = 0 then (Got \<lparr>nr_key = k, nr_value = [], nr_type = hd tb\<rparr> bs4, s5)
         else case sys_call env s5 of (mem, s6) \<Rightarrow>
         if \<not> mem then (Failed ERR_NO_MEM bs4, s6)
         else case read_exact env vlen bs4 s6 of
             ((None, bs5), s7) \<Rightarrow> (Failed ERR_FAIL bs5, s7)
           | ((Some v, bs5), s7) \<Rightarrow> (Got \<lparr>nr_key = k, nr_value = v, nr_type = hd tb\<rparr> bs5, s7)))"

text \<open>The consecutive writes of a record; the lengths are those of the code's casts.\<close>

fun write_all :: "sys \<Rightarrow> nat \<Rightarrow> byte list list \<Rightarrow> fs \<Rightarrow> bool \<times> fs" where
  "write_all env i [] s = (True, s)"
| "write_all env i (b # bs) s =
    (case sys_call env s of (ok, s1) \<Rightarrow>
     if ok then write_all env i bs (file_append i b s1) else (False, s1))"

definition record_chunks :: "nvs_record \<Rightarrow> byte list list" where
  "record_chunks r =
    (let klen = word_of_nat (length (nr_key r)) :: u16; vlen = word_of_nat (length (nr_value r)) :: u32 in
     [le_bytes 2 klen, le_bytes 4 vlen, [nr_type r], take (unat klen) (nr_key r)] @
     (if 0 < vlen then [take (unat vlen) (nr_value r)] else []))"

definition write_record :: "sys \<Rightarrow> nat \<Rightarrow> nvs_record \<Rightarrow> fs \<Rightarrow> err \<times> fs" where
  "write_record env i r s =
    (case write_all env i (record_chunks r) s of (ok, s1) \<Rightarrow> (if ok then ERR_OK else ERR_FAIL, s1))"

text \<open>The comparison of a record's key with the key of a call.\<close>

definition key_matches :: "byte list \<Rightarrow> nvs_record \<Rightarrow> bool" where
  "key_matches key r \<longleftrightarrow>
    length (nr_key r) = unat (word_of_nat (length key) :: u16) \<and> nr_key r = take (length (nr_key r)) key"

lemma file_read_Some: "file_read env n bs s = ((Some xs, rest), s') \<Longrightarrow> xs = take n bs \<and> rest = drop n bs"
  by (auto simp: file_read_def split: prod.splits if_splits)

lemma read_exact_Some: "read_exact env n bs s = ((Some xs, rest), s') \<Longrightarrow> bs = xs @ rest \<and> length xs = n"
proof -
  assume "read_exact env n bs s = ((Some xs, rest), s')"
  then have "file_read env n bs s = ((Some xs, rest), s')" "length xs = n"
    by (auto simp: read_exact_def split: prod.splits option.splits if_splits)
  then show ?thesis using file_read_Some by (metis append_take_drop_id)
qed

text \<open>What a record that was read says about the bytes.\<close>

lemma read_next_record_Got:
  assumes "read_next_record env bs s = (Got r rest, s')"
  obtains kb vb where "bs = kb @ vb @ [nr_type r] @ nr_key r @ nr_value r @ rest"
    "length kb = 2" "length vb = 4" "length (nr_key r) = unat (of_le_bytes kb :: u16)"
    "length (nr_value r) = unat (of_le_bytes vb :: u32)" "0 < length (nr_key r)" "length (nr_key r) < KEY_MAX_LENGTH"
proof -
  obtain kb bs1 s1 where 1: "file_read env 2 bs s = ((Some kb, bs1), s1)" "kb \<noteq> []" "length kb = 2"
    using assms unfolding read_next_record_def by (auto split: prod.splits option.splits if_splits)
  then have kb: "bs = kb @ bs1" by (auto dest: file_read_Some)
  obtain vb bs2 s2 where 2: "read_exact env 4 bs1 s1 = ((Some vb, bs2), s2)"
    using assms 1 unfolding read_next_record_def by (auto split: prod.splits option.splits if_splits)
  obtain tb bs3 s3 where 3: "read_exact env 1 bs2 s2 = ((Some tb, bs3), s3)"
    using assms 1 2 unfolding read_next_record_def by (auto split: prod.splits option.splits if_splits)
  let ?k = "unat (of_le_bytes kb :: u16)" and ?v = "unat (of_le_bytes vb :: u32)"
  have k: "0 < ?k" "?k < KEY_MAX_LENGTH"
    using assms 1 2 3 unfolding read_next_record_def by (auto simp: Let_def split: if_splits)
  obtain s4 where 4: "sys_call env s3 = (True, s4)"
    using assms 1 2 3 k unfolding read_next_record_def by (auto simp: Let_def split: prod.splits if_splits)
  obtain key bs4 s5 where 5: "read_exact env ?k bs3 s4 = ((Some key, bs4), s5)"
    using assms 1 2 3 k 4 unfolding read_next_record_def by (auto simp: Let_def split: prod.splits option.splits)
  note bytes = kb read_exact_Some [OF 2] read_exact_Some [OF 3] read_exact_Some [OF 5]
  have tb: "tb = [hd tb]" using read_exact_Some [OF 3] by (cases tb) auto
  have "nr_key r = key \<and> nr_type r = hd tb \<and> bs4 = nr_value r @ rest \<and> length (nr_value r) = ?v"
  proof (cases "?v = 0")
    case True
    then show ?thesis using assms 1 2 3 k 4 5 unfolding read_next_record_def by (auto simp: Let_def)
  next
    case False
    obtain s6 where 6: "sys_call env s5 = (True, s6)"
      using assms 1 2 3 k 4 5 False unfolding read_next_record_def
      by (auto simp: Let_def split: prod.splits if_splits)
    obtain val bs5 s7 where 7: "read_exact env ?v bs4 s6 = ((Some val, bs5), s7)"
      using assms 1 2 3 k 4 5 6 False unfolding read_next_record_def
      by (auto simp: Let_def split: prod.splits option.splits)
    show ?thesis
      using assms 1 2 3 k 4 5 6 7 False read_exact_Some [OF 7] unfolding read_next_record_def by (auto simp: Let_def)
  qed
  then show ?thesis using that [of kb vb] bytes tb 1(3) k by auto
qed

lemma read_next_record_shrinks:
  "read_next_record env bs s = (Got r rest, s') \<Longrightarrow> length rest < length bs"
  by (erule read_next_record_Got) simp

text \<open>The loop over the records of a file, with the part of its body that differs.\<close>

function records_loop ::
  "sys \<Rightarrow> (nvs_record \<Rightarrow> 'a \<Rightarrow> fs \<Rightarrow> (err + 'a) \<times> fs) \<Rightarrow> byte list \<Rightarrow> 'a \<Rightarrow> fs \<Rightarrow> (err + 'a) \<times> fs" where
  "records_loop env body bs a s =
    (case read_next_record env bs s of
       (Failed e rest, s1) \<Rightarrow> (if e = ERR_NVS_KEY_NOT_FOUND then Inr a else Inl e, s1)
     | (Got r rest, s1) \<Rightarrow>
         (case body r a s1 of
            (Inl e, s2) \<Rightarrow> (Inl e, s2)
          | (Inr a', s2) \<Rightarrow> records_loop env body rest a' s2))"
  by pat_completeness auto
termination
  by (relation "measure (\<lambda>(env, body, bs, a, s). length bs)") (auto dest: read_next_record_shrinks [OF sym])

declare records_loop.simps [simp del]

section \<open>Partitions\<close>

definition k_base_dir :: string where
  "k_base_dir = ''nvs_persistent''"

definition k_base_dir_default :: string where
  "k_base_dir_default = ''nvs''"

definition SLOTS :: nat where
  "SLOTS = 16"

definition normalize_partition_name :: "string option \<Rightarrow> string" where
  "normalize_partition_name p = (case p of Some (c # cs) \<Rightarrow> c # cs | _ \<Rightarrow> k_base_dir_default)"

text \<open>The loops over the slots: the first slot with the name, else the first empty one.\<close>

fun find_slot :: "string \<Rightarrow> nat \<Rightarrow> slot list \<Rightarrow> nat option \<Rightarrow> nat option" where
  "find_slot norm i [] first_empty = first_empty"
| "find_slot norm i (sl # sls) first_empty =
    (if sl_label sl = '''' then find_slot norm (Suc i) sls (if first_empty = None then Some i else first_empty)
     else if sl_label sl = norm then Some i
     else find_slot norm (Suc i) sls first_empty)"

definition find_or_allocate_slot_locked :: "string \<Rightarrow> fs \<Rightarrow> nat option" where
  "find_or_allocate_slot_locked norm s = find_slot norm 0 (fs_slots s) None"

definition slot_named :: "string \<Rightarrow> slot \<Rightarrow> bool" where
  "slot_named norm sl \<longleftrightarrow> sl_label sl \<noteq> '''' \<and> sl_label sl = norm"

definition partition_inited_locked :: "string \<Rightarrow> fs \<Rightarrow> bool" where
  "partition_inited_locked norm s =
    (case List.find (slot_named norm) (fs_slots s) of Some sl \<Rightarrow> sl_inited sl | None \<Rightarrow> False)"

definition ensure_base_dir :: "sys \<Rightarrow> fs \<Rightarrow> err \<times> fs" where
  "ensure_base_dir env s =
    (case sys_call env s of (ok, s1) \<Rightarrow>
     if ok \<and> fs_base s1 then (ERR_OK, s1)
     else case sys_call env s1 of (ok2, s2) \<Rightarrow>
       if ok2 \<and> \<not> fs_base s2 then (ERR_OK, s2\<lparr>fs_base := True\<rparr>) else (ERR_FAIL, s2))"

definition osal_storage_init :: "sys \<Rightarrow> string option \<Rightarrow> fs \<Rightarrow> err \<times> fs" where
  "osal_storage_init env label s =
    (let norm = normalize_partition_name label in
     case find_or_allocate_slot_locked norm s of
       None \<Rightarrow> (ERR_FAIL, s)
     | Some i \<Rightarrow>
         let assigned = (sl_label (fs_slots s ! i) = '''');
             s1 = (if assigned then s\<lparr>fs_slots := (fs_slots s)[i := (fs_slots s ! i)\<lparr>sl_label := take 127 norm\<rparr>]\<rparr>
                   else s) in
         if sl_inited (fs_slots s1 ! i) then (ERR_OK, s1)
         else case ensure_base_dir env s1 of (rc, s2) \<Rightarrow>
           if rc \<noteq> ERR_OK
           then (rc, if assigned
                     then s2\<lparr>fs_slots := (fs_slots s2)[i := (fs_slots s2 ! i)\<lparr>sl_label := ''''\<rparr>]\<rparr> else s2)
           else (ERR_OK, s2\<lparr>fs_slots := (fs_slots s2)[i := (fs_slots s2 ! i)\<lparr>sl_inited := True\<rparr>]\<rparr>))"

text \<open>The first slot with the name is marked as not initialised.\<close>

fun clear_slot :: "string \<Rightarrow> slot list \<Rightarrow> slot list" where
  "clear_slot norm [] = []"
| "clear_slot norm (sl # sls) =
    (if slot_named norm sl then sl\<lparr>sl_inited := False\<rparr> # sls else sl # clear_slot norm sls)"

definition osal_storage_deinit :: "string option \<Rightarrow> fs \<Rightarrow> err \<times> fs" where
  "osal_storage_deinit label s =
    (let norm = normalize_partition_name label in
     if partition_inited_locked norm s
     then (ERR_OK, s\<lparr>fs_slots := clear_slot norm (fs_slots s)\<rparr>)
     else (ERR_NVS_NOT_INITIALIZED, s))"

text \<open>The file names that a reset removes: the label, a dash, and the suffix at the end.\<close>

definition belongs_to :: "string \<Rightarrow> string \<Rightarrow> bool" where
  "belongs_to label name \<longleftrightarrow>
    (name = '''' \<or> hd name \<noteq> CHR ''.'') \<and> length label + 1 + 4 \<le> length name \<and>
    take (length label) name = label \<and> name ! length label = CHR ''-'' \<and>
    drop (length name - 4) name = ''.bin''"

fun reset_loop :: "sys \<Rightarrow> string \<Rightarrow> string list \<Rightarrow> bool \<Rightarrow> fs \<Rightarrow> bool \<times> fs" where
  "reset_loop env label [] had_error s = (had_error, s)"
| "reset_loop env label (name # names) had_error s =
    (if \<not> belongs_to label name then reset_loop env label names had_error s
     else let full_path = take 599 (k_base_dir @ ''/'' @ name) in
       case sys_call env s of (ok, s1) \<Rightarrow>
       if \<not> (ok \<and> map_of (fs_dir s1) full_path \<noteq> None) then reset_loop env label names had_error s1
       else case file_unlink env full_path s1 of (gone, s2) \<Rightarrow>
         reset_loop env label names (if gone then had_error else True) s2)"

definition dir_names :: "fs \<Rightarrow> string list" where
  "dir_names s = map (\<lambda>e. drop (length k_base_dir + 1) (fst e)) (fs_dir s)"

definition osal_storage_reset :: "sys \<Rightarrow> string option \<Rightarrow> fs \<Rightarrow> err \<times> fs" where
  "osal_storage_reset env part s =
    (let label = normalize_partition_name part in
     case ensure_base_dir env s of (rc, s1) \<Rightarrow>
     if rc \<noteq> ERR_OK then (rc, s1)
     else case sys_call env s1 of (ok, s2) \<Rightarrow>
       if \<not> ok then (ERR_FAIL, s2)
       else case reset_loop env label (dir_names s2) False s2 of (had_error, s3) \<Rightarrow>
         (if had_error then ERR_FAIL else ERR_OK, s3\<lparr>fs_slots := clear_slot label (fs_slots s3)\<rparr>))"

section \<open>Handles\<close>

text \<open>\<^verbatim>\<open>snprintf\<close> into the 512 bytes of the handle's path.\<close>

definition build_path :: "string option \<Rightarrow> string \<Rightarrow> string" where
  "build_path p ns =
    take 511 (k_base_dir @ ''/'' @ (case p of Some p \<Rightarrow> p | None \<Rightarrow> k_base_dir_default) @ ''-'' @ ns @ ''.bin'')"

definition osal_storage_open ::
  "sys \<Rightarrow> string option \<Rightarrow> string \<Rightarrow> open_mode \<Rightarrow> fs \<Rightarrow> (err \<times> nat option) \<times> fs" where
  "osal_storage_open env p ns mode s =
    (let norm = normalize_partition_name p in
     if \<not> partition_inited_locked norm s then ((ERR_NVS_PARTITION_NOT_FOUND, None), s)
     else case sys_call env s of (mem, s1) \<Rightarrow>
     if \<not> mem then ((ERR_NO_MEM, None), s1)
     else if ns = '''' then ((ERR_FAIL, None), s1\<lparr>fs_fault := True\<rparr>)
     else let path = build_path p ns in
     case ensure_base_dir env s1 of (rc, s2) \<Rightarrow>
     if rc \<noteq> ERR_OK then ((rc, None), s2)
     else case file_open env path (mode = OPEN_READWRITE) False s2 of
       (Opened i, s3) \<Rightarrow>
         ((ERR_OK, Some (fs_fresh s3)),
          s3\<lparr>fs_handles := (fs_handles s3)(fs_fresh s3 \<mapsto> \<lparr>h_fd = Some i, h_path = path\<rparr>),
             fs_fresh := Suc (fs_fresh s3)\<rparr>)
     | (No_entry, s3) \<Rightarrow>
         ((if mode = OPEN_READONLY then ERR_NVS_NAMESPACE_NOT_FOUND else ERR_FAIL, None), s3)
     | (Not_opened, s3) \<Rightarrow> ((ERR_FAIL, None), s3))"

text \<open>Every operation on a handle first rejects \<^verbatim>\<open>NULL\<close> and reads the handle block.\<close>

definition use_handle :: "nat option \<Rightarrow> 'a \<Rightarrow> (nat \<Rightarrow> handle \<Rightarrow> (err \<times> 'a) \<times> fs) \<Rightarrow> fs \<Rightarrow> (err \<times> 'a) \<times> fs" where
  "use_handle h x f s =
    (case h of
       None \<Rightarrow> ((ERR_INVALID_ARG, x), s)
     | Some a \<Rightarrow>
         (case fs_handles s a of
            None \<Rightarrow> ((ERR_FAIL, x), s\<lparr>fs_fault := True\<rparr>)
          | Some hb \<Rightarrow> f a hb))"

definition set_fd :: "nat \<Rightarrow> nat option \<Rightarrow> fs \<Rightarrow> fs" where
  "set_fd a fd s = s\<lparr>fs_handles := (fs_handles s)(a := map_option (\<lambda>hb. hb\<lparr>h_fd := fd\<rparr>) (fs_handles s a))\<rparr>"

definition osal_storage_close :: "sys \<Rightarrow> nat option \<Rightarrow> fs \<Rightarrow> (err \<times> unit) \<times> fs" where
  "osal_storage_close env h s =
    use_handle h () (\<lambda>a hb.
      ((ERR_OK, ()), (if h_fd hb = None then s else snd (sys_call env s))\<lparr>fs_handles := (fs_handles s)(a := None)\<rparr>)) s"

definition osal_storage_commit :: "sys \<Rightarrow> nat option \<Rightarrow> fs \<Rightarrow> (err \<times> unit) \<times> fs" where
  "osal_storage_commit env h s =
    use_handle h () (\<lambda>a hb. case sys_call env s of (ok, s1) \<Rightarrow>
      ((if ok \<and> h_fd hb \<noteq> None then ERR_OK else ERR_FAIL, ()), s1)) s"

section \<open>Reading and writing\<close>

definition body_get :: "byte list \<Rightarrow> nvs_record \<Rightarrow> byte list option \<Rightarrow> fs \<Rightarrow> (err + byte list option) \<times> fs" where
  "body_get key r prev s = (Inr (if key_matches key r then Some (nr_value r) else prev), s)"

text \<open>\<open>buffer\<close> tells whether the caller passes a buffer, \<open>cap\<close> is the length it passes in. The result is the
length passed out and what was stored in the buffer.\<close>

definition osal_storage_get ::
  "sys \<Rightarrow> nat option \<Rightarrow> byte list \<Rightarrow> bool \<Rightarrow> nat \<Rightarrow> fs \<Rightarrow> (err \<times> nat \<times> byte list) \<times> fs" where
  "osal_storage_get env h key buffer cap s =
    use_handle h (cap, []) (\<lambda>a hb.
      case sys_call env s of (ok, s1) \<Rightarrow>
      case h_fd hb of
        None \<Rightarrow> ((ERR_FAIL, cap, []), s1)
      | Some i \<Rightarrow>
          if \<not> ok then ((ERR_FAIL, cap, []), s1)
          else case records_loop env (body_get key) (fs_data s1 i) None s1 of
            (Inl rc, s2) \<Rightarrow> ((rc, cap, []), s2)
          | (Inr None, s2) \<Rightarrow> ((ERR_NVS_KEY_NOT_FOUND, cap, []), s2)
          | (Inr (Some v), s2) \<Rightarrow>
              if \<not> buffer then ((ERR_OK, length v, []), s2)
              else if cap < length v then ((ERR_NO_MEM, length v, []), s2)
              else ((ERR_OK, length v, v), s2)) s"

text \<open>The end of \<^verbatim>\<open>osal_storage_set\<close> and of \<^verbatim>\<open>osal_storage_erase\<close>: the temporary file is synchronised and
renamed over the file of the handle, which is opened again.\<close>

definition replace_file :: "sys \<Rightarrow> nat \<Rightarrow> handle \<Rightarrow> string \<Rightarrow> err \<Rightarrow> fs \<Rightarrow> err \<times> fs" where
  "replace_file env a hb tmp_path result s =
    (case sys_call env s of (synced, s1) \<Rightarrow>
     if \<not> synced then (ERR_FAIL, snd (file_unlink env tmp_path s1))
     else case file_rename env tmp_path (h_path hb) s1 of (renamed, s2) \<Rightarrow>
       case file_open env (h_path hb) True False s2 of
         (Opened i, s3) \<Rightarrow> (if renamed then result else ERR_FAIL, set_fd a (Some i) s3)
       | (_, s3) \<Rightarrow> (ERR_FAIL, set_fd a None s3))"

definition body_copy :: "sys \<Rightarrow> nat \<Rightarrow> byte list \<Rightarrow> nvs_record \<Rightarrow> bool \<Rightarrow> fs \<Rightarrow> (err + bool) \<times> fs" where
  "body_copy env i key r found s =
    (if key_matches key r then (Inr True, s)
     else case write_record env i r s of (rc, s1) \<Rightarrow>
       (if rc = ERR_OK then Inr found else Inl ERR_FAIL, s1))"

definition tmp_path :: "handle \<Rightarrow> string" where
  "tmp_path hb = take 599 (h_path hb @ ''.tmp'')"

text \<open>The copy of all records but those of the key; the flag is used by the erasure only.\<close>

definition copy_others :: "sys \<Rightarrow> handle \<Rightarrow> byte list \<Rightarrow> fs \<Rightarrow> (err + nat \<times> bool) \<times> fs" where
  "copy_others env hb key s =
    (case file_open env (tmp_path hb) True True s of
       (Opened t, s1) \<Rightarrow>
         (case sys_call env s1 of (ok, s2) \<Rightarrow>
          case h_fd hb of
            None \<Rightarrow> (Inl ERR_FAIL, snd (file_unlink env (tmp_path hb) s2))
          | Some i \<Rightarrow>
              if \<not> ok then (Inl ERR_FAIL, snd (file_unlink env (tmp_path hb) s2))
              else case records_loop env (body_copy env t key) (fs_data s2 i) False s2 of
                (Inl rc, s3) \<Rightarrow> (Inl rc, snd (file_unlink env (tmp_path hb) s3))
              | (Inr found, s3) \<Rightarrow> (Inr (t, found), s3))
     | (_, s1) \<Rightarrow> (Inl ERR_FAIL, s1))"

definition osal_storage_set ::
  "sys \<Rightarrow> nat option \<Rightarrow> byte list \<Rightarrow> byte list \<Rightarrow> storage_type \<Rightarrow> fs \<Rightarrow> (err \<times> unit) \<times> fs" where
  "osal_storage_set env h key val ty s =
    use_handle h () (\<lambda>a hb.
      case copy_others env hb key s of
        (Inl rc, s1) \<Rightarrow> ((rc, ()), s1)
      | (Inr (t, found), s1) \<Rightarrow>
          (case write_record env t \<lparr>nr_key = key, nr_value = val, nr_type = type_byte ty\<rparr> s1 of (rc, s2) \<Rightarrow>
           if rc \<noteq> ERR_OK then ((ERR_FAIL, ()), snd (file_unlink env (tmp_path hb) s2))
           else case replace_file env a hb (tmp_path hb) ERR_OK s2 of (rc, s3) \<Rightarrow> ((rc, ()), s3))) s"

definition osal_storage_erase :: "sys \<Rightarrow> nat option \<Rightarrow> byte list \<Rightarrow> fs \<Rightarrow> (err \<times> unit) \<times> fs" where
  "osal_storage_erase env h key s =
    use_handle h () (\<lambda>a hb.
      case copy_others env hb key s of
        (Inl rc, s1) \<Rightarrow> ((rc, ()), s1)
      | (Inr (t, found), s1) \<Rightarrow>
          (case replace_file env a hb (tmp_path hb) (if found then ERR_OK else ERR_NVS_KEY_NOT_FOUND) s1 of
             (rc, s2) \<Rightarrow> ((rc, ()), s2))) s"

definition osal_storage_erase_all :: "sys \<Rightarrow> nat option \<Rightarrow> fs \<Rightarrow> (err \<times> unit) \<times> fs" where
  "osal_storage_erase_all env h s =
    use_handle h () (\<lambda>a hb.
      case sys_call env s of (ok, s1) \<Rightarrow>
      case h_fd hb of
        None \<Rightarrow> ((ERR_FAIL, ()), s1)
      | Some i \<Rightarrow>
          if \<not> ok then ((ERR_FAIL, ()), s1)
          else case sys_call env (s1\<lparr>fs_data := (fs_data s1)(i := [])\<rparr>) of (ok2, s2) \<Rightarrow>
            ((if ok2 then ERR_OK else ERR_FAIL, ()), s2)) s"

section \<open>Iterators\<close>

text \<open>An iterator is a heap block with an open file and an offset. One record of the requested type is
found, and the offset is set back to its start.\<close>

function next_loop :: "sys \<Rightarrow> byte list \<Rightarrow> byte \<Rightarrow> nat \<Rightarrow> fs \<Rightarrow> (err \<times> nat) \<times> fs" where
  "next_loop env bs ty off s =
    (case read_next_record env bs s of
       (Failed e rest, s1) \<Rightarrow> ((e, off + (length bs - length rest)), s1)
     | (Got r rest, s1) \<Rightarrow>
         let pos = off + (length bs - length rest) in
         if nr_type r = ty
         then case sys_call env s1 of (ok1, s2) \<Rightarrow>
           if \<not> ok1 then ((ERR_FAIL, pos), s2)
           else case sys_call env s2 of (ok2, s3) \<Rightarrow>
             if \<not> ok2 then ((ERR_FAIL, pos), s3)
             else ((ERR_OK, pos - (2 + 4 + 1 + length (nr_key r) + length (nr_value r))), s3)
         else next_loop env rest ty pos s1)"
  by pat_completeness auto
termination
  by (relation "measure (\<lambda>(env, bs, ty, off, s). length bs)") (auto dest: read_next_record_shrinks [OF sym])

declare next_loop.simps [simp del]

definition entry_next :: "sys \<Rightarrow> iterator \<Rightarrow> fs \<Rightarrow> (err \<times> iterator) \<times> fs" where
  "entry_next env it s =
    (case it_fd it of
       None \<Rightarrow> ((ERR_FAIL, it), s)
     | Some i \<Rightarrow>
         if \<not> it_valid it then ((ERR_FAIL, it), s)
         else case next_loop env (drop (it_offset it) (fs_data s i)) (it_type it) (it_offset it) s of
           ((rc, off), s1) \<Rightarrow> ((rc, it\<lparr>it_offset := off\<rparr>), s1))"

definition osal_storage_entry_next :: "sys \<Rightarrow> nat option \<Rightarrow> fs \<Rightarrow> err \<times> fs" where
  "osal_storage_entry_next env p s =
    (case p of
       None \<Rightarrow> (ERR_INVALID_ARG, s)
     | Some a \<Rightarrow>
         (case fs_iters s a of
            None \<Rightarrow> (ERR_FAIL, s\<lparr>fs_fault := True\<rparr>)
          | Some it \<Rightarrow>
              (case entry_next env it s of ((rc, it'), s1) \<Rightarrow>
                (rc, s1\<lparr>fs_iters := (fs_iters s1)(a \<mapsto> it')\<rparr>))))"

definition osal_storage_entry_find ::
  "sys \<Rightarrow> string option \<Rightarrow> string \<Rightarrow> storage_type \<Rightarrow> fs \<Rightarrow> (err \<times> nat option) \<times> fs" where
  "osal_storage_entry_find env p ns ty s =
    (let norm = normalize_partition_name p in
     if \<not> partition_inited_locked norm s then ((ERR_NVS_PARTITION_NOT_FOUND, None), s)
     else case sys_call env s of (mem, s1) \<Rightarrow>
     if \<not> mem then ((ERR_NO_MEM, None), s1)
     else if ns = '''' then ((ERR_FAIL, None), s1\<lparr>fs_fault := True\<rparr>)
     else case ensure_base_dir env s1 of (rc, s2) \<Rightarrow>
     if rc \<noteq> ERR_OK then ((rc, None), s2)
     else case file_open env (build_path p ns) False False s2 of
       (Opened i, s3) \<Rightarrow>
         (case entry_next env \<lparr>it_fd = Some i, it_offset = 0, it_valid = True, it_type = type_byte ty\<rparr> s3 of
            ((rc, it), s4) \<Rightarrow>
              if rc \<noteq> ERR_OK \<and> rc \<noteq> ERR_NVS_KEY_NOT_FOUND then ((rc, None), s4)
              else ((ERR_OK, Some (fs_fresh s4)),
                    s4\<lparr>fs_iters := (fs_iters s4)(fs_fresh s4 \<mapsto> it), fs_fresh := Suc (fs_fresh s4)\<rparr>))
     | (No_entry, s3) \<Rightarrow> ((ERR_NVS_NAMESPACE_NOT_FOUND, None), s3)
     | (Not_opened, s3) \<Rightarrow> ((ERR_FAIL, None), s3))"

definition osal_storage_entry_get_info :: "sys \<Rightarrow> nat option \<Rightarrow> fs \<Rightarrow> (err \<times> byte list) \<times> fs" where
  "osal_storage_entry_get_info env p s =
    (case p of
       None \<Rightarrow> ((ERR_INVALID_ARG, []), s)
     | Some a \<Rightarrow>
         (case fs_iters s a of
            None \<Rightarrow> ((ERR_FAIL, []), s\<lparr>fs_fault := True\<rparr>)
          | Some it \<Rightarrow>
              (case it_fd it of
                 None \<Rightarrow> ((ERR_FAIL, []), s)
               | Some i \<Rightarrow>
                   if \<not> it_valid it then ((ERR_FAIL, []), s)
                   else let bs = drop (it_offset it) (fs_data s i);
                       advance = (\<lambda>rest s. s\<lparr>fs_iters := (fs_iters s)(a \<mapsto>
                         it\<lparr>it_offset := it_offset it + (length bs - length rest)\<rparr>)\<rparr>) in
                     case read_next_record env bs s of
                       (Failed e rest, s1) \<Rightarrow> ((e, []), advance rest s1)
                     | (Got r rest, s1) \<Rightarrow>
                         let key = take (if KEY_MAX_LENGTH \<le> length (nr_key r) then KEY_MAX_LENGTH - 1
                                         else length (nr_key r)) (nr_key r) in
                         case sys_call env s1 of (ok, s2) \<Rightarrow>
                           if \<not> ok then ((ERR_FAIL, key), advance rest s2)
                           else ((ERR_OK, key), advance rest s2))))"

definition osal_storage_release_iterator :: "nat option \<Rightarrow> fs \<Rightarrow> err \<times> fs" where
  "osal_storage_release_iterator p s =
    (case p of
       None \<Rightarrow> (ERR_INVALID_ARG, s)
     | Some a \<Rightarrow>
         (case fs_iters s a of
            None \<Rightarrow> (ERR_FAIL, s\<lparr>fs_fault := True\<rparr>)
          | Some it \<Rightarrow> (ERR_OK, s\<lparr>fs_iters := (fs_iters s)(a := None)\<rparr>)))"

end
