(* ===== verification/Storage_Map.thy ===== *)
theory Storage_Map
  imports Posix_Storage
begin

text \<open>The POSIX storage implements a map from keys to typed values: under any failures of system calls and
whenever the process dies, a file holds the map before or after each operation, never anything else.\<close>

section \<open>Files of records\<close>

definition rec_ok :: "nvs_record \<Rightarrow> bool" where
  "rec_ok r \<longleftrightarrow> 0 < length (nr_key r) \<and> length (nr_key r) < KEY_MAX_LENGTH \<and> length (nr_value r) < 2 ^ 32"

definition enc :: "nvs_record \<Rightarrow> byte list" where
  "enc r = concat (record_chunks r)"

definition encs :: "nvs_record list \<Rightarrow> byte list" where
  "encs rs = concat (map enc rs)"

lemma encs_simps [simp]: "encs [] = []" "encs (r # rs) = enc r @ encs rs" "encs (rs @ rs') = encs rs @ encs rs'"
  by (simp_all add: encs_def)

lemma unat_key_len: "length k < KEY_MAX_LENGTH \<Longrightarrow> unat (word_of_nat (length k) :: u16) = length k"
  by (simp add: unat_of_nat KEY_MAX_LENGTH_def)

lemma unat_value_len: "length v < 2 ^ 32 \<Longrightarrow> unat (word_of_nat (length v) :: u32) = length v"
  by (simp add: unat_of_nat)

lemma enc_rec_ok:
  assumes "rec_ok r"
  shows "enc r = le_bytes 2 (word_of_nat (length (nr_key r)) :: u16) @ le_bytes 4 (word_of_nat (length (nr_value r)) :: u32)
    @ [nr_type r] @ nr_key r @ nr_value r"
proof -
  have v: "unat (word_of_nat (length (nr_value r)) :: u32) = length (nr_value r)"
    using assms by (intro unat_value_len) (simp add: rec_ok_def)
  then have "0 < (word_of_nat (length (nr_value r)) :: u32) \<longleftrightarrow> nr_value r \<noteq> []"
    by (metis length_greater_0_conv unat_0 unat_gt_0 word_gt_0)
  then show ?thesis
    using assms v by (simp add: enc_def record_chunks_def Let_def rec_ok_def unat_key_len)
qed

section \<open>Calls that only count\<close>

definition same :: "fs \<Rightarrow> fs \<Rightarrow> bool" where
  "same s s' \<longleftrightarrow> (\<exists>n. s' = s\<lparr>fs_calls := n\<rparr>)"

lemma same_refl [simp, intro]: "same s s"
  unfolding same_def by (intro exI [of _ "fs_calls s"]) simp

lemma same_trans: "same s t \<Longrightarrow> same t u \<Longrightarrow> same s u"
  unfolding same_def by auto

lemma sys_call_same: "sys_call env s = (ok, s') \<Longrightarrow> same s s'"
  by (auto simp: sys_call_def same_def)

definition good :: "sys \<Rightarrow> nat \<Rightarrow> bool" where
  "good env n \<longleftrightarrow> \<not> sys_fails env n \<and> (case sys_alive env of None \<Rightarrow> True | Some k \<Rightarrow> n < k)"

definition all_good :: "sys \<Rightarrow> bool" where
  "all_good env \<longleftrightarrow> (\<forall>n. good env n)"

lemma not_good: "\<not> good env n \<Longrightarrow> \<not> all_good env"
  by (auto simp: all_good_def)

lemma sys_call_eq: "sys_call env s = (good env (fs_calls s), s\<lparr>fs_calls := Suc (fs_calls s)\<rparr>)"
  by (simp add: sys_call_def good_def)

lemma same_calls [simp]: "same s (s\<lparr>fs_calls := n\<rparr>)"
  by (auto simp: same_def)

lemma file_read_app: "length xs = n \<Longrightarrow> file_read env n (xs @ ys) s =
    ((if good env (fs_calls s) then (Some xs, ys) else (None, xs @ ys)), s\<lparr>fs_calls := Suc (fs_calls s)\<rparr>)"
  by (simp add: file_read_def sys_call_eq)

lemma read_exact_app: "length xs = n \<Longrightarrow> read_exact env n (xs @ ys) s =
    ((if good env (fs_calls s) then (Some xs, ys) else (None, xs @ ys)), s\<lparr>fs_calls := Suc (fs_calls s)\<rparr>)"
  by (simp add: read_exact_def file_read_app)

text \<open>A record that was written is read again, unless a call fails.\<close>

lemma read_enc:
  assumes "rec_ok r"
  shows "case read_next_record env (enc r @ rest) s of
      (Got r' rest', s') \<Rightarrow> r' = r \<and> rest' = rest \<and> same s s'
    | (Failed e bs, s') \<Rightarrow> (e = ERR_FAIL \<or> e = ERR_NO_MEM) \<and> \<not> all_good env \<and> same s s'"
proof -
  let ?kb = "le_bytes 2 (word_of_nat (length (nr_key r)) :: u16)"
  let ?vb = "le_bytes 4 (word_of_nat (length (nr_value r)) :: u32)"
  have e: "enc r @ rest = ?kb @ ?vb @ [nr_type r] @ nr_key r @ nr_value r @ rest" using enc_rec_ok [OF assms] by simp
  have klen: "unat (word_of_nat (length (nr_key r)) :: u16) = length (nr_key r)" "nr_key r \<noteq> []" "\<not> KEY_MAX_LENGTH \<le> length (nr_key r)"
    using assms by (simp_all add: rec_ok_def unat_key_len)
  have vlen: "unat (word_of_nat (length (nr_value r)) :: u32) = length (nr_value r)"
    using assms by (simp add: rec_ok_def unat_value_len)
  have kb: "length ?kb = 2" "length ?vb = 4" "length [nr_type r] = 1" by simp_all
  then have ne: "?kb \<noteq> []" by (metis list.size(3) zero_neq_numeral)
  show ?thesis
    unfolding e read_next_record_def file_read_app [OF kb(1)] sys_call_eq
    by (simp add: ne kb read_exact_app sys_call_eq klen vlen Let_def not_good del: append.simps)
qed

section \<open>Loops over a file\<close>

lemma read_end:
  "case read_next_record env [] s of
     (Failed e bs, s') \<Rightarrow> (e = ERR_NVS_KEY_NOT_FOUND \<or> e = ERR_FAIL \<and> \<not> all_good env) \<and> same s s' | (Got r rest, s') \<Rightarrow> False"
  by (simp add: read_next_record_def file_read_def sys_call_eq not_good)

text \<open>An assertion \<open>I\<close> about the records passed, the accumulator and the state, and what holds after an error.\<close>

lemma records_loop_rest:
  assumes "\<forall>r \<in> set post. rec_ok r" "I pre a s"
    and step: "\<And>pre r post a s. rs = pre @ r # post \<Longrightarrow> I pre a s \<Longrightarrow>
      (case body r a s of (Inr a', s') \<Rightarrow> I (pre @ [r]) a' s' | (Inl e, s') \<Rightarrow> E e s')"
    and calls: "\<And>pre a s s'. I pre a s \<Longrightarrow> same s s' \<Longrightarrow> I pre a s'"
    and fail: "\<And>pre a s e. I pre a s \<Longrightarrow> e = ERR_FAIL \<or> e = ERR_NO_MEM \<Longrightarrow> \<not> all_good env \<Longrightarrow> E e s"
    and "rs = pre @ post"
  shows "case records_loop env body (encs post) a s of (Inr a', s') \<Rightarrow> I rs a' s' | (Inl e, s') \<Rightarrow> E e s'"
  using assms(1,2,6)
proof (induction post arbitrary: pre a s)
  case Nil
  obtain x s1 where x: "read_next_record env [] s = (x, s1)" by fastforce
  then obtain e bs where e: "x = Failed e bs" "e = ERR_NVS_KEY_NOT_FOUND \<or> e = ERR_FAIL \<and> \<not> all_good env" "same s s1"
    using read_end [where env = env and s = s] by (cases x) auto
  then show ?case
    using Nil calls [OF Nil(2) e(3)] fail [OF calls [OF Nil(2) e(3)], of e] x
    by (auto simp: records_loop.simps [of _ _ "[]"])
next
  case (Cons r post)
  have r: "rec_ok r" using Cons.prems(1) by simp
  obtain x s1 where x: "read_next_record env (enc r @ encs post) s = (x, s1)" by fastforce
  show ?case
  proof (cases x)
    case (Failed e bs)
    then have "e = ERR_FAIL \<or> e = ERR_NO_MEM" "\<not> all_good env" "same s s1" using read_enc [OF r, where env = env and rest = "encs post" and s = s] x by simp_all
    then show ?thesis
      using x Failed fail [OF calls [OF Cons.prems(2)], of s1 e] by (auto simp: records_loop.simps [of _ _ "_ @ _"])
  next
    case (Got r' rest)
    then have got: "read_next_record env (enc r @ encs post) s = (Got r (encs post), s1)" and s1: "same s s1"
      using read_enc [OF r, where env = env and rest = "encs post" and s = s] x by simp_all
    obtain y s2 where y: "body r a s1 = (y, s2)" by fastforce
    note b = step [OF Cons.prems(3) calls [OF Cons.prems(2) s1], unfolded y]
    show ?thesis
    proof (cases y)
      case (Inl e)
      then show ?thesis using b y got by (simp add: records_loop.simps [of _ _ "_ @ _"])
    next
      case (Inr a')
      then have "I (pre @ [r]) a' s2" using b by simp
      from Cons.IH [OF _ this] Cons.prems(1,3) show ?thesis
        using Inr y got by (simp add: records_loop.simps [of _ _ "_ @ _"])
    qed
  qed
qed

lemmas records_loop_encs = records_loop_rest [where pre = "[]" and post = rs and rs = rs for rs, OF _ _ _ _ _ append_Nil [symmetric]]

section \<open>The map of a file\<close>

definition store :: "nvs_record list \<Rightarrow> store" where
  "store rs = map_of (map (\<lambda>r. (nr_key r, (nr_type r, nr_value r))) (rev rs))"

lemma store_Nil [simp]: "store [] = Map.empty"
  by (simp add: store_def)

lemma store_snoc [simp]: "store (rs @ [r]) = (store rs)(nr_key r \<mapsto> (nr_type r, nr_value r))"
  by (simp add: store_def)

lemma key_matches_eq: "key_ok key \<Longrightarrow> key_matches key r \<longleftrightarrow> nr_key r = key"
  by (auto simp: key_matches_def key_ok_def unat_key_len)

lemma store_others: "store (filter (\<lambda>r. nr_key r \<noteq> key) rs) = (store rs)(key := None)"
  by (induction rs rule: rev_induct) (auto simp: fun_eq_iff)

lemma store_None: "store rs key = None \<longleftrightarrow> (\<forall>r \<in> set rs. nr_key r \<noteq> key)"
  by (induction rs rule: rev_induct) auto

lemma get_loop:
  assumes "\<forall>r \<in> set rs. rec_ok r" "key_ok key"
  shows "case records_loop env (body_get key) (encs rs) None s of
      (Inr x, s') \<Rightarrow> x = map_option snd (store rs key) \<and> same s s'
    | (Inl e, s') \<Rightarrow> (e = ERR_FAIL \<or> e = ERR_NO_MEM) \<and> \<not> all_good env \<and> same s s'"
  by (rule records_loop_encs [where I = "\<lambda>pre x s'. x = map_option snd (store pre key) \<and> same s s'"])
    (use assms in \<open>auto simp: body_get_def key_matches_eq intro: same_trans\<close>)

text \<open>A write to inode \<open>t\<close>.\<close>

definition writes :: "nat \<Rightarrow> byte list \<Rightarrow> fs \<Rightarrow> fs \<Rightarrow> bool" where
  "writes t bs s s' \<longleftrightarrow> (\<exists>n. s' = s\<lparr>fs_calls := n, fs_data := (fs_data s)(t := bs)\<rparr>)"

lemma writes_same: "same s s' \<Longrightarrow> writes t (fs_data s t) s s'"
  unfolding writes_def same_def by auto

lemma writes_trans: "writes t bs s s' \<Longrightarrow> writes t bs' s' s'' \<Longrightarrow> writes t bs' s s''"
  unfolding writes_def by auto

lemma writes_data: "writes t bs s s' \<Longrightarrow> fs_data s' t = bs"
  unfolding writes_def by auto

lemma writes_same_trans: "writes t bs s s' \<Longrightarrow> same s' s'' \<Longrightarrow> writes t bs s s''"
  by (cases s) (auto simp: writes_def same_def)

lemma write_all_writes:
  "case write_all env t bss s of (ok, s') \<Rightarrow> \<exists>bs. writes t bs s s' \<and> (ok \<and> bs = fs_data s t @ concat bss \<or> \<not> ok \<and> \<not> all_good env)"
proof (induction bss arbitrary: s)
  case Nil
  show ?case using writes_same [OF same_refl, of t s] by auto
next
  case (Cons b bss)
  let ?s = "s\<lparr>fs_calls := Suc (fs_calls s)\<rparr>"
  show ?case
  proof (cases "good env (fs_calls s)")
    case True
    have w: "writes t (fs_data s t @ b) s (file_append t b ?s)"
      unfolding writes_def file_append_def by (intro exI [of _ "Suc (fs_calls s)"]) simp
    obtain ok s' where e: "write_all env t bss (file_append t b ?s) = (ok, s')" by fastforce
    then obtain bs where "writes t bs (file_append t b ?s) s'" "ok \<and> bs = (fs_data s t @ b) @ concat bss \<or> \<not> ok \<and> \<not> all_good env"
      using Cons.IH [of "file_append t b ?s"] writes_data [OF w] by auto
    then show ?thesis using True e writes_trans [OF w] by (auto simp: sys_call_eq)
  next
    case False
    then show ?thesis using writes_same [OF same_calls, of t s] not_good [OF False] by (auto simp: sys_call_eq)
  qed
qed

lemma write_record_writes:
  "case write_record env t r s of (rc, s') \<Rightarrow> \<exists>bs. writes t bs s s' \<and>
     (rc = ERR_OK \<and> bs = fs_data s t @ enc r \<or> rc = ERR_FAIL \<and> \<not> all_good env)"
  using write_all_writes [where env = env and t = t and bss = "record_chunks r" and s = s]
  by (auto simp: write_record_def enc_def split: prod.splits)

lemma copy_loop:
  assumes "\<forall>r \<in> set rs. rec_ok r" "key_ok key" "fs_data s t = []"
  shows "case records_loop env (body_copy env t key) (encs rs) False s of
      (Inr found, s') \<Rightarrow> found = (store rs key \<noteq> None) \<and> writes t (encs (filter (\<lambda>r. nr_key r \<noteq> key) rs)) s s'
    | (Inl e, s') \<Rightarrow> (e = ERR_FAIL \<or> e = ERR_NO_MEM) \<and> \<not> all_good env \<and> (\<exists>bs. writes t bs s s')"
proof (rule records_loop_encs [where I = "\<lambda>pre found s'. found = (store pre key \<noteq> None) \<and>
      writes t (encs (filter (\<lambda>r. nr_key r \<noteq> key) pre)) s s'"])
  fix pre r post found s'
  assume I: "found = (store pre key \<noteq> None) \<and> writes t (encs (filter (\<lambda>r. nr_key r \<noteq> key) pre)) s s'"
  note data = writes_data [OF conjunct2 [OF I]]
  show "case body_copy env t key r found s' of
      (Inr found', s'') \<Rightarrow> found' = (store (pre @ [r]) key \<noteq> None) \<and>
        writes t (encs (filter (\<lambda>r. nr_key r \<noteq> key) (pre @ [r]))) s s''
    | (Inl e, s'') \<Rightarrow> (e = ERR_FAIL \<or> e = ERR_NO_MEM) \<and> \<not> all_good env \<and> (\<exists>bs. writes t bs s s'')"
    using I write_record_writes [where env = env and t = t and r = r and s = s'] assms(2)
    by (auto simp: body_copy_def key_matches_eq data intro: writes_trans split: prod.splits)
next
  fix pre found s' s''
  assume "found = (store pre key \<noteq> None) \<and> writes t (encs (filter (\<lambda>r. nr_key r \<noteq> key) pre)) s s'" "same s' s''"
  then show "found = (store pre key \<noteq> None) \<and> writes t (encs (filter (\<lambda>r. nr_key r \<noteq> key) pre)) s s''"
    using writes_same_trans by blast
qed (use assms writes_same [OF same_refl, of t s] in auto)

section \<open>Operations on a file\<close>

definition content :: "fs \<Rightarrow> string \<Rightarrow> byte list option" where
  "content s path = map_option (fs_data s) (map_of (fs_dir s) path)"

text \<open>Every inode has one name and was allocated.\<close>

definition fs_ok :: "fs \<Rightarrow> bool" where
  "fs_ok s \<longleftrightarrow> (\<forall>p i. map_of (fs_dir s) p = Some i \<longrightarrow> i < fs_inodes s) \<and>
    (\<forall>p q i. map_of (fs_dir s) p = Some i \<and> map_of (fs_dir s) q = Some i \<longrightarrow> p = q)"

lemma map_of_dir_set: "map_of (dir_set p i d) = (map_of d)(p \<mapsto> i)"
proof -
  have "map_of (filter (\<lambda>e. fst e \<noteq> p) d) q = (if q = p then None else map_of d q)" for q
    by (induction d) auto
  then show ?thesis by (auto simp: dir_set_def fun_eq_iff)
qed

lemma map_of_dir_remove: "map_of (dir_remove p d) = (map_of d)(p := None)"
  by (induction d) (auto simp: dir_remove_def fun_eq_iff)

text \<open>What an operation leaves alone: the file at \<open>path\<close>, and the handles.\<close>

definition frame :: "string \<Rightarrow> fs \<Rightarrow> fs \<Rightarrow> bool" where
  "frame path s s' \<longleftrightarrow> fs_ok s' \<and> content s' path = content s path \<and>
    map_of (fs_dir s') path = map_of (fs_dir s) path \<and> fs_handles s' = fs_handles s"

lemma frame_refl: "fs_ok s \<Longrightarrow> frame path s s"
  by (simp add: frame_def)

lemma frame_trans: "frame path s t \<Longrightarrow> frame path t u \<Longrightarrow> frame path s u"
  by (simp add: frame_def)

lemma frame_ok: "frame path s s' \<Longrightarrow> fs_ok s'"
  by (simp add: frame_def)

lemma frame_same: "fs_ok s \<Longrightarrow> same s s' \<Longrightarrow> frame path s s'"
  by (auto simp: frame_def same_def fs_ok_def content_def)

lemma frame_writes: "fs_ok s \<Longrightarrow> map_of (fs_dir s) path \<noteq> Some t \<Longrightarrow> writes t bs s s' \<Longrightarrow> frame path s s'"
  by (cases "map_of (fs_dir s) path") (auto simp: frame_def writes_def fs_ok_def content_def)

lemma frame_unlink:
  assumes "fs_ok s" "p \<noteq> path"
  shows "frame path s (snd (file_unlink env p s))"
  using assms by (auto simp: file_unlink_def sys_call_eq frame_def fs_ok_def content_def map_of_dir_remove)

lemma open_tmp:
  assumes "fs_ok s" "p \<noteq> path"
  shows "case file_open env p True True s of
      (Opened t, s') \<Rightarrow> frame path s s' \<and> map_of (fs_dir s') p = Some t \<and> fs_data s' t = []
    | (_, s') \<Rightarrow> frame path s s' \<and> \<not> all_good env"
  using assms
  by (cases "map_of (fs_dir s) p"; cases "map_of (fs_dir s) path")
     (auto simp: file_open_def sys_call_eq Let_def frame_def fs_ok_def content_def map_of_dir_set not_good intro: less_SucI)

definition handle_on :: "fs \<Rightarrow> nat \<Rightarrow> string \<Rightarrow> bool" where
  "handle_on s a path \<longleftrightarrow> (\<exists>i. fs_handles s a = Some \<lparr>h_fd = Some i, h_path = path\<rparr> \<and> map_of (fs_dir s) path = Some i) \<and>
    length path < 512"

lemma handle_on_frame: "handle_on s a path \<Longrightarrow> frame path s s' \<Longrightarrow> handle_on s' a path"
  by (auto simp: handle_on_def frame_def)

text \<open>A failed operation can leave a handle without its file; then nothing succeeds on it any more.\<close>

definition broken :: "fs \<Rightarrow> nat \<Rightarrow> string \<Rightarrow> bool" where
  "broken s a path \<longleftrightarrow> fs_handles s a = Some \<lparr>h_fd = None, h_path = path\<rparr> \<and> length path < 512"

definition usable :: "fs \<Rightarrow> nat \<Rightarrow> string \<Rightarrow> bool" where
  "usable s a path \<longleftrightarrow> handle_on s a path \<or> broken s a path"

lemma tmp_path_other: "length path < 512 \<Longrightarrow> take 599 (path @ ''.tmp'') \<noteq> path"
proof
  assume "length path < 512" "take 599 (path @ ''.tmp'') = path"
  then have "length (take 599 (path @ ''.tmp'')) = length path" "length path < 512" by simp_all
  then show False by simp
qed

lemma copy_others_spec:
  assumes "fs_ok s" "fs_handles s a = Some hb" "handle_on s a path" "content s path = Some (encs rs)"
    and "\<forall>r \<in> set rs. rec_ok r" "key_ok key"
  shows "case copy_others env hb key s of
      (Inr (t, found), s') \<Rightarrow> frame path s s' \<and> found = (store rs key \<noteq> None) \<and>
        map_of (fs_dir s') (tmp_path hb) = Some t \<and> fs_data s' t = encs (filter (\<lambda>r. nr_key r \<noteq> key) rs)
    | (Inl e, s') \<Rightarrow> frame path s s' \<and> (e = ERR_FAIL \<or> e = ERR_NO_MEM) \<and> \<not> all_good env"
proof -
  from assms(2,3) obtain i where i: "hb = \<lparr>h_fd = Some i, h_path = path\<rparr>" "map_of (fs_dir s) path = Some i"
    "length path < 512"
    by (auto simp: handle_on_def)
  let ?tmp = "tmp_path hb"
  have other: "?tmp \<noteq> path" using tmp_path_other [OF i(3)] i(1) by (simp add: tmp_path_def)
  obtain x s1 where x: "file_open env ?tmp True True s = (x, s1)" by fastforce
  have unlink: "frame path s (snd (file_unlink env ?tmp s'))" if "frame path s s'" for s'
    using frame_trans [OF that frame_unlink [OF frame_ok [OF that] other]] .
  show ?thesis
  proof (cases x)
    case (Opened t)
    then have t: "frame path s s1" "map_of (fs_dir s1) ?tmp = Some t" "fs_data s1 t = []"
      using open_tmp [OF assms(1) other, of env] x by simp_all
    obtain ok s2 where s2: "sys_call env s1 = (ok, s2)" by fastforce
    then have f2: "frame path s s2" and d2: "fs_dir s2 = fs_dir s1" "fs_data s2 = fs_data s1"
      using frame_trans [OF t(1) frame_same [OF frame_ok [OF t(1)] sys_call_same [OF s2]]] sys_call_same [OF s2]
      by (auto simp: same_def)
    have ti: "map_of (fs_dir s2) path \<noteq> Some t"
      using frame_ok [OF f2] t(2) other d2 unfolding fs_ok_def by auto
    have ii: "fs_data s2 i = encs rs" using f2 assms(4) i(2) by (auto simp: frame_def content_def)
    note copy = copy_loop [OF assms(5,6), where s = s2 and t = t and env = env]
    obtain y s3 where y: "records_loop env (body_copy env t key) (encs rs) False s2 = (y, s3)" by fastforce
    show ?thesis
    proof (cases ok)
      case False
      then show ?thesis using x Opened s2 i(1) unlink [OF f2] not_good by (auto simp: copy_others_def sys_call_eq)
    next
      case True
      show ?thesis
      proof (cases y)
        case (Inl e)
        then obtain bs where "writes t bs s2 s3" "e = ERR_FAIL \<or> e = ERR_NO_MEM" "\<not> all_good env" using copy y t(3) d2 by auto
        then show ?thesis
          using True x Opened s2 i(1) ii y Inl unlink [OF frame_trans [OF f2 frame_writes [OF frame_ok [OF f2] ti]]]
          by (auto simp: copy_others_def)
      next
        case (Inr found)
        then have w: "writes t (encs (filter (\<lambda>r. nr_key r \<noteq> key) rs)) s2 s3" "found = (store rs key \<noteq> None)"
          using copy y t(3) d2 by auto
        moreover have "fs_dir s3 = fs_dir s2" using w(1) by (auto simp: writes_def)
        ultimately show ?thesis
          using True x Opened s2 i(1) ii y Inr t(2) d2 writes_data [OF w(1)]
            frame_trans [OF f2 frame_writes [OF frame_ok [OF f2] ti w(1)]]
          by (simp add: copy_others_def)
      qed
    qed
  next
    case No_entry
    then show ?thesis using open_tmp [OF assms(1) other, of env] x by (simp add: copy_others_def)
  next
    case Not_opened
    then show ?thesis using open_tmp [OF assms(1) other, of env] x by (simp add: copy_others_def)
  qed
qed

lemma replace_file_spec:
  assumes "fs_ok s" "fs_handles s a = Some hb" "handle_on s a path" "map_of (fs_dir s) tmp = Some t" "tmp \<noteq> path"
  shows "case replace_file env a hb tmp result s of (rc, s') \<Rightarrow> fs_ok s' \<and> usable s' a path \<and>
    (rc = result \<and> content s' path = Some (fs_data s t) \<and> handle_on s' a path \<or>
     rc = ERR_FAIL \<and> \<not> all_good env \<and> (content s' path = content s path \<or> content s' path = Some (fs_data s t)))"
proof -
  from assms(2,3) obtain i where i: "hb = \<lparr>h_fd = Some i, h_path = path\<rparr>" "map_of (fs_dir s) path = Some i"
    "length path < 512"
    by (auto simp: handle_on_def)
  let ?s1 = "s\<lparr>fs_calls := Suc (fs_calls s)\<rparr>"
  have f1: "frame path s ?s1" using frame_same [OF assms(1)] by simp
  show ?thesis
  proof (cases "good env (fs_calls s)")
    case False
    then show ?thesis
      using frame_trans [OF f1 frame_unlink [OF frame_ok [OF f1] assms(5), of env]]
        handle_on_frame [OF assms(3) frame_trans [OF f1 frame_unlink [OF frame_ok [OF f1] assms(5), of env]]]
      by (simp add: replace_file_def sys_call_eq frame_def not_good usable_def)
  next
    case True
    then show ?thesis
      using assms(1,2,4,5) i
      by (cases "good env (Suc (fs_calls s))"; cases "good env (Suc (Suc (fs_calls s)))")
         (auto simp: replace_file_def sys_call_eq file_rename_def file_open_def map_of_dir_set map_of_dir_remove
           set_fd_def content_def handle_on_def fs_ok_def not_good usable_def broken_def)
  qed
qed

section \<open>The contract\<close>

text \<open>The operations on a handle, in the form of the interface.\<close>

definition kv_run :: "sys \<Rightarrow> nat \<Rightarrow> kv_op \<Rightarrow> fs \<Rightarrow> (err \<times> nat \<times> byte list) \<times> fs" where
  "kv_run env a oper s =
    (case oper of
       Kv_get key buffer cap \<Rightarrow> osal_storage_get env (Some a) key buffer cap s
     | Kv_set key val ty \<Rightarrow> (case osal_storage_set env (Some a) key val ty s of ((rc, _), s') \<Rightarrow> ((rc, 0, []), s'))
     | Kv_erase key \<Rightarrow> (case osal_storage_erase env (Some a) key s of ((rc, _), s') \<Rightarrow> ((rc, 0, []), s'))
     | Kv_erase_all \<Rightarrow> (case osal_storage_erase_all env (Some a) s of ((rc, _), s') \<Rightarrow> ((rc, 0, []), s'))
     | Kv_commit \<Rightarrow> (case osal_storage_commit env (Some a) s of ((rc, _), s') \<Rightarrow> ((rc, 0, []), s')))"

text \<open>A file that holds a map, and a handle on it: open, or closed by an earlier failure.\<close>

definition file_holds :: "fs \<Rightarrow> string \<Rightarrow> store \<Rightarrow> bool" where
  "file_holds s path m \<longleftrightarrow> fs_ok s \<and> (\<exists>rs. content s path = Some (encs rs) \<and> (\<forall>r \<in> set rs. rec_ok r) \<and> store rs = m)"

lemma file_holdsI:
  "fs_ok s \<Longrightarrow> content s path = Some (encs rs) \<Longrightarrow> \<forall>r \<in> set rs. rec_ok r \<Longrightarrow> store rs = m \<Longrightarrow> file_holds s path m"
  by (auto simp: file_holds_def)

lemma file_holds_frame: "file_holds s path m \<Longrightarrow> frame path s s' \<Longrightarrow> file_holds s' path m"
  by (auto simp: file_holds_def frame_def)

lemma set_spec:
  assumes "file_holds s path m" "handle_on s a path" "key_ok key" "length val < 2 ^ 32"
  shows "case osal_storage_set env (Some a) key val ty s of ((rc, _), s') \<Rightarrow>
    (\<exists>m'. file_holds s' path m' \<and> kv_spec (Kv_set key val ty) (rc, 0, []) m m') \<and>
    (rc = ERR_OK \<longrightarrow> handle_on s' a path) \<and> usable s' a path \<and>
    (all_good env \<longrightarrow> rc = ERR_OK)"
proof -
  from assms(1) obtain rs where rs: "fs_ok s" "content s path = Some (encs rs)" "\<forall>r \<in> set rs. rec_ok r" "store rs = m"
    by (auto simp: file_holds_def)
  from assms(2) obtain hb where hb: "fs_handles s a = Some hb" "h_path hb = path" "length path < 512"
    by (auto simp: handle_on_def)
  have other: "tmp_path hb \<noteq> path" using tmp_path_other [OF hb(3)] hb(2) by (simp add: tmp_path_def)
  let ?r = "\<lparr>nr_key = key, nr_value = val, nr_type = type_byte ty\<rparr>"
  let ?rs = "filter (\<lambda>r. nr_key r \<noteq> key) rs @ [?r]"
  have ok: "\<forall>r \<in> set ?rs. rec_ok r" using rs(3) assms(3,4) by (auto simp: rec_ok_def key_ok_def)
  have new: "store ?rs = m(key \<mapsto> (type_byte ty, val))" by (simp add: store_others rs(4))
  obtain y s1 where y: "copy_others env hb key s = (y, s1)" by fastforce
  note copy = copy_others_spec [OF rs(1) hb(1) assms(2) rs(2,3) assms(3), where env = env, unfolded y]
  show ?thesis
  proof (cases y)
    case (Inl e)
    then show ?thesis
      using copy y hb(1) file_holds_frame [OF assms(1)] handle_on_frame [OF assms(2)] usable_def by (auto simp: osal_storage_set_def use_handle_def)
  next
    case (Inr p)
    obtain t found where p: "p = (t, found)" by fastforce
    have c: "frame path s s1" "map_of (fs_dir s1) (tmp_path hb) = Some t"
      "fs_data s1 t = encs (filter (\<lambda>r. nr_key r \<noteq> key) rs)"
      using copy Inr p by simp_all
    have ti: "map_of (fs_dir s1) path \<noteq> Some t" using frame_ok [OF c(1)] c(2) other by (auto simp: fs_ok_def)
    obtain rc s2 where w: "write_record env t ?r s1 = (rc, s2)" by fastforce
    from write_record_writes [where env = env and t = t and r = ?r and s = s1] w obtain bs where
      bs: "writes t bs s1 s2" "rc = ERR_OK \<and> bs = fs_data s1 t @ enc ?r \<or> rc = ERR_FAIL \<and> \<not> all_good env" by auto
    have f2: "frame path s s2" using frame_trans [OF c(1) frame_writes [OF frame_ok [OF c(1)] ti bs(1)]] .
    show ?thesis
    proof (cases "rc = ERR_OK")
      case False
      have "frame path s (snd (file_unlink env (tmp_path hb) s2))"
        using frame_trans [OF f2 frame_unlink [OF frame_ok [OF f2] other]] .
      then show ?thesis
        using False y Inr p w bs(2) hb(1) file_holds_frame [OF assms(1)] handle_on_frame [OF assms(2)]
        by (auto simp: usable_def osal_storage_set_def use_handle_def)
    next
      case True
      have d: "fs_data s2 t = encs ?rs" using bs True c(3) writes_data [OF bs(1)] by simp
      have dir: "map_of (fs_dir s2) (tmp_path hb) = Some t" using bs(1) c(2) by (auto simp: writes_def)
      have h2: "fs_handles s2 a = Some hb" using f2 hb(1) by (simp add: frame_def)
      obtain rc3 s3 where r: "replace_file env a hb (tmp_path hb) ERR_OK s2 = (rc3, s3)" by fastforce
      have set: "osal_storage_set env (Some a) key val ty s = ((rc3, ()), s3)"
        using True y Inr p w hb(1) r by (simp add: osal_storage_set_def use_handle_def)
      have rep: "fs_ok s3 \<and> usable s3 a path \<and> (rc3 = ERR_OK \<and> content s3 path = Some (encs ?rs) \<and> handle_on s3 a path \<or>
          rc3 = ERR_FAIL \<and> \<not> all_good env \<and> (content s3 path = content s2 path \<or> content s3 path = Some (encs ?rs)))"
        using replace_file_spec [OF frame_ok [OF f2] h2 handle_on_frame [OF assms(2) f2] dir other,
            where env = env and result = ERR_OK] r d by simp
      have "content s2 path = Some (encs rs)" using f2 rs(2) by (simp add: frame_def)
      then have old: "file_holds s3 path m" if "content s3 path = content s2 path"
        using file_holdsI [of s3 path rs m] rep rs(3,4) that by simp
      have upd: "file_holds s3 path (m(key \<mapsto> (type_byte ty, val)))" if "content s3 path = Some (encs ?rs)"
        using file_holdsI [OF _ that ok new] rep by blast
      from rep consider "rc3 = ERR_OK" "content s3 path = Some (encs ?rs)" "handle_on s3 a path"
        | "rc3 = ERR_FAIL" "content s3 path = content s2 path" "\<not> all_good env"
        | "rc3 = ERR_FAIL" "content s3 path = Some (encs ?rs)" "\<not> all_good env"
        by blast
      then show ?thesis
      proof cases
        case 1
        then show ?thesis using upd set rep by auto
      next
        case 2
        then show ?thesis using old set rep by auto
      next
        case 3
        then show ?thesis using upd set rep by auto
      qed
    qed
  qed
qed

lemma erase_spec:
  assumes "file_holds s path m" "handle_on s a path" "key_ok key"
  shows "case osal_storage_erase env (Some a) key s of ((rc, _), s') \<Rightarrow>
    (\<exists>m'. file_holds s' path m' \<and> kv_spec (Kv_erase key) (rc, 0, []) m m') \<and>
    (rc = ERR_OK \<or> rc = ERR_NVS_KEY_NOT_FOUND \<longrightarrow> handle_on s' a path) \<and> usable s' a path \<and>
    (all_good env \<longrightarrow> rc = ERR_OK \<or> rc = ERR_NVS_KEY_NOT_FOUND)"
proof -
  from assms(1) obtain rs where rs: "fs_ok s" "content s path = Some (encs rs)" "\<forall>r \<in> set rs. rec_ok r" "store rs = m"
    by (auto simp: file_holds_def)
  from assms(2) obtain hb where hb: "fs_handles s a = Some hb" "h_path hb = path" "length path < 512"
    by (auto simp: handle_on_def)
  have other: "tmp_path hb \<noteq> path" using tmp_path_other [OF hb(3)] hb(2) by (simp add: tmp_path_def)
  let ?rs = "filter (\<lambda>r. nr_key r \<noteq> key) rs"
  have ok: "\<forall>r \<in> set ?rs. rec_ok r" using rs(3) by auto
  have new: "store ?rs = m(key := None)" by (simp add: store_others rs(4))
  obtain y s1 where y: "copy_others env hb key s = (y, s1)" by fastforce
  note copy = copy_others_spec [OF rs(1) hb(1) assms(2) rs(2,3) assms(3), where env = env, unfolded y]
  show ?thesis
  proof (cases y)
    case (Inl e)
    then show ?thesis
      using copy y hb(1) file_holds_frame [OF assms(1)] handle_on_frame [OF assms(2)] usable_def by (auto simp: osal_storage_erase_def use_handle_def)
  next
    case (Inr p)
    obtain t found where p: "p = (t, found)" by fastforce
    have c: "frame path s s1" "map_of (fs_dir s1) (tmp_path hb) = Some t" "fs_data s1 t = encs ?rs"
      "found = (m key \<noteq> None)"
      using copy Inr p rs(4) by simp_all
    have h1: "fs_handles s1 a = Some hb" using c(1) hb(1) by (simp add: frame_def)
    let ?ok = "if found then ERR_OK else ERR_NVS_KEY_NOT_FOUND"
    obtain rc s2 where r: "replace_file env a hb (tmp_path hb) ?ok s1 = (rc, s2)" by fastforce
    have erase: "osal_storage_erase env (Some a) key s = ((rc, ()), s2)"
      using y Inr p hb(1) r by (simp add: osal_storage_erase_def use_handle_def)
    have rep: "fs_ok s2 \<and> usable s2 a path \<and> (rc = ?ok \<and> content s2 path = Some (encs ?rs) \<and> handle_on s2 a path \<or>
        rc = ERR_FAIL \<and> \<not> all_good env \<and> (content s2 path = content s1 path \<or> content s2 path = Some (encs ?rs)))"
      using replace_file_spec [OF frame_ok [OF c(1)] h1 handle_on_frame [OF assms(2) c(1)] c(2) other,
          where env = env and result = ?ok] r c(3) by simp
    have "content s1 path = Some (encs rs)" using c(1) rs(2) by (simp add: frame_def)
    then have old: "file_holds s2 path m" if "content s2 path = content s1 path"
      using file_holdsI [of s2 path rs m] rep rs(3,4) that by simp
    have upd: "file_holds s2 path (m(key := None))" if "content s2 path = Some (encs ?rs)"
      using file_holdsI [OF _ that ok new] rep by blast
    have none: "m(key := None) = m" if "m key = None" using that by auto
    from rep consider "rc = ?ok" "content s2 path = Some (encs ?rs)" "handle_on s2 a path"
      | "rc = ERR_FAIL" "content s2 path = content s1 path" "\<not> all_good env"
      | "rc = ERR_FAIL" "content s2 path = Some (encs ?rs)" "\<not> all_good env"
      by blast
    then show ?thesis
    proof cases
      case 1
      then show ?thesis using erase upd none c(4) rep by (cases "m key") auto
    next
      case 2
      then show ?thesis using erase old rep by auto
    next
      case 3
      then show ?thesis using erase upd rep by auto
    qed
  qed
qed

lemma get_spec:
  assumes "file_holds s path m" "handle_on s a path" "key_ok key"
  shows "case osal_storage_get env (Some a) key buffer cap s of ((rc, n, bs), s') \<Rightarrow>
    file_holds s' path m \<and> handle_on s' a path \<and> kv_spec (Kv_get key buffer cap) (rc, n, bs) m m \<and>
    (all_good env \<longrightarrow> rc = ERR_OK \<or> rc = ERR_NVS_KEY_NOT_FOUND \<or> buffer \<and> rc = ERR_NO_MEM \<and>
      (\<exists>t v. m key = Some (t, v) \<and> cap < length v))"
proof -
  from assms(1) obtain rs where rs: "fs_ok s" "content s path = Some (encs rs)" "\<forall>r \<in> set rs. rec_ok r" "store rs = m"
    by (auto simp: file_holds_def)
  from assms(2) obtain i where i: "fs_handles s a = Some \<lparr>h_fd = Some i, h_path = path\<rparr>" "map_of (fs_dir s) path = Some i"
    by (auto simp: handle_on_def)
  let ?s1 = "s\<lparr>fs_calls := Suc (fs_calls s)\<rparr>"
  have keep: "file_holds s' path m \<and> handle_on s' a path" if "same s s'" for s'
    using file_holds_frame [OF assms(1) frame_same [OF rs(1) that]] handle_on_frame [OF assms(2) frame_same [OF rs(1) that]]
    by blast
  have d: "fs_data s i = encs rs" using rs(2) i(2) by (simp add: content_def)
  obtain y s2 where y: "records_loop env (body_get key) (encs rs) None ?s1 = (y, s2)" by fastforce
  note loop = get_loop [OF rs(3) assms(3), where env = env and s = ?s1, unfolded y rs(4)]
  have s2: "same s s2" using loop same_trans [OF same_calls] by (auto split: sum.splits)
  show ?thesis
  proof (cases "good env (fs_calls s)")
    case False
    then show ?thesis
      using keep [OF same_calls] i(1) not_good [OF False]
      by (auto simp: osal_storage_get_def use_handle_def sys_call_eq split: option.splits)
  next
    case True
    show ?thesis
    proof (cases y)
      case (Inl e)
      then show ?thesis
        using True y loop keep [OF s2] i(1) d
        by (auto simp: osal_storage_get_def use_handle_def sys_call_eq split: option.splits)
    next
      case (Inr v)
      then have "v = map_option snd (m key)" using loop by simp
      then show ?thesis
        using True y Inr keep [OF s2] i(1) d
        by (cases "m key") (auto simp: osal_storage_get_def use_handle_def sys_call_eq)
    qed
  qed
qed

lemma erase_all_spec:
  assumes "file_holds s path m" "handle_on s a path"
  shows "case osal_storage_erase_all env (Some a) s of ((rc, _), s') \<Rightarrow>
    (\<exists>m'. file_holds s' path m' \<and> kv_spec Kv_erase_all (rc, 0, []) m m') \<and> handle_on s' a path \<and>
    (all_good env \<longrightarrow> rc = ERR_OK)"
proof -
  from assms(2) obtain i where i: "fs_handles s a = Some \<lparr>h_fd = Some i, h_path = path\<rparr>" "map_of (fs_dir s) path = Some i"
    by (auto simp: handle_on_def)
  have ok: "fs_ok s" using assms(1) by (simp add: file_holds_def)
  let ?s1 = "s\<lparr>fs_calls := Suc (fs_calls s)\<rparr>"
  let ?s2 = "s\<lparr>fs_calls := Suc (Suc (fs_calls s)), fs_data := (fs_data s)(i := [])\<rparr>"
  have f1: "frame path s ?s1" using frame_same [OF ok] by simp
  have "file_holds ?s2 path Map.empty"
    using ok i(2) by (intro file_holdsI [of _ _ "[]"]) (auto simp: fs_ok_def content_def)
  moreover have "handle_on ?s2 a path" using assms(2) by (auto simp: handle_on_def)
  moreover have "osal_storage_erase_all env (Some a) s =
      (if good env (fs_calls s) then ((if good env (Suc (fs_calls s)) then ERR_OK else ERR_FAIL, ()), ?s2)
       else ((ERR_FAIL, ()), ?s1))"
    using i(1) by (simp add: osal_storage_erase_all_def use_handle_def sys_call_eq)
  ultimately show ?thesis
    using file_holds_frame [OF assms(1) f1] handle_on_frame [OF assms(2) f1] not_good by auto
qed

lemma commit_spec:
  assumes "file_holds s path m" "handle_on s a path"
  shows "case osal_storage_commit env (Some a) s of ((rc, _), s') \<Rightarrow>
    file_holds s' path m \<and> kv_spec Kv_commit (rc, 0, []) m m \<and> handle_on s' a path \<and>
    (all_good env \<longrightarrow> rc = ERR_OK)"
proof -
  have ok: "fs_ok s" using assms(1) by (simp add: file_holds_def)
  have f1: "frame path s (s\<lparr>fs_calls := Suc (fs_calls s)\<rparr>)" using frame_same [OF ok] by simp
  from assms(2) obtain i where "fs_handles s a = Some \<lparr>h_fd = Some i, h_path = path\<rparr>" by (auto simp: handle_on_def)
  then show ?thesis
    using file_holds_frame [OF assms(1) f1] handle_on_frame [OF assms(2) f1]
    by (auto simp: osal_storage_commit_def use_handle_def sys_call_eq dest: not_good)
qed

lemma storage_run:
  assumes "file_holds s path m" "handle_on s a path" "kv_valid oper"
  shows "case kv_run env a oper s of ((rc, n, bs), s') \<Rightarrow>
    (\<exists>m'. file_holds s' path m' \<and> kv_spec oper (rc, n, bs) m m') \<and>
    (rc = ERR_OK \<or> all_good env \<longrightarrow> handle_on s' a path) \<and> usable s' a path \<and>
    (all_good env \<longrightarrow> rc = ERR_OK \<or> rc = ERR_NVS_KEY_NOT_FOUND \<or> rc = ERR_NO_MEM \<and>
       (\<exists>key cap t v. oper = Kv_get key True cap \<and> m key = Some (t, v) \<and> cap < length v))"
proof (cases oper)
  case (Kv_get key buffer cap)
  then show ?thesis
    using get_spec [OF assms(1,2), where key = key and buffer = buffer and cap = cap and env = env] assms(3)
    by (auto simp: kv_run_def usable_def split: prod.splits simp del: kv_spec.simps)
next
  case (Kv_set key val ty)
  then show ?thesis
    using set_spec [OF assms(1,2), where key = key and val = val and ty = ty and env = env] assms(3)
    by (auto simp: kv_run_def usable_def split: prod.splits simp del: kv_spec.simps)
next
  case (Kv_erase key)
  then show ?thesis
    using erase_spec [OF assms(1,2), where key = key and env = env] assms(3)
    by (auto simp: kv_run_def usable_def split: prod.splits simp del: kv_spec.simps)
next
  case Kv_erase_all
  then show ?thesis
    using erase_all_spec [OF assms(1,2), where env = env]
    by (auto simp: kv_run_def usable_def split: prod.splits simp del: kv_spec.simps)
next
  case Kv_commit
  then show ?thesis
    using commit_spec [OF assms(1,2), where env = env]
    by (auto simp: kv_run_def usable_def split: prod.splits simp del: kv_spec.simps)
qed

lemma broken_frame: "broken s a path \<Longrightarrow> frame path s s' \<Longrightarrow> broken s' a path"
  by (simp add: broken_def frame_def)

lemma broken_copy:
  assumes "fs_ok s" "h_fd hb = None" "tmp_path hb \<noteq> path" "copy_others env hb key s = (x, s')"
  shows "x = Inl ERR_FAIL \<and> frame path s s'"
proof -
  obtain y s1 where y: "file_open env (tmp_path hb) True True s = (y, s1)" by fastforce
  have f: "frame path s s1" using open_tmp [OF assms(1,3), of env] y by (cases y) auto
  obtain ok s2 where 2: "sys_call env s1 = (ok, s2)" by fastforce
  have f2: "frame path s s2" using frame_trans [OF f frame_same [OF frame_ok [OF f] sys_call_same [OF 2]]] .
  show ?thesis
    using assms(2,4) y 2 f frame_trans [OF f2 frame_unlink [OF frame_ok [OF f2] assms(3), of env]]
    by (auto simp: copy_others_def split: opened.splits)
qed

lemma broken_run:
  assumes "fs_ok s" "broken s a path" "kv_run env a oper s = ((rc, n, bs), s')"
  shows "frame path s s' \<and> rc = ERR_FAIL"
proof -
  let ?hb = "\<lparr>h_fd = None, h_path = path\<rparr>"
  have hb: "fs_handles s a = Some ?hb" "length path < 512" using assms(2) by (simp_all add: broken_def)
  have other: "tmp_path ?hb \<noteq> path" using tmp_path_other [OF hb(2)] by (simp add: tmp_path_def)
  have f1: "frame path s (s\<lparr>fs_calls := Suc (fs_calls s)\<rparr>)" using frame_same [OF assms(1)] by simp
  show ?thesis
    using assms(3) hb(1) f1 broken_copy [OF assms(1) _ other]
    by (auto simp: kv_run_def osal_storage_get_def osal_storage_set_def osal_storage_erase_def
        osal_storage_erase_all_def osal_storage_commit_def use_handle_def sys_call_eq
        split: kv_op.splits prod.splits sum.splits if_splits)
qed

section \<open>The POSIX storage meets the contract\<close>

definition posix_ops :: "sys \<Rightarrow> (nat, fs) storage_ops" where
  "posix_ops env = \<lparr>so_open = osal_storage_open env, so_close = (\<lambda>a s. snd (osal_storage_close env (Some a) s)),
     so_run = kv_run env\<rparr>"

text \<open>A file that does not exist yet holds nothing.\<close>

definition posix_disk :: "fs \<Rightarrow> string option \<Rightarrow> string \<Rightarrow> store \<Rightarrow> bool" where
  "posix_disk s p ns m \<longleftrightarrow> fs_ok s \<and>
    (content s (build_path p ns) = None \<and> m = Map.empty \<or> file_holds s (build_path p ns) m)"

definition posix_opened :: "fs \<Rightarrow> nat \<Rightarrow> string option \<Rightarrow> string \<Rightarrow> bool" where
  "posix_opened s a p ns \<longleftrightarrow> usable s a (build_path p ns)"

definition posix_sound :: "fs \<Rightarrow> nat \<Rightarrow> string option \<Rightarrow> string \<Rightarrow> bool" where
  "posix_sound s a p ns \<longleftrightarrow> handle_on s a (build_path p ns)"

lemma posix_sound_opened: "posix_sound s a p ns \<Longrightarrow> posix_opened s a p ns"
  by (simp add: posix_sound_def posix_opened_def usable_def)

lemma posix_disk_cong:
  "fs_ok s' \<Longrightarrow> content s' (build_path p ns) = content s (build_path p ns) \<Longrightarrow> posix_disk s p ns m \<Longrightarrow> posix_disk s' p ns m"
  by (auto simp: posix_disk_def file_holds_def)

lemma ensure_base_dir_keeps:
  "ensure_base_dir env s = (rc, s') \<Longrightarrow>
    fs_dir s' = fs_dir s \<and> fs_data s' = fs_data s \<and> fs_inodes s' = fs_inodes s \<and> fs_handles s' = fs_handles s"
  by (auto simp: ensure_base_dir_def sys_call_eq split: if_splits)

lemma open_keeps:
  assumes "fs_ok s" "file_open env path creat False s = (x, s')"
  shows "fs_ok s' \<and> (content s' path = content s path \<or> content s path = None \<and> content s' path = Some []) \<and>
    (\<forall>i. x = Opened i \<longrightarrow> map_of (fs_dir s') path = Some i \<and> content s' path \<noteq> None)"
proof -
  have lt: "\<And>p i. map_of (fs_dir s) p = Some i \<Longrightarrow> i < fs_inodes s"
    and inj: "\<And>p q i. map_of (fs_dir s) p = Some i \<Longrightarrow> map_of (fs_dir s) q = Some i \<Longrightarrow> p = q"
    using assms(1) by (auto simp: fs_ok_def)
  show ?thesis
    using assms(2) lt inj
    by (cases "map_of (fs_dir s) path")
      (fastforce simp: file_open_def sys_call_eq Let_def fs_ok_def content_def map_of_dir_set
        split: if_splits intro: less_SucI dest: lt)+
qed

lemma posix_open:
  assumes "posix_disk s p ns m" "osal_storage_open env p ns mode s = ((rc, ho), s')"
  shows "posix_disk s' p ns m \<and> (rc = ERR_OK \<longrightarrow> (\<exists>a. ho = Some a \<and> posix_sound s' a p ns))"
proof -
  let ?path = "build_path p ns"
  have len: "length ?path < 512" by (simp add: build_path_def)
  have ok: "fs_ok s" using assms(1) by (simp add: posix_disk_def)
  have keep: "posix_disk t p ns m" if "fs_ok t" "content t ?path = content s ?path" for t
    using posix_disk_cong [OF that assms(1)] .
  let ?s1 = "s\<lparr>fs_calls := Suc (fs_calls s)\<rparr>"
  obtain r2 s2 where 2: "ensure_base_dir env ?s1 = (r2, s2)" by fastforce
  obtain x s3 where 3: "file_open env ?path (mode = OPEN_READWRITE) False s2 = (x, s3)" by fastforce
  have s1: "fs_ok ?s1" "content ?s1 ?path = content s ?path" using ok by (simp_all add: fs_ok_def content_def)
  have s2: "fs_ok s2" "content s2 ?path = content s ?path"
    using ensure_base_dir_keeps [OF 2] ok by (simp_all add: fs_ok_def content_def)
  have s3: "fs_ok s3" "content s3 ?path = content s ?path \<or> content s ?path = None \<and> content s3 ?path = Some []"
    "\<And>i. x = Opened i \<Longrightarrow> map_of (fs_dir s3) ?path = Some i"
    using open_keeps [OF s2(1) 3] s2(2) by auto
  have d3: "posix_disk s3 p ns m"
    using s3(2)
  proof
    assume "content s3 ?path = content s ?path"
    then show ?thesis using keep s3(1) by blast
  next
    assume c: "content s ?path = None \<and> content s3 ?path = Some []"
    then have "m = Map.empty" using assms(1) by (auto simp: posix_disk_def file_holds_def)
    then show ?thesis using c s3(1) file_holdsI [of s3 ?path "[]" m] by (auto simp: posix_disk_def)
  qed
  show ?thesis
  proof (cases "partition_inited_locked (normalize_partition_name p) s \<and> good env (fs_calls s) \<and> ns \<noteq> '''' \<and> r2 = ERR_OK")
    case False
    then have "rc \<noteq> ERR_OK \<and> (s' = s \<or> s' = ?s1 \<or> s' = ?s1\<lparr>fs_fault := True\<rparr> \<or> s' = s2)"
      using assms(2) 2 by (auto simp: osal_storage_open_def Let_def sys_call_eq split: if_splits)
    moreover have "fs_ok (?s1\<lparr>fs_fault := True\<rparr>)" "content (?s1\<lparr>fs_fault := True\<rparr>) ?path = content s ?path"
      using ok by (simp_all add: fs_ok_def content_def)
    ultimately show ?thesis using keep s1 s2 ok by auto
  next
    case True
    show ?thesis
    proof (cases x)
      case (Opened i)
      let ?s4 = "s3\<lparr>fs_handles := (fs_handles s3)(fs_fresh s3 \<mapsto> \<lparr>h_fd = Some i, h_path = ?path\<rparr>),
        fs_fresh := Suc (fs_fresh s3)\<rparr>"
      have s': "rc = ERR_OK" "ho = Some (fs_fresh s3)" "s' = ?s4"
        using assms(2) True 2 3 Opened by (auto simp: osal_storage_open_def Let_def sys_call_eq)
      have "fs_ok ?s4" "content ?s4 ?path = content s3 ?path" using s3(1) by (simp_all add: fs_ok_def content_def)
      then have "posix_disk ?s4 p ns m" using posix_disk_cong [OF _ _ d3] by blast
      then show ?thesis using s' s3(3) [OF Opened] len by (auto simp: posix_sound_def handle_on_def)
    next
      case No_entry
      then show ?thesis
        using assms(2) True 2 3 d3 by (auto simp: osal_storage_open_def Let_def sys_call_eq split: if_splits)
    next
      case Not_opened
      then show ?thesis using assms(2) True 2 3 d3 by (auto simp: osal_storage_open_def Let_def sys_call_eq)
    qed
  qed
qed

lemma posix_run:
  assumes "posix_disk s p ns m" "posix_opened s a p ns" "kv_valid oper" "kv_run env a oper s = ((rc, n, bs), s')"
  shows "(\<exists>m'. posix_disk s' p ns m' \<and> kv_spec oper (rc, n, bs) m m') \<and> posix_opened s' a p ns \<and>
    (posix_sound s a p ns \<and> all_good env \<longrightarrow> posix_sound s' a p ns \<and>
      (rc = ERR_OK \<or> rc = ERR_NVS_KEY_NOT_FOUND \<or> rc = ERR_NO_MEM \<and>
       (\<exists>key cap t v. oper = Kv_get key True cap \<and> m key = Some (t, v) \<and> cap < length v)))"
proof (cases "posix_sound s a p ns")
  case True
  then have h: "handle_on s a (build_path p ns)" by (simp add: posix_sound_def)
  then have "file_holds s (build_path p ns) m"
    using assms(1) by (auto simp: posix_disk_def handle_on_def content_def)
  from storage_run [OF this h assms(3), where env = env] assms(4)
  have r: "(\<exists>m'. file_holds s' (build_path p ns) m' \<and> kv_spec oper (rc, n, bs) m m') \<and>
    (rc = ERR_OK \<or> all_good env \<longrightarrow> handle_on s' a (build_path p ns)) \<and> usable s' a (build_path p ns) \<and>
    (all_good env \<longrightarrow> rc = ERR_OK \<or> rc = ERR_NVS_KEY_NOT_FOUND \<or> rc = ERR_NO_MEM \<and>
       (\<exists>key cap t v. oper = Kv_get key True cap \<and> m key = Some (t, v) \<and> cap < length v))" by simp
  then have "\<exists>m'. posix_disk s' p ns m' \<and> kv_spec oper (rc, n, bs) m m'"
    by (auto simp: posix_disk_def file_holds_def)
  then show ?thesis using r by (simp add: posix_sound_def posix_opened_def)
next
  case False
  then have b: "broken s a (build_path p ns)" using assms(2) by (simp add: posix_sound_def posix_opened_def usable_def)
  have ok: "fs_ok s" using assms(1) by (simp add: posix_disk_def)
  from broken_run [OF ok b assms(4)] have f: "frame (build_path p ns) s s'" "rc = ERR_FAIL" by simp_all
  have "posix_disk s' p ns m" using posix_disk_cong [OF frame_ok [OF f(1)] _ assms(1)] f(1) by (simp add: frame_def)
  moreover have "kv_spec oper (rc, n, bs) m m" using f(2) by (cases oper) (auto split: option.splits)
  ultimately show ?thesis
    using False broken_frame [OF b f(1)] by (auto simp: posix_opened_def usable_def)
qed

lemma posix_close: "posix_disk s p ns m \<Longrightarrow> posix_disk (snd (osal_storage_close env (Some a) s)) p ns m"
proof -
  assume d: "posix_disk s p ns m"
  let ?s = "snd (osal_storage_close env (Some a) s)"
  have "fs_dir ?s = fs_dir s" "fs_data ?s = fs_data s" "fs_inodes ?s = fs_inodes s"
    by (auto simp: osal_storage_close_def use_handle_def sys_call_eq split: option.splits)
  then have "fs_ok ?s" "content ?s (build_path p ns) = content s (build_path p ns)"
    using d by (simp_all add: posix_disk_def fs_ok_def content_def)
  then show ?thesis using posix_disk_cong d by blast
qed

interpretation posix: kv_storage "posix_ops env" posix_disk posix_opened
proof unfold_locales
  fix s p ns m mode rc ho s'
  assume "posix_disk s p ns m" "so_open (posix_ops env) p ns mode s = ((rc, ho), s')"
  then show "posix_disk s' p ns m \<and> (rc = ERR_OK \<longrightarrow> (\<exists>h. ho = Some h \<and> posix_opened s' h p ns))"
    using posix_open [of s p ns m env mode rc ho s'] posix_sound_opened by (auto simp: posix_ops_def)
next
  fix s p ns m h oper rc n bs s'
  assume "posix_disk s p ns m" "posix_opened s h p ns" "kv_valid oper"
    "so_run (posix_ops env) h oper s = ((rc, n, bs), s')"
  then show "(\<exists>m'. posix_disk s' p ns m' \<and> kv_spec oper (rc, n, bs) m m') \<and> posix_opened s' h p ns"
    using posix_run [of s p ns m h oper env rc n bs s'] by (simp add: posix_ops_def)
qed (simp add: posix_ops_def posix_close)

section \<open>Flaws\<close>

text \<open>A key of sixteen bytes or more is accepted, and no later operation can read the file.\<close>

definition start_fs :: fs where
  "start_fs = \<lparr>fs_calls = 0, fs_fault = False, fs_base = True, fs_dir = [(build_path None ''ns'', 0)],
     fs_data = (\<lambda>_. []), fs_inodes = 1, fs_handles = [0 \<mapsto> \<lparr>h_fd = Some 0, h_path = build_path None ''ns''\<rparr>],
     fs_iters = Map.empty, fs_fresh = 1, fs_slots = [\<lparr>sl_label = ''nvs'', sl_inited = True\<rparr>]\<rparr>"

definition no_failures :: sys where
  "no_failures = \<lparr>sys_fails = (\<lambda>_. False), sys_alive = None\<rparr>"

lemma no_failures_good [simp]: "good no_failures n" "all_good no_failures"
  by (simp_all add: no_failures_def good_def all_good_def)

lemma start_fs_disk: "posix_disk start_fs None ''ns'' Map.empty" "posix_sound start_fs 0 None ''ns''"
proof -
  have "file_holds start_fs (build_path None ''ns'') Map.empty"
    by (rule file_holdsI [of _ _ "[]"]) (auto simp: start_fs_def fs_ok_def content_def split: if_splits)
  then show "posix_disk start_fs None ''ns'' Map.empty" by (simp add: posix_disk_def file_holds_def)
  show "posix_sound start_fs 0 None ''ns''"
    by (simp add: posix_sound_def handle_on_def start_fs_def build_path_def)
qed

text \<open>A write to an empty file, without failures.\<close>

lemma set_on_empty:
  assumes "fs_handles s a = Some \<lparr>h_fd = Some i, h_path = P\<rparr>" "fs_data s i = []" "length P < 512"
    and "map_of (fs_dir s) (take 599 (P @ ''.tmp'')) = None" "i < fs_inodes s"
  shows "\<exists>n d. osal_storage_set no_failures (Some a) key val ty s = ((ERR_OK, ()), s\<lparr>fs_inodes := Suc (fs_inodes s),
      fs_data := (fs_data s)(fs_inodes s := enc \<lparr>nr_key = key, nr_value = val, nr_type = type_byte ty\<rparr>),
      fs_dir := d, fs_calls := n,
      fs_handles := (fs_handles s)(a \<mapsto> \<lparr>h_fd = Some (fs_inodes s), h_path = P\<rparr>)\<rparr>) \<and>
    map_of d = (map_of (fs_dir s))(P \<mapsto> fs_inodes s)"
proof -
  let ?T = "take 599 (P @ ''.tmp'')" and ?t = "fs_inodes s"
  let ?r = "\<lparr>nr_key = key, nr_value = val, nr_type = type_byte ty\<rparr>"
  have T: "?T \<noteq> P" using tmp_path_other [OF assms(3)] .
  have copy: "\<exists>n. copy_others no_failures \<lparr>h_fd = Some i, h_path = P\<rparr> key s =
    (Inr (?t, False), s\<lparr>fs_dir := dir_set ?T ?t (fs_dir s), fs_data := (fs_data s)(?t := []),
       fs_inodes := Suc ?t, fs_calls := n\<rparr>)"
    using assms(2,4,5)
    by (simp add: copy_others_def file_open_def sys_call_eq tmp_path_def Let_def records_loop.simps [of _ _ "[]"]
        read_next_record_def file_read_def) blast
  obtain n where copy: "copy_others no_failures \<lparr>h_fd = Some i, h_path = P\<rparr> key s =
    (Inr (?t, False), s\<lparr>fs_dir := dir_set ?T ?t (fs_dir s), fs_data := (fs_data s)(?t := []),
       fs_inodes := Suc ?t, fs_calls := n\<rparr>)" using copy by blast
  let ?s1 = "s\<lparr>fs_dir := dir_set ?T ?t (fs_dir s), fs_data := (fs_data s)(?t := []), fs_inodes := Suc ?t, fs_calls := n\<rparr>"
  obtain rc s2 where w: "write_record no_failures ?t ?r ?s1 = (rc, s2)" by fastforce
  with write_record_writes [where env = no_failures and t = ?t and r = ?r and s = ?s1]
  obtain m where s2: "rc = ERR_OK" "s2 = ?s1\<lparr>fs_calls := m, fs_data := (fs_data s)(?t := enc ?r)\<rparr>"
    by (auto simp: writes_def)
  let ?d = "dir_set P ?t (dir_remove ?T (dir_set ?T ?t (fs_dir s)))"
  have "osal_storage_set no_failures (Some a) key val ty s = ((ERR_OK, ()), s\<lparr>fs_inodes := Suc ?t,
      fs_data := (fs_data s)(?t := enc ?r), fs_dir := ?d, fs_calls := Suc (Suc (Suc m)),
      fs_handles := (fs_handles s)(a \<mapsto> \<lparr>h_fd = Some ?t, h_path = P\<rparr>)\<rparr>)"
    using assms(1) copy w s2
    by (simp add: osal_storage_set_def use_handle_def replace_file_def sys_call_eq file_rename_def file_open_def
        map_of_dir_set set_fd_def tmp_path_def)
  moreover have "map_of ?d = (map_of (fs_dir s))(P \<mapsto> ?t)"
    using assms(4) T by (auto simp: map_of_dir_set map_of_dir_remove fun_eq_iff)
  ultimately show ?thesis by blast
qed

text \<open>A key of sixteen bytes or more is accepted, and nothing of the file can be read any more.\<close>

lemma read_long_key:
  assumes "KEY_MAX_LENGTH \<le> length (nr_key r)" "length (nr_key r) < 2 ^ 16"
  shows "\<exists>bs s'. read_next_record no_failures (enc r @ rest) s = (Failed ERR_FAIL bs, s')"
proof -
  let ?kb = "le_bytes 2 (word_of_nat (length (nr_key r)) :: u16)"
  have kb: "length ?kb = 2" by simp
  then have ne: "?kb \<noteq> []" by (metis list.size(3) zero_neq_numeral)
  obtain vb xs where e: "enc r @ rest = ?kb @ vb @ [nr_type r] @ xs" "length vb = 4"
    by (simp add: enc_def record_chunks_def Let_def)
  have k: "unat (word_of_nat (length (nr_key r)) :: u16) = length (nr_key r)" using assms(2) by (simp add: unat_of_nat)
  have t: "length [nr_type r] = Suc 0" by simp
  show ?thesis
    unfolding e(1) read_next_record_def file_read_app [OF kb]
    by (simp add: ne read_exact_app [OF e(2)] read_exact_app [OF t] k assms(1) Let_def del: append.simps)
qed

lemma long_key_poisons_file:
  assumes "16 \<le> length key" "length key < 2 ^ 16"
  shows "\<exists>s. kv_run no_failures 0 (Kv_set key val ty) start_fs = ((ERR_OK, 0, []), s) \<and>
    (\<forall>k buffer cap. fst (fst (kv_run no_failures 0 (Kv_get k buffer cap) s)) = ERR_FAIL)"
proof -
  let ?r = "\<lparr>nr_key = key, nr_value = val, nr_type = type_byte ty\<rparr>" and ?P = "build_path None ''ns''"
  have P: "length ?P < 512" by (simp add: build_path_def)
  have T: "map_of (fs_dir start_fs) (take 599 (?P @ ''.tmp'')) = None"
    using tmp_path_other [OF P] by (simp add: start_fs_def)
  obtain n d where s: "osal_storage_set no_failures (Some 0) key val ty start_fs = ((ERR_OK, ()),
      start_fs\<lparr>fs_inodes := 2, fs_data := (fs_data start_fs)(1 := enc ?r), fs_dir := d, fs_calls := n,
        fs_handles := (fs_handles start_fs)(0 \<mapsto> \<lparr>h_fd = Some 1, h_path = ?P\<rparr>)\<rparr>)"
    using set_on_empty [of start_fs 0 0 ?P key val ty] P T by (auto simp: start_fs_def numeral_2_eq_2)
  let ?s = "start_fs\<lparr>fs_inodes := 2, fs_data := (fs_data start_fs)(1 := enc ?r), fs_dir := d, fs_calls := n,
        fs_handles := (fs_handles start_fs)(0 \<mapsto> \<lparr>h_fd = Some 1, h_path = ?P\<rparr>)\<rparr>"
  have "fst (fst (kv_run no_failures 0 (Kv_get k buffer cap) ?s)) = ERR_FAIL" for k buffer cap
  proof -
    obtain bs s' where "read_next_record no_failures (enc ?r) (?s\<lparr>fs_calls := Suc n\<rparr>) = (Failed ERR_FAIL bs, s')"
      using read_long_key [of ?r, where rest = "[]" and s = "?s\<lparr>fs_calls := Suc n\<rparr>"] assms
      unfolding KEY_MAX_LENGTH_def by auto
    then show ?thesis
      by (simp add: kv_run_def osal_storage_get_def use_handle_def sys_call_eq records_loop.simps [of _ _ "enc ?r"])
  qed
  then show ?thesis using s by (auto simp: kv_run_def)
qed

text \<open>A second handle on the same namespace keeps rewriting the file it opened: what the first one wrote in
between is lost.\<close>

lemma second_handle_loses_update:
  assumes "key_ok k0" "key_ok k1" "k0 \<noteq> k1"
  defines "s \<equiv> start_fs\<lparr>fs_handles := (fs_handles start_fs)(1 \<mapsto> \<lparr>h_fd = Some 0, h_path = build_path None ''ns''\<rparr>)\<rparr>"
  shows "\<exists>s1 s2. osal_storage_set no_failures (Some 0) k0 v0 ty0 s = ((ERR_OK, ()), s1) \<and>
    osal_storage_set no_failures (Some 1) k1 v1 ty1 s1 = ((ERR_OK, ()), s2) \<and>
    content s2 (build_path None ''ns'') = Some (encs [\<lparr>nr_key = k1, nr_value = v1, nr_type = type_byte ty1\<rparr>])"
proof -
  let ?P = "build_path None ''ns''"
  have P: "length ?P < 512" by (simp add: build_path_def)
  note T = tmp_path_other [OF P]
  obtain n d where 1: "osal_storage_set no_failures (Some 0) k0 v0 ty0 s = ((ERR_OK, ()), s\<lparr>fs_inodes := 2,
      fs_data := (fs_data s)(1 := enc \<lparr>nr_key = k0, nr_value = v0, nr_type = type_byte ty0\<rparr>), fs_dir := d, fs_calls := n,
      fs_handles := (fs_handles s)(0 \<mapsto> \<lparr>h_fd = Some 1, h_path = ?P\<rparr>)\<rparr>)" "map_of d = [?P \<mapsto> 1]"
    using set_on_empty [of s 0 0 ?P k0 v0 ty0] P T by (auto simp: s_def start_fs_def numeral_2_eq_2)
  let ?s1 = "s\<lparr>fs_inodes := 2,
      fs_data := (fs_data s)(1 := enc \<lparr>nr_key = k0, nr_value = v0, nr_type = type_byte ty0\<rparr>), fs_dir := d, fs_calls := n,
      fs_handles := (fs_handles s)(0 \<mapsto> \<lparr>h_fd = Some 1, h_path = ?P\<rparr>)\<rparr>"
  obtain s2 where 2: "osal_storage_set no_failures (Some 1) k1 v1 ty1 ?s1 = ((ERR_OK, ()), s2)"
    "content s2 ?P = Some (enc \<lparr>nr_key = k1, nr_value = v1, nr_type = type_byte ty1\<rparr>)"
    using set_on_empty [of ?s1 1 0 ?P k1 v1 ty1] P T 1(2) by (auto simp: s_def start_fs_def content_def)
  show ?thesis using 1(1) 2 by auto
qed

text \<open>A handle opened for reading only writes, since the mode is not kept.\<close>

lemma read_only_handle_writes:
  "\<exists>s1 s2. osal_storage_open no_failures None ''ns'' OPEN_READONLY start_fs = ((ERR_OK, Some 1), s1) \<and>
    osal_storage_set no_failures (Some 1) key val ty s1 = ((ERR_OK, ()), s2)"
proof -
  let ?P = "build_path None ''ns''"
  have P: "length ?P < 512" by (simp add: build_path_def)
  note T = tmp_path_other [OF P]
  let ?s1 = "start_fs\<lparr>fs_calls := 3, fs_handles := (fs_handles start_fs)(1 \<mapsto> \<lparr>h_fd = Some 0, h_path = ?P\<rparr>), fs_fresh := 2\<rparr>"
  have "osal_storage_open no_failures None ''ns'' OPEN_READONLY start_fs = ((ERR_OK, Some 1), ?s1)"
    by (simp add: osal_storage_open_def start_fs_def sys_call_eq ensure_base_dir_def file_open_def
        partition_inited_locked_def normalize_partition_name_def slot_named_def k_base_dir_default_def Let_def)
  moreover have "\<exists>s2. osal_storage_set no_failures (Some 1) key val ty ?s1 = ((ERR_OK, ()), s2)"
    using set_on_empty [of ?s1 1 0 ?P key val ty] P T by (auto simp: start_fs_def)
  ultimately show ?thesis by blast
qed

text \<open>The reset of a partition removes the files of partitions whose name continues it after a dash.\<close>

lemma reset_takes_other_partition:
  "build_path (Some ''nvs-x'') ''ns'' = k_base_dir @ ''/'' @ ''nvs-x-ns.bin''" "belongs_to ''nvs'' ''nvs-x-ns.bin''"
  by (simp_all add: build_path_def k_base_dir_def belongs_to_def)

text \<open>A search for entries of a type that finds none succeeds, where the interface promises an error.\<close>

lemma empty_search_succeeds:
  "\<exists>it s. osal_storage_entry_find no_failures None ''ns'' TYPE_U8 start_fs = ((ERR_OK, Some it), s)"
  by (simp add: osal_storage_entry_find_def start_fs_def sys_call_eq ensure_base_dir_def file_open_def entry_next_def
      next_loop.simps [of _ "[]"] read_next_record_def file_read_def type_byte_def
      partition_inited_locked_def normalize_partition_name_def slot_named_def k_base_dir_default_def Let_def)

section \<open>The main property\<close>



end
