(* ===== verification/Storage_Reliable.thy ===== *)
theory Storage_Reliable
  imports Storage_Map
begin

text \<open>The POSIX storage is reliable when no system call and no allocation fails: the partition it was
initialised with stays initialised through every operation on its handles.\<close>

section \<open>The partitions stay as they are\<close>

lemma slots_sys_call: "sys_call env s = (ok, s') \<Longrightarrow> fs_slots s' = fs_slots s"
  by (auto simp: sys_call_eq)

lemma slots_file_read: "file_read env n bs s = (x, s') \<Longrightarrow> fs_slots s' = fs_slots s"
  by (auto simp: file_read_def sys_call_eq split: if_splits)

lemma slots_read_exact: "read_exact env n bs s = (x, s') \<Longrightarrow> fs_slots s' = fs_slots s"
  by (auto simp: read_exact_def dest: slots_file_read split: prod.splits option.splits if_splits)

lemma slots_read_next_record: "read_next_record env bs s = (x, s') \<Longrightarrow> fs_slots s' = fs_slots s"
  unfolding read_next_record_def
  by (auto simp: Let_def dest!: slots_read_exact slots_file_read slots_sys_call split: prod.splits option.splits if_splits)

lemma slots_records_loop:
  assumes "\<And>r a s x s'. body r a s = (x, s') \<Longrightarrow> fs_slots s' = fs_slots s"
  shows "records_loop env body bs a s = (x, s') \<Longrightarrow> fs_slots s' = fs_slots s"
proof (induction bs arbitrary: a s rule: length_induct)
  case (1 bs)
  obtain r s1 where 2: "read_next_record env bs s = (r, s1)" by fastforce
  show ?case
  proof (cases r)
    case (Got rc rest)
    obtain y s2 where 3: "body rc a s1 = (y, s2)" by fastforce
    show ?thesis
      using 1 2 3 Got assms [OF 3] slots_read_next_record [OF 2] read_next_record_shrinks [of env bs s rc rest s1]
      by (cases y) (auto simp: records_loop.simps [of env body bs])
  next
    case (Failed e rest)
    then show ?thesis using 1(2) 2 slots_read_next_record [OF 2]
      by (auto simp: records_loop.simps [of env body bs])
  qed
qed

lemma slots_file_open: "file_open env path creat trunc s = (x, s') \<Longrightarrow> fs_slots s' = fs_slots s"
  by (auto simp: file_open_def sys_call_eq Let_def split: option.splits if_splits)

lemma slots_unlink: "fs_slots (snd (file_unlink env p s)) = fs_slots s"
  by (auto simp: file_unlink_def sys_call_eq)

lemma slots_rename: "file_rename env p q s = (x, s') \<Longrightarrow> fs_slots s' = fs_slots s"
  by (auto simp: file_rename_def sys_call_eq split: option.splits if_splits)

lemma slots_write_all: "write_all env i bss s = (ok, s') \<Longrightarrow> fs_slots s' = fs_slots s"
  by (induction bss arbitrary: s) (auto simp: sys_call_eq file_append_def split: if_splits)

lemma slots_write_record: "write_record env i r s = (rc, s') \<Longrightarrow> fs_slots s' = fs_slots s"
  by (auto simp: write_record_def dest: slots_write_all split: prod.splits)

lemma slots_copy_others: "copy_others env hb key s = (x, s') \<Longrightarrow> fs_slots s' = fs_slots s"
proof -
  have b: "body_copy env t key r found u = (y, u') \<Longrightarrow> fs_slots u' = fs_slots u" for t r found u y u'
    by (auto simp: body_copy_def dest: slots_write_record split: prod.splits if_splits)
  show "copy_others env hb key s = (x, s') \<Longrightarrow> fs_slots s' = fs_slots s"
    unfolding copy_others_def
    by (auto simp: slots_unlink dest!: slots_file_open slots_sys_call slots_records_loop [OF b, rotated]
        split: prod.splits option.splits if_splits sum.splits opened.splits)
qed

lemma slots_replace_file: "replace_file env a hb tp rc s = (x, s') \<Longrightarrow> fs_slots s' = fs_slots s"
  unfolding replace_file_def
  by (auto simp: slots_unlink set_fd_def dest!: slots_sys_call slots_file_open slots_rename
      split: prod.splits if_splits opened.splits)

lemma slots_get: "osal_storage_get env h key buffer cap s = (x, s') \<Longrightarrow> fs_slots s' = fs_slots s"
proof -
  have b: "body_get key r p u = (y, u') \<Longrightarrow> fs_slots u' = fs_slots u" for r p u y u'
    by (auto simp: body_get_def)
  show "osal_storage_get env h key buffer cap s = (x, s') \<Longrightarrow> fs_slots s' = fs_slots s"
    unfolding osal_storage_get_def use_handle_def
    by (auto dest!: slots_sys_call slots_records_loop [OF b, rotated]
        split: prod.splits option.splits if_splits sum.splits)
qed

lemma slots_set: "osal_storage_set env h key val ty s = (x, s') \<Longrightarrow> fs_slots s' = fs_slots s"
  unfolding osal_storage_set_def use_handle_def
  by (auto simp: slots_unlink dest!: slots_copy_others slots_write_record slots_replace_file
      split: prod.splits option.splits if_splits sum.splits)

lemma slots_erase: "osal_storage_erase env h key s = (x, s') \<Longrightarrow> fs_slots s' = fs_slots s"
  unfolding osal_storage_erase_def use_handle_def
  by (auto dest!: slots_copy_others slots_replace_file split: prod.splits option.splits sum.splits)

lemma slots_run: "kv_run env a oper s = (x, s') \<Longrightarrow> fs_slots s' = fs_slots s"
  by (auto simp: kv_run_def osal_storage_erase_all_def osal_storage_commit_def use_handle_def sys_call_eq
      dest!: slots_get slots_set slots_erase split: kv_op.splits prod.splits option.splits if_splits)

lemma slots_close: "fs_slots (snd (osal_storage_close env h s)) = fs_slots s"
  by (auto simp: osal_storage_close_def use_handle_def sys_call_eq split: option.splits)

section \<open>Opening without failures\<close>

definition posix_ready :: "sys \<Rightarrow> fs \<Rightarrow> string option \<Rightarrow> bool" where
  "posix_ready env s p \<longleftrightarrow> all_good env \<and> partition_inited_locked (normalize_partition_name p) s"

lemma inited_cong: "fs_slots s' = fs_slots s \<Longrightarrow> partition_inited_locked n s' = partition_inited_locked n s"
  by (simp add: partition_inited_locked_def)

lemma open_ready:
  assumes "posix_ready env s p" "ns \<noteq> ''''" "osal_storage_open env p ns OPEN_READWRITE s = ((rc, ho), s')"
  shows "rc = ERR_OK \<and> fs_slots s' = fs_slots s"
proof -
  have g: "good env n" for n using assms(1) by (simp add: posix_ready_def all_good_def)
  have part: "partition_inited_locked (normalize_partition_name p) s" using assms(1) by (simp add: posix_ready_def)
  obtain s2 where 2: "ensure_base_dir env (s\<lparr>fs_calls := Suc (fs_calls s)\<rparr>) = (ERR_OK, s2)" "fs_slots s2 = fs_slots s"
    by (cases "fs_base s") (auto simp: ensure_base_dir_def sys_call_eq g)
  obtain i s3 where 3: "file_open env (build_path p ns) True False s2 = (Opened i, s3)"
    by (cases "map_of (fs_dir s2) (build_path p ns)") (auto simp: file_open_def sys_call_eq g Let_def)
  show ?thesis
    using assms(2,3) part 2 3 slots_file_open [OF 3]
    by (auto simp: osal_storage_open_def Let_def sys_call_eq g)
qed

interpretation reliable: reliable_storage "posix_ops env" posix_disk posix_opened "posix_ready env" posix_sound
proof unfold_locales
  fix s p ns m rc ho s'
  assume "posix_disk s p ns m" "posix_ready env s p" "ns \<noteq> ''''"
    "so_open (posix_ops env) p ns OPEN_READWRITE s = ((rc, ho), s')"
  then show "rc = ERR_OK \<and> posix_ready env s' p \<and> (\<exists>h. ho = Some h \<and> posix_sound s' h p ns)"
    using open_ready [of env s p ns rc ho s'] inited_cong [of s' s] posix_open [of s p ns m env OPEN_READWRITE rc ho s']
    by (simp add: posix_ops_def posix_ready_def)
next
  fix s p ns m h oper rc n bs s'
  assume a: "posix_disk s p ns m" "posix_sound s h p ns" "posix_ready env s p" "kv_valid oper"
    "so_run (posix_ops env) h oper s = ((rc, n, bs), s')"
  then have 1: "kv_run env h oper s = ((rc, n, bs), s')" by (simp add: posix_ops_def)
  from posix_run [OF a(1) posix_sound_opened [OF a(2)] a(4) 1]
  show "posix_ready env s' p \<and> posix_sound s' h p ns \<and> (rc = ERR_OK \<or> rc = ERR_NVS_KEY_NOT_FOUND \<or>
      rc = ERR_NO_MEM \<and> (\<exists>key cap t v. oper = Kv_get key True cap \<and> m key = Some (t, v) \<and> cap < length v))"
    using a(2,3) inited_cong [OF slots_run [OF 1]] by (simp add: posix_ready_def)
next
  fix s h p ns
  assume "posix_sound s h p ns"
  then show "posix_opened s h p ns" by (rule posix_sound_opened)
next
  fix s p h
  assume "posix_ready env s p"
  then show "posix_ready env (so_close (posix_ops env) h s) p"
    using inited_cong [OF slots_close] by (simp add: posix_ready_def posix_ops_def)
qed

end
