(* ===== verification/Nvs.thy ===== *)
theory Nvs
  imports Storage_Reliable
begin

text \<open>The convenience functions over the key-value storage (\<^verbatim>\<open>esp_rmaker_neo_common/src/util/nvs.c\<close>): typed
reads and writes on a handle, and the same with opening and closing around them. They are written against the
operations of \<^verbatim>\<open>osal_storage.h\<close> (the record \<open>ops\<close>); their lemmas hold under the contract of the storage, and
the properties are those for the POSIX storage, by its interpretation. \<open>alloc\<close> is the answer to the one
allocation of a read of bytes; pointers are not \<^verbatim>\<open>NULL\<close>. Bytes of a value shorter than the variable read
leave the rest of the variable as it was initialised.\<close>

section \<open>Helpers\<close>

definition rmk_from_nvs_get :: "err \<Rightarrow> err" where
  "rmk_from_nvs_get e =
    (if e = ERR_OK then ERR_OK else if e = ERR_NVS_KEY_NOT_FOUND then ERR_NOT_FOUND else ERR_FAIL)"

definition commit_after_set :: "('h, 's) storage_ops \<Rightarrow> 'h \<Rightarrow> err \<Rightarrow> 's \<Rightarrow> err \<times> 's" where
  "commit_after_set ops h set_err s =
    (if set_err \<noteq> ERR_OK then (ERR_FAIL, s)
     else case so_run ops h Kv_commit s of ((e, _), s1) \<Rightarrow> (if e \<noteq> ERR_OK then ERR_FAIL else ERR_OK, s1))"

text \<open>The result is the buffer and the length passed out.\<close>

definition nvs_read_blob_alloc ::
  "('h, 's) storage_ops \<Rightarrow> bool \<Rightarrow> 'h \<Rightarrow> byte list \<Rightarrow> bool \<Rightarrow> 's \<Rightarrow> (byte list \<times> nat) option \<times> 's" where
  "nvs_read_blob_alloc ops alloc h key nul s =
    (case so_run ops h (Kv_get key False 0) s of ((e, len, _), s1) \<Rightarrow>
     if e \<noteq> ERR_OK then (None, s1)
     else if \<not> alloc then (None, s1)
     else case so_run ops h (Kv_get key True len) s1 of ((e2, len2, bs), s2) \<Rightarrow>
       if e2 \<noteq> ERR_OK then (None, s2) else (Some (bs @ (if nul then [0] else []), len2), s2))"

definition esp_rmaker_load_nvs_handle ::
  "('h, 's) storage_ops \<Rightarrow> string option \<Rightarrow> string \<Rightarrow> 's \<Rightarrow> (err \<times> 'h option) \<times> 's" where
  "esp_rmaker_load_nvs_handle ops p ns s =
    (case so_open ops p ns OPEN_READWRITE s of ((e, h), s1) \<Rightarrow>
      ((if e = ERR_OK then ERR_OK else ERR_FAIL, if e = ERR_OK then h else None), s1))"

definition esp_rmaker_clear_nvs_namespace :: "('h, 's) storage_ops \<Rightarrow> string option \<Rightarrow> string \<Rightarrow> 's \<Rightarrow> err \<times> 's" where
  "esp_rmaker_clear_nvs_namespace ops p ns s =
    (case so_open ops p ns OPEN_READWRITE s of ((e, h), s1) \<Rightarrow>
     if e = ERR_NVS_NAMESPACE_NOT_FOUND then (ERR_OK, s1)
     else case (e = ERR_OK, h) of
       (True, Some h) \<Rightarrow>
         (case so_run ops h Kv_erase_all s1 of ((e2, _), s2) \<Rightarrow>
          if e2 \<noteq> ERR_OK then (ERR_FAIL, so_close ops h s2)
          else case so_run ops h Kv_commit s2 of ((e3, _), s3) \<Rightarrow>
            (if e3 \<noteq> ERR_OK then ERR_FAIL else ERR_OK, so_close ops h s3))
     | _ \<Rightarrow> (ERR_FAIL, s1))"

section \<open>Typed access on a handle\<close>

definition update_with_handle ::
  "('h, 's) storage_ops \<Rightarrow> 'h \<Rightarrow> byte list \<Rightarrow> byte list \<Rightarrow> storage_type \<Rightarrow> 's \<Rightarrow> err \<times> 's" where
  "update_with_handle ops h key val ty s =
    (case so_run ops h (Kv_set key val ty) s of ((e, _), s1) \<Rightarrow> commit_after_set ops h e s1)"

definition esp_rmaker_nvs_update_bool_with_handle ::
  "('h, 's) storage_ops \<Rightarrow> 'h \<Rightarrow> byte list \<Rightarrow> bool \<Rightarrow> 's \<Rightarrow> err \<times> 's" where
  "esp_rmaker_nvs_update_bool_with_handle ops h key v s =
    update_with_handle ops h key [if v then 1 else 0] TYPE_BINARY s"

definition esp_rmaker_nvs_update_u16_with_handle ::
  "('h, 's) storage_ops \<Rightarrow> 'h \<Rightarrow> byte list \<Rightarrow> u16 \<Rightarrow> 's \<Rightarrow> err \<times> 's" where
  "esp_rmaker_nvs_update_u16_with_handle ops h key v s = update_with_handle ops h key (le_bytes 2 v) TYPE_U16 s"

definition esp_rmaker_nvs_update_int_with_handle ::
  "('h, 's) storage_ops \<Rightarrow> 'h \<Rightarrow> byte list \<Rightarrow> u32 \<Rightarrow> 's \<Rightarrow> err \<times> 's" where
  "esp_rmaker_nvs_update_int_with_handle ops h key v s = update_with_handle ops h key (le_bytes 4 v) TYPE_I32 s"

text \<open>A string is written without its terminator.\<close>

definition esp_rmaker_nvs_update_string_with_handle ::
  "('h, 's) storage_ops \<Rightarrow> 'h \<Rightarrow> byte list \<Rightarrow> byte list \<Rightarrow> 's \<Rightarrow> err \<times> 's" where
  "esp_rmaker_nvs_update_string_with_handle ops h key v s = update_with_handle ops h key v TYPE_BINARY s"

definition esp_rmaker_nvs_update_binary_with_handle ::
  "('h, 's) storage_ops \<Rightarrow> 'h \<Rightarrow> byte list \<Rightarrow> byte list \<Rightarrow> 's \<Rightarrow> err \<times> 's" where
  "esp_rmaker_nvs_update_binary_with_handle ops h key v s = update_with_handle ops h key v TYPE_BINARY s"

text \<open>A read of a variable of \<open>n\<close> bytes with the given initial bytes.\<close>

definition get_with_handle ::
  "('h, 's) storage_ops \<Rightarrow> 'h \<Rightarrow> byte list \<Rightarrow> byte list \<Rightarrow> 's \<Rightarrow> (err \<times> byte list) \<times> 's" where
  "get_with_handle ops h key init s =
    (case so_run ops h (Kv_get key True (length init)) s of ((e, _, bs), s1) \<Rightarrow>
      ((rmk_from_nvs_get e, mem_write init 0 bs), s1))"

definition esp_rmaker_nvs_get_bool_with_handle ::
  "('h, 's) storage_ops \<Rightarrow> 'h \<Rightarrow> byte list \<Rightarrow> bool \<Rightarrow> 's \<Rightarrow> (err \<times> bool) \<times> 's" where
  "esp_rmaker_nvs_get_bool_with_handle ops h key val s =
    (case get_with_handle ops h key [0] s of ((r, bs), s1) \<Rightarrow>
      ((r, if r = ERR_OK then hd bs \<noteq> 0 else val), s1))"

definition esp_rmaker_nvs_get_u16_with_handle ::
  "('h, 's) storage_ops \<Rightarrow> 'h \<Rightarrow> byte list \<Rightarrow> u16 \<Rightarrow> 's \<Rightarrow> (err \<times> u16) \<times> 's" where
  "esp_rmaker_nvs_get_u16_with_handle ops h key val s =
    (case get_with_handle ops h key [0, 0] s of ((r, bs), s1) \<Rightarrow>
      ((r, if r = ERR_OK then of_le_bytes bs else val), s1))"

definition esp_rmaker_nvs_get_int_with_handle ::
  "('h, 's) storage_ops \<Rightarrow> 'h \<Rightarrow> byte list \<Rightarrow> u32 \<Rightarrow> 's \<Rightarrow> (err \<times> u32) \<times> 's" where
  "esp_rmaker_nvs_get_int_with_handle ops h key val s =
    (case get_with_handle ops h key [0xFF, 0xFF, 0xFF, 0xFF] s of ((r, bs), s1) \<Rightarrow>
      ((r, if r = ERR_OK then of_le_bytes bs else val), s1))"

definition esp_rmaker_nvs_get_int_default_with_handle ::
  "('h, 's) storage_ops \<Rightarrow> 'h \<Rightarrow> byte list \<Rightarrow> u32 \<Rightarrow> 's \<Rightarrow> u32 \<times> 's" where
  "esp_rmaker_nvs_get_int_default_with_handle ops h key dflt s =
    (case esp_rmaker_nvs_get_int_with_handle ops h key dflt s of ((r, v), s1) \<Rightarrow>
      (if r = ERR_OK then v else dflt, s1))"

definition esp_rmaker_nvs_get_string_with_handle ::
  "('h, 's) storage_ops \<Rightarrow> bool \<Rightarrow> 'h \<Rightarrow> byte list \<Rightarrow> 's \<Rightarrow> byte list option \<times> 's" where
  "esp_rmaker_nvs_get_string_with_handle ops alloc h key s =
    (case nvs_read_blob_alloc ops alloc h key True s of (r, s1) \<Rightarrow> (map_option fst r, s1))"

definition esp_rmaker_nvs_get_binary_with_handle ::
  "('h, 's) storage_ops \<Rightarrow> bool \<Rightarrow> 'h \<Rightarrow> byte list \<Rightarrow> 's \<Rightarrow> (byte list \<times> nat) option \<times> 's" where
  "esp_rmaker_nvs_get_binary_with_handle ops alloc h key s = nvs_read_blob_alloc ops alloc h key True s"

section \<open>The same by names\<close>

text \<open>Open, run the function on the handle, close; the value returned when the namespace cannot be opened.\<close>

definition with_open ::
  "('h, 's) storage_ops \<Rightarrow> string option \<Rightarrow> string \<Rightarrow> open_mode \<Rightarrow> 'a \<Rightarrow> ('h \<Rightarrow> 's \<Rightarrow> 'a \<times> 's) \<Rightarrow> 's \<Rightarrow> 'a \<times> 's" where
  "with_open ops p ns mode fail f s =
    (case so_open ops p ns mode s of ((e, h), s1) \<Rightarrow>
     (case (e = ERR_OK, h) of
        (True, Some h) \<Rightarrow> (case f h s1 of (x, s2) \<Rightarrow> (x, so_close ops h s2))
      | _ \<Rightarrow> (fail, s1)))"

definition esp_rmaker_nvs_update_bool where
  "esp_rmaker_nvs_update_bool ops p ns key v =
    with_open ops p ns OPEN_READWRITE ERR_FAIL (\<lambda>h. esp_rmaker_nvs_update_bool_with_handle ops h key v)"

definition esp_rmaker_nvs_update_u16 where
  "esp_rmaker_nvs_update_u16 ops p ns key v =
    with_open ops p ns OPEN_READWRITE ERR_FAIL (\<lambda>h. esp_rmaker_nvs_update_u16_with_handle ops h key v)"

definition esp_rmaker_nvs_update_int where
  "esp_rmaker_nvs_update_int ops p ns key v =
    with_open ops p ns OPEN_READWRITE ERR_FAIL (\<lambda>h. esp_rmaker_nvs_update_int_with_handle ops h key v)"

definition esp_rmaker_nvs_update_string where
  "esp_rmaker_nvs_update_string ops p ns key v =
    with_open ops p ns OPEN_READWRITE ERR_FAIL (\<lambda>h. esp_rmaker_nvs_update_string_with_handle ops h key v)"

definition esp_rmaker_nvs_update_binary where
  "esp_rmaker_nvs_update_binary ops p ns key v =
    with_open ops p ns OPEN_READWRITE ERR_FAIL (\<lambda>h. esp_rmaker_nvs_update_binary_with_handle ops h key v)"

definition esp_rmaker_nvs_get_bool where
  "esp_rmaker_nvs_get_bool ops p ns key v =
    with_open ops p ns OPEN_READONLY (ERR_FAIL, v) (\<lambda>h. esp_rmaker_nvs_get_bool_with_handle ops h key v)"

definition esp_rmaker_nvs_get_u16 where
  "esp_rmaker_nvs_get_u16 ops p ns key v =
    with_open ops p ns OPEN_READONLY (ERR_FAIL, v) (\<lambda>h. esp_rmaker_nvs_get_u16_with_handle ops h key v)"

definition esp_rmaker_nvs_get_int where
  "esp_rmaker_nvs_get_int ops p ns key v =
    with_open ops p ns OPEN_READONLY (ERR_FAIL, v) (\<lambda>h. esp_rmaker_nvs_get_int_with_handle ops h key v)"

definition esp_rmaker_nvs_get_int_default where
  "esp_rmaker_nvs_get_int_default ops p ns key dflt =
    with_open ops p ns OPEN_READONLY dflt (\<lambda>h. esp_rmaker_nvs_get_int_default_with_handle ops h key dflt)"

definition esp_rmaker_nvs_get_string where
  "esp_rmaker_nvs_get_string ops alloc p ns key =
    with_open ops p ns OPEN_READONLY None (\<lambda>h. esp_rmaker_nvs_get_string_with_handle ops alloc h key)"

definition esp_rmaker_nvs_get_binary where
  "esp_rmaker_nvs_get_binary ops alloc p ns key =
    with_open ops p ns OPEN_READONLY None (\<lambda>h. esp_rmaker_nvs_get_binary_with_handle ops alloc h key)"

section \<open>What the functions promise\<close>

context kv_storage
begin

lemma update_with_handle_cases:
  assumes "disk s p ns m" "opened s h p ns" "key_ok key" "length val < 2 ^ 32"
    and "update_with_handle ops h key val ty s = (rc, s')"
  shows "opened s' h p ns \<and> (rc = ERR_OK \<and> disk s' p ns (m(key \<mapsto> (type_byte ty, val))) \<or>
    rc = ERR_FAIL \<and> (disk s' p ns m \<or> disk s' p ns (m(key \<mapsto> (type_byte ty, val)))))"
proof -
  obtain rc1 n1 bs1 s1 where 1: "so_run ops h (Kv_set key val ty) s = ((rc1, n1, bs1), s1)" by (metis prod.exhaust)
  obtain rc2 n2 bs2 s2 where 2: "so_run ops h Kv_commit s1 = ((rc2, n2, bs2), s2)" by (metis prod.exhaust)
  from set_writes [OF assms(1-4) 1] show ?thesis
    using assms(5) 1 2 commit_keeps [OF _ _ 2, of p ns]
    by (auto simp: update_with_handle_def commit_after_set_def split: if_splits)
qed

lemma get_with_handle_cases:
  assumes "disk s p ns m" "opened s h p ns" "key_ok key" "get_with_handle ops h key init s = ((rc, out), s')"
  shows "disk s' p ns m \<and> opened s' h p ns \<and>
    (rc = ERR_OK \<and> (\<exists>ty v. m key = Some (ty, v) \<and> length v \<le> length init \<and> out = mem_write init 0 v) \<or>
     rc = ERR_NOT_FOUND \<and> m key = None \<or> rc = ERR_FAIL)"
proof -
  obtain rc1 n1 bs1 s1 where 1: "so_run ops h (Kv_get key True (length init)) s = ((rc1, n1, bs1), s1)"
    by (metis prod.exhaust)
  from get_keeps [OF assms(1-3) 1] assms(4) 1 show ?thesis
    by (auto simp: get_with_handle_def rmk_from_nvs_get_def split: option.splits)
qed

lemma read_blob_cases:
  assumes "disk s p ns m" "opened s h p ns" "key_ok key" "nvs_read_blob_alloc ops alloc h key nul s = (r, s')"
  shows "disk s' p ns m \<and> opened s' h p ns \<and> (r = None \<or>
    (\<exists>ty v. m key = Some (ty, v) \<and> r = Some (v @ (if nul then [0] else []), length v)))"
proof -
  obtain rc1 n1 bs1 s1 where 1: "so_run ops h (Kv_get key False 0) s = ((rc1, n1, bs1), s1)" by (metis prod.exhaust)
  obtain rc2 n2 bs2 s2 where 2: "so_run ops h (Kv_get key True n1) s1 = ((rc2, n2, bs2), s2)" by (metis prod.exhaust)
  note k1 = get_keeps [OF assms(1-3) 1]
  from get_keeps [OF k1(1,3) assms(3) 2] k1 assms(4) 1 2 show ?thesis
    by (auto simp: nvs_read_blob_alloc_def split: option.splits if_splits)
qed

lemma load_handle_cases:
  assumes "disk s p ns m" "ns \<noteq> ''''" "esp_rmaker_load_nvs_handle ops p ns s = ((rc, ho), s')"
  shows "disk s' p ns m \<and> (rc = ERR_OK \<and> (\<exists>h. ho = Some h \<and> opened s' h p ns) \<or> rc = ERR_FAIL \<and> ho = None)"
proof -
  obtain rc1 ho1 s1 where 1: "so_open ops p ns OPEN_READWRITE s = ((rc1, ho1), s1)" by (metis prod.exhaust)
  from open_law [OF assms(1,2) 1] assms(3) 1 show ?thesis
    by (auto simp: esp_rmaker_load_nvs_handle_def split: if_splits)
qed

text \<open>A function between open and close: what holds of its result and the contents it leaves, holds after.\<close>

lemma with_open_cases:
  assumes "disk s p ns m" "ns \<noteq> ''''" "with_open ops p ns mode bad f s = (x, s')"
    and "\<And>h s1 x s2. disk s1 p ns m \<Longrightarrow> opened s1 h p ns \<Longrightarrow> f h s1 = (x, s2) \<Longrightarrow> \<exists>m'. disk s2 p ns m' \<and> Q x m'"
  shows "x = bad \<and> disk s' p ns m \<or> (\<exists>m'. disk s' p ns m' \<and> Q x m')"
proof -
  obtain rc1 ho1 s1 where 1: "so_open ops p ns mode s = ((rc1, ho1), s1)" by (metis prod.exhaust)
  note o1 = open_law [OF assms(1,2) 1]
  show ?thesis
  proof (cases "rc1 = ERR_OK")
    case True
    then obtain h where h: "ho1 = Some h" "opened s1 h p ns" using o1 by auto
    obtain x2 s2 where 2: "f h s1 = (x2, s2)" by (metis prod.exhaust)
    from assms(4) [OF conjunct1 [OF o1] h(2) 2] assms(3) 1 2 True h(1) show ?thesis
      by (auto simp: with_open_def dest: close_law)
  next
    case False
    then show ?thesis using assms(3) 1 o1 by (auto simp: with_open_def)
  qed
qed

lemma clear_cases:
  assumes "disk s p ns m" "ns \<noteq> ''''" "esp_rmaker_clear_nvs_namespace ops p ns s = (rc, s')"
  shows "(rc = ERR_OK \<or> rc = ERR_FAIL) \<and> (disk s' p ns Map.empty \<or> disk s' p ns m)"
proof -
  obtain rc1 ho1 s1 where 1: "so_open ops p ns OPEN_READWRITE s = ((rc1, ho1), s1)" by (metis prod.exhaust)
  note o1 = open_law [OF assms(1,2) 1]
  show ?thesis
  proof (cases "rc1 = ERR_OK")
    case True
    then obtain h where h: "ho1 = Some h" "opened s1 h p ns" using o1 by auto
    obtain rc2 n2 bs2 s2 where 2: "so_run ops h Kv_erase_all s1 = ((rc2, n2, bs2), s2)" by (metis prod.exhaust)
    obtain rc3 n3 bs3 s3 where 3: "so_run ops h Kv_commit s2 = ((rc3, n3, bs3), s3)" by (metis prod.exhaust)
    from run_law [OF conjunct1 [OF o1] h(2) _ 2]
    have d2: "disk s2 p ns Map.empty \<or> disk s2 p ns m" "opened s2 h p ns" by auto
    then have d3: "disk s3 p ns Map.empty \<or> disk s3 p ns m" using commit_keeps [OF _ _ 3] by blast
    show ?thesis
      using assms(3) 1 2 3 True h(1) close_law d2(1) d3
      by (auto simp: esp_rmaker_clear_nvs_namespace_def split: if_splits)
  next
    case False
    then show ?thesis using assms(3) 1 o1
      by (auto simp: esp_rmaker_clear_nvs_namespace_def split: if_splits)
  qed
qed

end

text \<open>On a reliable storage the functions do their work.\<close>

context reliable_storage
begin

lemma update_with_handle_good:
  assumes "disk s p ns m" "sound s h p ns" "ready s p" "key_ok key" "length val < 2 ^ 32"
  shows "\<exists>s'. update_with_handle ops h key val ty s = (ERR_OK, s') \<and> disk s' p ns (m(key \<mapsto> (type_byte ty, val))) \<and>
    sound s' h p ns \<and> ready s' p"
proof -
  obtain rc1 n1 bs1 s1 where 1: "so_run ops h (Kv_set key val ty) s = ((rc1, n1, bs1), s1)" by (metis prod.exhaust)
  obtain rc2 n2 bs2 s2 where 2: "so_run ops h Kv_commit s1 = ((rc2, n2, bs2), s2)" by (metis prod.exhaust)
  have v: "kv_valid (Kv_set key val ty)" using assms(4,5) by simp
  from run_good [OF assms(1-3) v 1] run_law [OF assms(1) sound_opened [OF assms(2)] v 1]
  have r1: "rc1 = ERR_OK" "disk s1 p ns (m(key \<mapsto> (type_byte ty, val)))" "sound s1 h p ns" "ready s1 p" by auto
  from run_good [OF r1(2-4) _ 2] run_law [OF r1(2) sound_opened [OF r1(3)] _ 2]
  have "rc2 = ERR_OK" "disk s2 p ns (m(key \<mapsto> (type_byte ty, val)))" "sound s2 h p ns" "ready s2 p" by auto
  then show ?thesis using 1 2 r1(1) by (auto simp: update_with_handle_def commit_after_set_def)
qed

lemma read_blob_good:
  assumes "disk s p ns m" "sound s h p ns" "ready s p" "key_ok key" "m key = Some (t, v)"
  shows "\<exists>s'. nvs_read_blob_alloc ops True h key nul s = (Some (v @ (if nul then [0] else []), length v), s') \<and>
    disk s' p ns m \<and> sound s' h p ns \<and> ready s' p"
proof -
  obtain rc1 n1 bs1 s1 where 1: "so_run ops h (Kv_get key False 0) s = ((rc1, n1, bs1), s1)" by (metis prod.exhaust)
  obtain rc2 n2 bs2 s2 where 2: "so_run ops h (Kv_get key True n1) s1 = ((rc2, n2, bs2), s2)" by (metis prod.exhaust)
  have k: "kv_valid (Kv_get key False 0)" "kv_valid (Kv_get key True n1)" using assms(4) by simp_all
  from run_good [OF assms(1-3) k(1) 1] run_law [OF assms(1) sound_opened [OF assms(2)] k(1) 1] assms(5)
  have r1: "rc1 = ERR_OK" "n1 = length v" "disk s1 p ns m" "sound s1 h p ns" "ready s1 p" by auto
  from run_good [OF r1(3-5) k(2) 2] run_law [OF r1(3) sound_opened [OF r1(4)] k(2) 2] assms(5) r1(2)
  have "rc2 = ERR_OK" "n2 = length v" "bs2 = v" "disk s2 p ns m" "sound s2 h p ns" "ready s2 p" by auto
  then show ?thesis using 1 2 r1(1) by (auto simp: nvs_read_blob_alloc_def)
qed

lemma get_with_handle_good:
  assumes "disk s p ns m" "sound s h p ns" "ready s p" "key_ok key" "m key = Some (t, v)" "length v \<le> length init"
  shows "\<exists>s'. get_with_handle ops h key init s = ((ERR_OK, mem_write init 0 v), s') \<and>
    disk s' p ns m \<and> sound s' h p ns \<and> ready s' p"
proof -
  obtain rc1 n1 bs1 s1 where 1: "so_run ops h (Kv_get key True (length init)) s = ((rc1, n1, bs1), s1)"
    by (metis prod.exhaust)
  have k: "kv_valid (Kv_get key True (length init))" using assms(4) by simp
  from run_good [OF assms(1-3) k 1] run_law [OF assms(1) sound_opened [OF assms(2)] k 1] assms(5,6)
  have "rc1 = ERR_OK" "bs1 = v" "disk s1 p ns m" "sound s1 h p ns" "ready s1 p" by auto
  then show ?thesis using 1 by (simp add: get_with_handle_def rmk_from_nvs_get_def)
qed

lemma load_handle_good:
  assumes "disk s p ns m" "ready s p" "ns \<noteq> ''''"
  shows "\<exists>h s'. esp_rmaker_load_nvs_handle ops p ns s = ((ERR_OK, Some h), s') \<and>
    disk s' p ns m \<and> sound s' h p ns \<and> ready s' p"
proof -
  obtain rc1 ho1 s1 where 1: "so_open ops p ns OPEN_READWRITE s = ((rc1, ho1), s1)" by (metis prod.exhaust)
  from open_good [OF assms 1] open_law [OF assms(1,3) 1] 1 show ?thesis
    by (auto simp: esp_rmaker_load_nvs_handle_def)
qed

end

end
