(* ===== verification/Ota_Nvs.thy ===== *)
theory Ota_Nvs
  imports Nvs
begin

text \<open>What the update engine keeps over a reboot (\<^verbatim>\<open>ota_nvs.c\<close>): the job whose image waits for its
verification, the flags with the verdict, and the descriptor and tracker of an interrupted download. The
namespace keeps its layout whatever fails, a descriptor and tracker that were saved are loaded again, and the
order of the two writes decides what an interrupted save leaves.\<close>

section \<open>Keys\<close>

definition RMAKER_NVS_PART_NAME :: "string option" where
  "RMAKER_NVS_PART_NAME = Some ''nvs''"

definition RMAKER_NVS_OTA_NAMESPACE :: string where
  "RMAKER_NVS_OTA_NAMESPACE = ''ota''"

definition KEY_LAST_JOB_ID :: "byte list" where
  "KEY_LAST_JOB_ID = map of_char ''last_jobid''"

definition KEY_LAST_FILETYPE :: "byte list" where
  "KEY_LAST_FILETYPE = map of_char ''last_ftype''"

definition KEY_LAST_VERSION :: "byte list" where
  "KEY_LAST_VERSION = map of_char ''last_ver''"

definition KEY_STATUS_FLAGS :: "byte list" where
  "KEY_STATUS_FLAGS = map of_char ''flags''"

definition KEY_RESUME_DESC :: "byte list" where
  "KEY_RESUME_DESC = map of_char ''rsm_desc''"

definition KEY_RESUME_DATA :: "byte list" where
  "KEY_RESUME_DATA = map of_char ''rsm_data''"

lemmas ota_keys = KEY_LAST_JOB_ID_def KEY_LAST_FILETYPE_def KEY_LAST_VERSION_def KEY_STATUS_FLAGS_def
  KEY_RESUME_DESC_def KEY_RESUME_DATA_def

lemma ota_keys_ok [simp]:
  "key_ok KEY_LAST_JOB_ID" "key_ok KEY_LAST_FILETYPE" "key_ok KEY_LAST_VERSION" "key_ok KEY_STATUS_FLAGS"
  "key_ok KEY_RESUME_DESC" "key_ok KEY_RESUME_DATA"
  by (simp_all add: ota_keys key_ok_def KEY_MAX_LENGTH_def)

lemma ota_keys_differ [simp]:
  "KEY_LAST_JOB_ID \<noteq> KEY_LAST_FILETYPE" "KEY_LAST_JOB_ID \<noteq> KEY_LAST_VERSION"
  "KEY_LAST_JOB_ID \<noteq> KEY_STATUS_FLAGS" "KEY_LAST_JOB_ID \<noteq> KEY_RESUME_DESC"
  "KEY_LAST_JOB_ID \<noteq> KEY_RESUME_DATA" "KEY_LAST_FILETYPE \<noteq> KEY_LAST_JOB_ID"
  "KEY_LAST_FILETYPE \<noteq> KEY_LAST_VERSION" "KEY_LAST_FILETYPE \<noteq> KEY_STATUS_FLAGS"
  "KEY_LAST_FILETYPE \<noteq> KEY_RESUME_DESC" "KEY_LAST_FILETYPE \<noteq> KEY_RESUME_DATA"
  "KEY_LAST_VERSION \<noteq> KEY_LAST_JOB_ID" "KEY_LAST_VERSION \<noteq> KEY_LAST_FILETYPE"
  "KEY_LAST_VERSION \<noteq> KEY_STATUS_FLAGS" "KEY_LAST_VERSION \<noteq> KEY_RESUME_DESC"
  "KEY_LAST_VERSION \<noteq> KEY_RESUME_DATA" "KEY_STATUS_FLAGS \<noteq> KEY_LAST_JOB_ID"
  "KEY_STATUS_FLAGS \<noteq> KEY_LAST_FILETYPE" "KEY_STATUS_FLAGS \<noteq> KEY_LAST_VERSION"
  "KEY_STATUS_FLAGS \<noteq> KEY_RESUME_DESC" "KEY_STATUS_FLAGS \<noteq> KEY_RESUME_DATA"
  "KEY_RESUME_DESC \<noteq> KEY_LAST_JOB_ID" "KEY_RESUME_DESC \<noteq> KEY_LAST_FILETYPE"
  "KEY_RESUME_DESC \<noteq> KEY_LAST_VERSION" "KEY_RESUME_DESC \<noteq> KEY_STATUS_FLAGS"
  "KEY_RESUME_DESC \<noteq> KEY_RESUME_DATA" "KEY_RESUME_DATA \<noteq> KEY_LAST_JOB_ID"
  "KEY_RESUME_DATA \<noteq> KEY_LAST_FILETYPE" "KEY_RESUME_DATA \<noteq> KEY_LAST_VERSION"
  "KEY_RESUME_DATA \<noteq> KEY_STATUS_FLAGS" "KEY_RESUME_DATA \<noteq> KEY_RESUME_DESC"
  by (simp_all add: ota_keys)

section \<open>Flags\<close>

record ota_nvs_flags =
  is_checked :: bool
  is_passed :: bool

definition u16_to_flags :: "u16 \<Rightarrow> ota_nvs_flags" where
  "u16_to_flags v = \<lparr>is_checked = (v AND 1 \<noteq> 0), is_passed = (v AND 2 \<noteq> 0)\<rparr>"

definition flags_to_u16 :: "ota_nvs_flags \<Rightarrow> u16" where
  "flags_to_u16 f = (if is_checked f then 1 else 0) OR (if is_passed f then 2 else 0)"

lemma flags_roundtrip [simp]: "u16_to_flags (flags_to_u16 f) = f"
  by (cases f) (simp add: u16_to_flags_def flags_to_u16_def)

section \<open>The job that waits for its verification\<close>

text \<open>Consecutive writes: each only after the one before succeeded.\<close>

definition and_then :: "('s \<Rightarrow> err \<times> 's) \<Rightarrow> ('s \<Rightarrow> err \<times> 's) \<Rightarrow> 's \<Rightarrow> err \<times> 's" where
  "and_then f g s = (case f s of (e, s1) \<Rightarrow> if e \<noteq> ERR_OK then (e, s1) else g s1)"

text \<open>The handle of the namespace is loaded, used and closed.\<close>

definition on_ota_handle :: "('h, 's) storage_ops \<Rightarrow> (err \<Rightarrow> 'a) \<Rightarrow> ('h \<Rightarrow> 's \<Rightarrow> 'a \<times> 's) \<Rightarrow> 's \<Rightarrow> 'a \<times> 's" where
  "on_ota_handle ops bad f s =
    (case esp_rmaker_load_nvs_handle ops RMAKER_NVS_PART_NAME RMAKER_NVS_OTA_NAMESPACE s of
       ((e, Some h), s1) \<Rightarrow> (case f h s1 of (x, s2) \<Rightarrow> (x, so_close ops h s2))
     | ((e, None), s1) \<Rightarrow> (bad e, s1))"

definition ota_nvs_set_job_pending_verification ::
  "('h, 's) storage_ops \<Rightarrow> byte list option \<Rightarrow> byte list option \<Rightarrow> u32 \<Rightarrow> 's \<Rightarrow> err \<times> 's" where
  "ota_nvs_set_job_pending_verification ops job_id filetype next_expected_version s =
    (case job_id of
       None \<Rightarrow> (ERR_INVALID_ARG, s)
     | Some job \<Rightarrow>
         if sint next_expected_version < 0 then (ERR_INVALID_ARG, s)
         else on_ota_handle ops id (\<lambda>h.
           and_then (esp_rmaker_nvs_update_string_with_handle ops h KEY_LAST_JOB_ID job)
           (and_then (case filetype of
                None \<Rightarrow> Pair ERR_OK
              | Some ft \<Rightarrow> esp_rmaker_nvs_update_string_with_handle ops h KEY_LAST_FILETYPE ft)
           (and_then (esp_rmaker_nvs_update_int_with_handle ops h KEY_LAST_VERSION next_expected_version)
             (esp_rmaker_nvs_update_u16_with_handle ops h KEY_STATUS_FLAGS
               (flags_to_u16 \<lparr>is_checked = False, is_passed = False\<rparr>))))) s)"

text \<open>The second result is whether the buffer of the job id is still allocated: no path frees it.\<close>

definition ota_nvs_set_status_if_pending_verification ::
  "('h, 's) storage_ops \<Rightarrow> bool \<Rightarrow> bool \<Rightarrow> bool \<Rightarrow> 's \<Rightarrow> (err \<times> bool) \<times> 's" where
  "ota_nvs_set_status_if_pending_verification ops alloc passed override_existing =
    on_ota_handle ops (\<lambda>e. (e, False)) (\<lambda>h s1.
      case esp_rmaker_nvs_get_string_with_handle ops alloc h KEY_LAST_JOB_ID s1 of (job_id, s2) \<Rightarrow>
      case job_id of
        None \<Rightarrow> ((ERR_OK, False), s2)
      | Some job \<Rightarrow>
          if hd job = 0 then ((ERR_OK, True), s2)
          else case esp_rmaker_nvs_get_int_default_with_handle ops h KEY_LAST_VERSION (- 1) s2 of (v, s3) \<Rightarrow>
            if sint v < 0 then ((ERR_OK, True), s3)
            else case esp_rmaker_nvs_get_u16_with_handle ops h KEY_STATUS_FLAGS 0 s3 of ((e, w), s4) \<Rightarrow>
              if e \<noteq> ERR_OK then ((e, True), s4)
              else let flags = u16_to_flags w in
                if \<not> override_existing \<and> is_checked flags then ((e, True), s4)
                else case esp_rmaker_nvs_update_u16_with_handle ops h KEY_STATUS_FLAGS
                    (flags_to_u16 (flags\<lparr>is_checked := True, is_passed := passed\<rparr>)) s4 of
                  (e2, s5) \<Rightarrow> ((e2, True), s5))"

definition ota_nvs_get_status :: "('h, 's) storage_ops \<Rightarrow> 's \<Rightarrow> (err \<times> ota_nvs_flags) \<times> 's" where
  "ota_nvs_get_status ops s =
    (case esp_rmaker_nvs_get_u16 ops RMAKER_NVS_PART_NAME RMAKER_NVS_OTA_NAMESPACE KEY_STATUS_FLAGS 0 s of
       ((e, w), s1) \<Rightarrow>
         if e \<noteq> ERR_OK then ((e, \<lparr>is_checked = False, is_passed = False\<rparr>), s1) else ((ERR_OK, u16_to_flags w), s1))"

text \<open>The macros of \<^verbatim>\<open>ota_nvs.h\<close>.\<close>

definition ota_get_last_job_id :: "('h, 's) storage_ops \<Rightarrow> bool \<Rightarrow> 's \<Rightarrow> byte list option \<times> 's" where
  "ota_get_last_job_id ops alloc =
    esp_rmaker_nvs_get_string ops alloc RMAKER_NVS_PART_NAME RMAKER_NVS_OTA_NAMESPACE KEY_LAST_JOB_ID"

definition ota_get_last_filetype :: "('h, 's) storage_ops \<Rightarrow> bool \<Rightarrow> 's \<Rightarrow> byte list option \<times> 's" where
  "ota_get_last_filetype ops alloc =
    esp_rmaker_nvs_get_string ops alloc RMAKER_NVS_PART_NAME RMAKER_NVS_OTA_NAMESPACE KEY_LAST_FILETYPE"

definition ota_get_last_version :: "('h, 's) storage_ops \<Rightarrow> 's \<Rightarrow> u32 \<times> 's" where
  "ota_get_last_version ops =
    esp_rmaker_nvs_get_int_default ops RMAKER_NVS_PART_NAME RMAKER_NVS_OTA_NAMESPACE KEY_LAST_VERSION (- 1)"

definition ota_clear_nvs :: "('h, 's) storage_ops \<Rightarrow> 's \<Rightarrow> err \<times> 's" where
  "ota_clear_nvs ops = esp_rmaker_clear_nvs_namespace ops RMAKER_NVS_PART_NAME RMAKER_NVS_OTA_NAMESPACE"

section \<open>The interrupted download\<close>

definition MD5_HEX_LEN :: nat where
  "MD5_HEX_LEN = 32"

datatype transport = TRANSPORT_NONE | TRANSPORT_MQTT

text \<open>The transport is a byte of the struct: a loaded one can be any.\<close>

definition transport_code :: "transport \<Rightarrow> u8" where
  "transport_code t = (case t of TRANSPORT_NONE \<Rightarrow> 0 | TRANSPORT_MQTT \<Rightarrow> 1)"

record resume_desc =
  rd_md5_hex :: "byte list"
  rd_filesize :: u32
  rd_transport :: u8
  rd_block_size :: u32

text \<open>The struct in memory: 33 bytes of the digest, and padding before the two integers, cleared by
the initialisation of the struct. 48 bytes in all.\<close>

definition SIZEOF_RESUME_DESC :: nat where
  "SIZEOF_RESUME_DESC = 48"

definition desc_bytes :: "resume_desc \<Rightarrow> byte list" where
  "desc_bytes d = rd_md5_hex d @ [0, 0, 0] @ le_bytes 4 (rd_filesize d) @ [rd_transport d, 0, 0, 0] @
    le_bytes 4 (rd_block_size d)"

definition desc_of_bytes :: "byte list \<Rightarrow> resume_desc" where
  "desc_of_bytes bs = \<lparr>rd_md5_hex = take 33 bs, rd_filesize = of_le_bytes (mem_read bs 36 4),
     rd_transport = bs ! 40, rd_block_size = of_le_bytes (mem_read bs 44 4)\<rparr>"

text \<open>The arguments of a save: a descriptor or \<^verbatim>\<open>NULL\<close>, a tracker or \<^verbatim>\<open>NULL\<close> with its length.\<close>

definition ota_nvs_resume_save ::
  "('h, 's) storage_ops \<Rightarrow> resume_desc option \<Rightarrow> byte list option \<Rightarrow> nat \<Rightarrow> 's \<Rightarrow> err \<times> 's" where
  "ota_nvs_resume_save ops desc tracker tracker_len s =
    (case desc of
       None \<Rightarrow> (ERR_INVALID_ARG, s)
     | Some d \<Rightarrow>
         if tracker = None \<and> 0 < tracker_len then (ERR_INVALID_ARG, s)
         else on_ota_handle ops id (\<lambda>h.
           and_then (esp_rmaker_nvs_update_binary_with_handle ops h KEY_RESUME_DATA
               (case tracker of None \<Rightarrow> [] | Some bs \<Rightarrow> take tracker_len bs))
             (esp_rmaker_nvs_update_binary_with_handle ops h KEY_RESUME_DESC (desc_bytes d))) s)"

text \<open>The loaded descriptor, and the tracker with its terminator and its length. The two allocations
are parameters.\<close>

definition ota_nvs_resume_load ::
  "('h, 's) storage_ops \<Rightarrow> bool \<Rightarrow> bool \<Rightarrow> 's \<Rightarrow> (err \<times> (resume_desc \<times> byte list \<times> nat) option) \<times> 's" where
  "ota_nvs_resume_load ops alloc1 alloc2 =
    on_ota_handle ops (\<lambda>e. (e, None)) (\<lambda>h s1.
      case esp_rmaker_nvs_get_binary_with_handle ops alloc1 h KEY_RESUME_DESC s1 of (desc_blob, s2) \<Rightarrow>
      case desc_blob of
        None \<Rightarrow> ((ERR_NOT_FOUND, None), s2)
      | Some (db, desc_len) \<Rightarrow>
          if desc_len \<noteq> SIZEOF_RESUME_DESC then ((ERR_NOT_FOUND, None), s2)
          else case esp_rmaker_nvs_get_binary_with_handle ops alloc2 h KEY_RESUME_DATA s2 of (tracker_blob, s3) \<Rightarrow>
            (case tracker_blob of
               None \<Rightarrow> ((ERR_NOT_FOUND, None), s3)
             | Some (tb, tracker_len) \<Rightarrow>
                 ((ERR_OK, Some (desc_of_bytes (take SIZEOF_RESUME_DESC db), tb, tracker_len)), s3)))"

definition ota_nvs_resume_clear :: "('h, 's) storage_ops \<Rightarrow> 's \<Rightarrow> err \<times> 's" where
  "ota_nvs_resume_clear ops =
    on_ota_handle ops id (\<lambda>h s1.
      case so_run ops h (Kv_erase KEY_RESUME_DESC) s1 of (_, s2) \<Rightarrow>
      case so_run ops h (Kv_erase KEY_RESUME_DATA) s2 of (_, s3) \<Rightarrow>
      case so_run ops h Kv_commit s3 of (_, s4) \<Rightarrow> (ERR_OK, s4))"

text \<open>\<^verbatim>\<open>strncmp\<close> of the digests: equal up to a terminator or the limit.\<close>

fun strncmp_same :: "nat \<Rightarrow> byte list \<Rightarrow> byte list \<Rightarrow> bool" where
  "strncmp_same 0 xs ys = True"
| "strncmp_same (Suc n) (x # xs) (y # ys) = (x = y \<and> (x = 0 \<or> strncmp_same n xs ys))"
| "strncmp_same (Suc n) xs ys = (xs = [] \<and> ys = [])"

definition ota_nvs_resume_matches :: "resume_desc option \<Rightarrow> resume_desc option \<Rightarrow> bool" where
  "ota_nvs_resume_matches loaded current =
    (case (loaded, current) of
       (Some l, Some c) \<Rightarrow>
         if rd_transport l = transport_code TRANSPORT_NONE \<or> rd_transport l \<noteq> rd_transport c then False
         else if rd_filesize l \<noteq> rd_filesize c then False
         else if \<not> strncmp_same (MD5_HEX_LEN + 1) (rd_md5_hex l) (rd_md5_hex c) then False
         else if rd_transport l = transport_code TRANSPORT_MQTT \<and> rd_block_size l \<noteq> rd_block_size c then False
         else True
     | _ \<Rightarrow> False)"

section \<open>The layout of the namespace\<close>

definition has_type :: "store \<Rightarrow> byte list \<Rightarrow> storage_type \<Rightarrow> (byte list \<Rightarrow> bool) \<Rightarrow> bool" where
  "has_type m key ty chk = (case m key of None \<Rightarrow> True | Some (t, v) \<Rightarrow> t = type_byte ty \<and> chk v)"

definition ota_typed :: "store \<Rightarrow> bool" where
  "ota_typed m \<longleftrightarrow>
    has_type m KEY_LAST_JOB_ID TYPE_BINARY (\<lambda>_. True) \<and> has_type m KEY_LAST_FILETYPE TYPE_BINARY (\<lambda>_. True) \<and>
    has_type m KEY_LAST_VERSION TYPE_I32 (\<lambda>v. length v = 4 \<and> 0 \<le> sint (of_le_bytes v :: u32)) \<and>
    has_type m KEY_STATUS_FLAGS TYPE_U16 (\<lambda>v. length v = 2 \<and> (of_le_bytes v :: u16) < 4) \<and>
    has_type m KEY_RESUME_DESC TYPE_BINARY (\<lambda>v. length v = SIZEOF_RESUME_DESC) \<and>
    has_type m KEY_RESUME_DATA TYPE_BINARY (\<lambda>_. True) \<and>
    (m KEY_STATUS_FLAGS \<noteq> None \<longrightarrow> m KEY_LAST_VERSION \<noteq> None) \<and> (m KEY_LAST_VERSION \<noteq> None \<longrightarrow> m KEY_LAST_JOB_ID \<noteq> None)"

lemma flags_small: "(flags_to_u16 f) < 4"
  by (cases "is_checked f"; cases "is_passed f") (simp_all add: flags_to_u16_def)

lemma length_desc_bytes: "length (rd_md5_hex d) = 33 \<Longrightarrow> length (desc_bytes d) = SIZEOF_RESUME_DESC"
  by (simp add: desc_bytes_def SIZEOF_RESUME_DESC_def)

lemma typed_updates:
  assumes "ota_typed m"
  shows "ota_typed (m(KEY_LAST_JOB_ID \<mapsto> (type_byte TYPE_BINARY, v)))"
    and "ota_typed (m(KEY_LAST_FILETYPE \<mapsto> (type_byte TYPE_BINARY, v)))"
    and "m KEY_LAST_JOB_ID \<noteq> None \<Longrightarrow> 0 \<le> sint w \<Longrightarrow>
      ota_typed (m(KEY_LAST_VERSION \<mapsto> (type_byte TYPE_I32, le_bytes 4 (w :: u32))))"
    and "m KEY_LAST_VERSION \<noteq> None \<Longrightarrow>
      ota_typed (m(KEY_STATUS_FLAGS \<mapsto> (type_byte TYPE_U16, le_bytes 2 (flags_to_u16 f))))"
    and "length v = SIZEOF_RESUME_DESC \<Longrightarrow> ota_typed (m(KEY_RESUME_DESC \<mapsto> (type_byte TYPE_BINARY, v)))"
    and "ota_typed (m(KEY_RESUME_DATA \<mapsto> (type_byte TYPE_BINARY, v)))"
    and "ota_typed (m(KEY_RESUME_DESC := None))" "ota_typed (m(KEY_RESUME_DATA := None))"
  using assms by (auto simp: ota_typed_def has_type_def flags_small of_le_bytes_le_bytes_full)

lemma typed_empty: "ota_typed Map.empty"
  by (simp add: ota_typed_def has_type_def)

section \<open>What the functions keep\<close>

context kv_storage
begin

text \<open>A triple: from contents with \<open>I\<close> and \<open>J\<close>, the writes leave contents with \<open>I\<close>, and with \<open>K\<close> after success.\<close>

definition triple :: "string option \<Rightarrow> string \<Rightarrow> 'h \<Rightarrow> (store \<Rightarrow> bool) \<Rightarrow> (store \<Rightarrow> bool) \<Rightarrow> ('s \<Rightarrow> err \<times> 's) \<Rightarrow>
    (store \<Rightarrow> bool) \<Rightarrow> bool" where
  "triple p ns h I J f K \<longleftrightarrow> (\<forall>s m rc s'. disk s p ns m \<and> opened s h p ns \<and> I m \<and> J m \<and> f s = (rc, s') \<longrightarrow>
     opened s' h p ns \<and> (\<exists>m'. disk s' p ns m' \<and> I m' \<and> (rc = ERR_OK \<longrightarrow> K m')))"

lemma triple_and_then:
  assumes "triple p ns h I J f K" "triple p ns h I K g L"
  shows "triple p ns h I J (and_then f g) L"
  unfolding triple_def and_then_def
proof (intro allI impI)
  fix s m rc s'
  assume a: "disk s p ns m \<and> opened s h p ns \<and> I m \<and> J m \<and>
    (case f s of (e, s1) \<Rightarrow> if e \<noteq> ERR_OK then (e, s1) else g s1) = (rc, s')"
  obtain e s1 where 1: "f s = (e, s1)" by fastforce
  from assms(1) a 1 obtain m1 where m1: "opened s1 h p ns" "disk s1 p ns m1" "I m1" "e = ERR_OK \<longrightarrow> K m1"
    unfolding triple_def by blast
  show "opened s' h p ns \<and> (\<exists>m'. disk s' p ns m' \<and> I m' \<and> (rc = ERR_OK \<longrightarrow> L m'))"
  proof (cases "e = ERR_OK")
    case True
    then have "g s1 = (rc, s')" using a 1 by simp
    then show ?thesis using assms(2) m1 True unfolding triple_def by blast
  next
    case False
    then show ?thesis using a 1 m1 by auto
  qed
qed

lemma triple_update:
  assumes "key_ok key" "length val < 2 ^ 32"
    and "\<And>m. I m \<Longrightarrow> J m \<Longrightarrow> I (m(key \<mapsto> (type_byte ty, val))) \<and> K (m(key \<mapsto> (type_byte ty, val)))"
  shows "triple p ns h I J (update_with_handle ops h key val ty) K"
  unfolding triple_def
  using update_with_handle_cases [OF _ _ assms(1,2), where p = p and ns = ns and h = h and ty = ty] assms(3) by blast

lemma triple_skip: "(\<And>m. J m \<Longrightarrow> K m) \<Longrightarrow> triple p ns h I J (Pair ERR_OK) K"
  unfolding triple_def by auto

lemma on_ota_handle_keeps:
  assumes "disk s RMAKER_NVS_PART_NAME RMAKER_NVS_OTA_NAMESPACE m" "on_ota_handle ops bad f s = (x, s')"
    and "\<And>h s1 x s2. disk s1 RMAKER_NVS_PART_NAME RMAKER_NVS_OTA_NAMESPACE m \<Longrightarrow>
      opened s1 h RMAKER_NVS_PART_NAME RMAKER_NVS_OTA_NAMESPACE \<Longrightarrow> f h s1 = (x, s2) \<Longrightarrow>
      \<exists>m'. disk s2 RMAKER_NVS_PART_NAME RMAKER_NVS_OTA_NAMESPACE m' \<and> Q x m'"
    and "Q (bad ERR_FAIL) m"
  shows "\<exists>m'. disk s' RMAKER_NVS_PART_NAME RMAKER_NVS_OTA_NAMESPACE m' \<and> Q x m'"
proof -
  obtain rc1 ho s1 where 1: "esp_rmaker_load_nvs_handle ops RMAKER_NVS_PART_NAME RMAKER_NVS_OTA_NAMESPACE s = ((rc1, ho), s1)"
    by (metis prod.exhaust)
  have "RMAKER_NVS_OTA_NAMESPACE \<noteq> ''''" by (simp add: RMAKER_NVS_OTA_NAMESPACE_def)
  note l = load_handle_cases [OF assms(1) this 1]
  show ?thesis
  proof (cases ho)
    case None
    then show ?thesis using assms(2,4) 1 l by (auto simp: on_ota_handle_def)
  next
    case (Some h)
    obtain y s2 where 2: "f h s1 = (y, s2)" by fastforce
    from assms(3) [OF _ _ 2] l Some obtain m' where
      "disk s2 RMAKER_NVS_PART_NAME RMAKER_NVS_OTA_NAMESPACE m'" "Q y m'" by auto
    then show ?thesis using assms(2) 1 2 Some close_law [of s2 _ _ m' h] by (auto simp: on_ota_handle_def)
  qed
qed

text \<open>Consecutive writes on a handle keep an invariant of the contents.\<close>

lemma writes_keep:
  assumes "disk s RMAKER_NVS_PART_NAME RMAKER_NVS_OTA_NAMESPACE m" "on_ota_handle ops id f s = (rc, s')" "I m"
    and "\<And>h. triple RMAKER_NVS_PART_NAME RMAKER_NVS_OTA_NAMESPACE h I (\<lambda>_. True) (f h) (\<lambda>_. True)"
  shows "\<exists>m'. disk s' RMAKER_NVS_PART_NAME RMAKER_NVS_OTA_NAMESPACE m' \<and> I m'"
  using on_ota_handle_keeps [OF assms(1,2), where Q = "\<lambda>_ m'. I m'"] assms(3,4) unfolding triple_def by blast

lemma set_pending_typed:
  assumes "disk s RMAKER_NVS_PART_NAME RMAKER_NVS_OTA_NAMESPACE m" "ota_typed m"
    and "length job < 2 ^ 32" "\<And>ft. filetype = Some ft \<Longrightarrow> length ft < 2 ^ 32"
    and "ota_nvs_set_job_pending_verification ops (Some job) filetype v s = (rc, s')"
  shows "\<exists>m'. disk s' RMAKER_NVS_PART_NAME RMAKER_NVS_OTA_NAMESPACE m' \<and> ota_typed m'"
proof (cases "sint v < 0")
  case True
  then show ?thesis using assms by (auto simp: ota_nvs_set_job_pending_verification_def)
next
  case False
  let ?has = "\<lambda>key m. m key \<noteq> None"
  have "triple RMAKER_NVS_PART_NAME RMAKER_NVS_OTA_NAMESPACE h ota_typed (\<lambda>_. True)
      (and_then (esp_rmaker_nvs_update_string_with_handle ops h KEY_LAST_JOB_ID job)
       (and_then (case filetype of
            None \<Rightarrow> Pair ERR_OK
          | Some ft \<Rightarrow> esp_rmaker_nvs_update_string_with_handle ops h KEY_LAST_FILETYPE ft)
       (and_then (esp_rmaker_nvs_update_int_with_handle ops h KEY_LAST_VERSION v)
         (esp_rmaker_nvs_update_u16_with_handle ops h KEY_STATUS_FLAGS
           (flags_to_u16 \<lparr>is_checked = False, is_passed = False\<rparr>))))) (\<lambda>_. True)" for h
    unfolding esp_rmaker_nvs_update_string_with_handle_def esp_rmaker_nvs_update_int_with_handle_def
      esp_rmaker_nvs_update_u16_with_handle_def
  proof (intro triple_and_then)
    show "triple RMAKER_NVS_PART_NAME RMAKER_NVS_OTA_NAMESPACE h ota_typed (\<lambda>_. True)
        (update_with_handle ops h KEY_LAST_JOB_ID job TYPE_BINARY) (?has KEY_LAST_JOB_ID)"
      by (rule triple_update) (use assms(3) typed_updates(1) in auto)
    show "triple RMAKER_NVS_PART_NAME RMAKER_NVS_OTA_NAMESPACE h ota_typed (?has KEY_LAST_JOB_ID)
        (case filetype of None \<Rightarrow> Pair ERR_OK
          | Some ft \<Rightarrow> update_with_handle ops h KEY_LAST_FILETYPE ft TYPE_BINARY) (?has KEY_LAST_JOB_ID)"
      using assms(4) typed_updates(2)
      by (cases filetype) (auto intro!: triple_skip triple_update)
    show "triple RMAKER_NVS_PART_NAME RMAKER_NVS_OTA_NAMESPACE h ota_typed (?has KEY_LAST_JOB_ID)
        (update_with_handle ops h KEY_LAST_VERSION (le_bytes 4 v) TYPE_I32) (?has KEY_LAST_VERSION)"
      by (rule triple_update) (use False typed_updates(3) in auto)
    show "triple RMAKER_NVS_PART_NAME RMAKER_NVS_OTA_NAMESPACE h ota_typed (?has KEY_LAST_VERSION)
        (update_with_handle ops h KEY_STATUS_FLAGS
           (le_bytes 2 (flags_to_u16 \<lparr>is_checked = False, is_passed = False\<rparr>)) TYPE_U16) (\<lambda>_. True)"
      by (rule triple_update) (use typed_updates(4) in auto)
  qed
  from writes_keep [OF assms(1) _ assms(2) this] False assms(5) show ?thesis
    by (simp add: ota_nvs_set_job_pending_verification_def)
qed

end

context kv_storage
begin

lemma set_status_typed:
  assumes "disk s RMAKER_NVS_PART_NAME RMAKER_NVS_OTA_NAMESPACE m" "ota_typed m"
    and "ota_nvs_set_status_if_pending_verification ops alloc passed override_existing s = (x, s')"
  shows "\<exists>m'. disk s' RMAKER_NVS_PART_NAME RMAKER_NVS_OTA_NAMESPACE m' \<and> ota_typed m'"
proof (rule on_ota_handle_keeps [OF assms(1)
      assms(3) [unfolded ota_nvs_set_status_if_pending_verification_def], where Q = "\<lambda>_ m'. ota_typed m'"])
  let ?p = "RMAKER_NVS_PART_NAME" and ?n = "RMAKER_NVS_OTA_NAMESPACE"
  fix h s1 y s5
  assume d1: "disk s1 ?p ?n m" and o1: "opened s1 h ?p ?n"
    and f: "(case esp_rmaker_nvs_get_string_with_handle ops alloc h KEY_LAST_JOB_ID s1 of (job_id, s2) \<Rightarrow>
      case job_id of
        None \<Rightarrow> ((ERR_OK, False), s2)
      | Some job \<Rightarrow>
          if hd job = 0 then ((ERR_OK, True), s2)
          else case esp_rmaker_nvs_get_int_default_with_handle ops h KEY_LAST_VERSION (- 1) s2 of (v, s3) \<Rightarrow>
            if sint v < 0 then ((ERR_OK, True), s3)
            else case esp_rmaker_nvs_get_u16_with_handle ops h KEY_STATUS_FLAGS 0 s3 of ((e, w), s4) \<Rightarrow>
              if e \<noteq> ERR_OK then ((e, True), s4)
              else let flags = u16_to_flags w in
                if \<not> override_existing \<and> is_checked flags then ((e, True), s4)
                else case esp_rmaker_nvs_update_u16_with_handle ops h KEY_STATUS_FLAGS
                    (flags_to_u16 (flags\<lparr>is_checked := True, is_passed := passed\<rparr>)) s4 of
                  (e2, s5) \<Rightarrow> ((e2, True), s5)) = (y, s5)"
  obtain r2 s2 where 2: "nvs_read_blob_alloc ops alloc h KEY_LAST_JOB_ID True s1 = (r2, s2)" by fastforce
  have s2: "disk s2 ?p ?n m" "opened s2 h ?p ?n" using read_blob_cases [OF d1 o1 _ 2] by auto
  obtain e3 b3 s3 where 3: "get_with_handle ops h KEY_LAST_VERSION [0xFF, 0xFF, 0xFF, 0xFF] s2 = ((e3, b3), s3)"
    by (metis prod.exhaust)
  note g3 = get_with_handle_cases [OF s2 _ 3, simplified]
  obtain e4 b4 s4 where 4: "get_with_handle ops h KEY_STATUS_FLAGS [0, 0] s3 = ((e4, b4), s4)" by (metis prod.exhaust)
  note g4 = get_with_handle_cases [OF conjunct1 [OF g3] conjunct1 [OF conjunct2 [OF g3]] _ 4, simplified]
  let ?w = "flags_to_u16 ((u16_to_flags (of_le_bytes b4))\<lparr>is_checked := True, is_passed := passed\<rparr>)"
  obtain e5 s6 where 5: "update_with_handle ops h KEY_STATUS_FLAGS (le_bytes 2 ?w) TYPE_U16 s4 = (e5, s6)" by fastforce
  note u5 = update_with_handle_cases [OF conjunct1 [OF g4] conjunct1 [OF conjunct2 [OF g4]] _ _ 5, simplified]
  consider "s5 = s2" | "s5 = s3" | "s5 = s4" | "s5 = s6" "e4 = ERR_OK"
    using f 2 3 4 5
    by (auto simp: esp_rmaker_nvs_get_string_with_handle_def esp_rmaker_nvs_get_int_default_with_handle_def
        esp_rmaker_nvs_get_int_with_handle_def esp_rmaker_nvs_get_u16_with_handle_def
        esp_rmaker_nvs_update_u16_with_handle_def Let_def split: option.splits if_splits)
  then show "\<exists>m'. disk s5 ?p ?n m' \<and> ota_typed m'"
  proof cases
    case 4
    then have "m KEY_STATUS_FLAGS \<noteq> None" using g4 by auto
    then have "m KEY_LAST_VERSION \<noteq> None" using assms(2) by (auto simp: ota_typed_def)
    from typed_updates(4) [OF assms(2) this] show ?thesis using u5 assms(2) 4(1) by blast
  qed (use s2 g3 g4 assms(2) in blast)+
qed (rule assms(2))

lemma resume_save_typed:
  assumes "disk s RMAKER_NVS_PART_NAME RMAKER_NVS_OTA_NAMESPACE m" "ota_typed m"
    and "length (rd_md5_hex d) = 33" "len < 2 ^ 32" and "ota_nvs_resume_save ops (Some d) tracker len s = (rc, s')"
  shows "\<exists>m'. disk s' RMAKER_NVS_PART_NAME RMAKER_NVS_OTA_NAMESPACE m' \<and> ota_typed m'"
proof (cases "tracker = None \<and> 0 < len")
  case True
  then show ?thesis using assms by (auto simp: ota_nvs_resume_save_def)
next
  case False
  let ?t = "case tracker of None \<Rightarrow> [] | Some bs \<Rightarrow> take len bs"
  have "length ?t < 2 ^ 32" using assms(4) by (auto split: option.splits)
  moreover have "length (desc_bytes d) < 2 ^ 32" using length_desc_bytes [OF assms(3)] by (simp add: SIZEOF_RESUME_DESC_def)
  ultimately have "triple RMAKER_NVS_PART_NAME RMAKER_NVS_OTA_NAMESPACE h ota_typed (\<lambda>_. True)
      (and_then (esp_rmaker_nvs_update_binary_with_handle ops h KEY_RESUME_DATA ?t)
        (esp_rmaker_nvs_update_binary_with_handle ops h KEY_RESUME_DESC (desc_bytes d))) (\<lambda>_. True)" for h
    unfolding esp_rmaker_nvs_update_binary_with_handle_def
    using typed_updates(5) [OF _ length_desc_bytes [OF assms(3)]] typed_updates(6)
    by (intro triple_and_then [where K = "\<lambda>_. True"] triple_update) auto
  from writes_keep [OF assms(1) _ assms(2) this] False assms(5) show ?thesis
    by (auto simp: ota_nvs_resume_save_def split: if_splits)
qed

lemma triple_erase:
  assumes "triple p ns h I (\<lambda>_. True) g (\<lambda>_. True)" "key_ok key" "\<And>m. I m \<Longrightarrow> I (m(key := None))"
  shows "triple p ns h I (\<lambda>_. True) (\<lambda>s. case so_run ops h (Kv_erase key) s of (_, s') \<Rightarrow> g s') (\<lambda>_. True)"
  unfolding triple_def
proof (intro allI impI)
  fix s m rc s'
  assume a: "disk s p ns m \<and> opened s h p ns \<and> I m \<and> True \<and>
    (case so_run ops h (Kv_erase key) s of (_, s') \<Rightarrow> g s') = (rc, s')"
  obtain e n bs s1 where 1: "so_run ops h (Kv_erase key) s = ((e, n, bs), s1)" by (metis prod.exhaust)
  from run_law [OF _ _ _ 1, of p ns m] a assms(2,3) have "opened s1 h p ns" "\<exists>m1. disk s1 p ns m1 \<and> I m1" by auto
  then show "opened s' h p ns \<and> (\<exists>m'. disk s' p ns m' \<and> I m' \<and> (rc = ERR_OK \<longrightarrow> True))"
    using assms(1) a 1 unfolding triple_def by auto
qed

lemma resume_clear_typed:
  assumes "disk s RMAKER_NVS_PART_NAME RMAKER_NVS_OTA_NAMESPACE m" "ota_typed m"
    and "ota_nvs_resume_clear ops s = (rc, s')"
  shows "\<exists>m'. disk s' RMAKER_NVS_PART_NAME RMAKER_NVS_OTA_NAMESPACE m' \<and> ota_typed m'"
proof -
  have "triple p ns h ota_typed (\<lambda>_. True) (\<lambda>s. case so_run ops h Kv_commit s of (_, s4) \<Rightarrow> (ERR_OK, s4)) (\<lambda>_. True)"
    for p ns h
    unfolding triple_def
  proof (intro allI impI)
    fix s m rc s'
    assume a: "disk s p ns m \<and> opened s h p ns \<and> ota_typed m \<and> True \<and>
      (case so_run ops h Kv_commit s of (_, s4) \<Rightarrow> (ERR_OK, s4)) = (rc, s')"
    obtain e n bs s1 where 1: "so_run ops h Kv_commit s = ((e, n, bs), s1)" by (metis prod.exhaust)
    from commit_keeps [OF _ _ 1, of p ns m] a 1
    show "opened s' h p ns \<and> (\<exists>m'. disk s' p ns m' \<and> ota_typed m' \<and> (rc = ERR_OK \<longrightarrow> True))" by auto
  qed
  from triple_erase [OF triple_erase [OF this, of KEY_RESUME_DATA] , of KEY_RESUME_DESC] typed_updates(7,8)
  have "triple RMAKER_NVS_PART_NAME RMAKER_NVS_OTA_NAMESPACE h ota_typed (\<lambda>_. True)
      (\<lambda>s1. case so_run ops h (Kv_erase KEY_RESUME_DESC) s1 of (_, s2) \<Rightarrow>
        case so_run ops h (Kv_erase KEY_RESUME_DATA) s2 of (_, s3) \<Rightarrow>
        case so_run ops h Kv_commit s3 of (_, s4) \<Rightarrow> (ERR_OK, s4)) (\<lambda>_. True)" for h by simp
  from writes_keep [OF assms(1) _ assms(2) this] assms(3) show ?thesis by (simp add: ota_nvs_resume_clear_def)
qed

end

section \<open>Any sequence of operations\<close>

datatype ota_nvs_op =
    Op_set_pending "byte list option" "byte list option" u32 | Op_set_status bool bool bool | Op_get_status
  | Op_last_job_id bool | Op_last_filetype bool | Op_last_version | Op_clear_all
  | Op_resume_save "resume_desc option" "byte list option" nat | Op_resume_load bool bool | Op_resume_clear

primrec ota_nvs_exec :: "('h, 's) storage_ops \<Rightarrow> ota_nvs_op \<Rightarrow> 's \<Rightarrow> 's" where
  "ota_nvs_exec ops (Op_set_pending job ft v) s = snd (ota_nvs_set_job_pending_verification ops job ft v s)"
| "ota_nvs_exec ops (Op_set_status alloc passed ov) s =
    snd (ota_nvs_set_status_if_pending_verification ops alloc passed ov s)"
| "ota_nvs_exec ops Op_get_status s = snd (ota_nvs_get_status ops s)"
| "ota_nvs_exec ops (Op_last_job_id alloc) s = snd (ota_get_last_job_id ops alloc s)"
| "ota_nvs_exec ops (Op_last_filetype alloc) s = snd (ota_get_last_filetype ops alloc s)"
| "ota_nvs_exec ops Op_last_version s = snd (ota_get_last_version ops s)"
| "ota_nvs_exec ops Op_clear_all s = snd (ota_clear_nvs ops s)"
| "ota_nvs_exec ops (Op_resume_save desc tracker len) s = snd (ota_nvs_resume_save ops desc tracker len s)"
| "ota_nvs_exec ops (Op_resume_load a1 a2) s = snd (ota_nvs_resume_load ops a1 a2 s)"
| "ota_nvs_exec ops Op_resume_clear s = snd (ota_nvs_resume_clear ops s)"

text \<open>Arguments that fit: lengths a size holds, and the digest filling its array.\<close>

primrec op_fits :: "ota_nvs_op \<Rightarrow> bool" where
  "op_fits (Op_set_pending job ft v) =
    ((case job of None \<Rightarrow> True | Some j \<Rightarrow> length j < 2 ^ 32) \<and> (case ft of None \<Rightarrow> True | Some f \<Rightarrow> length f < 2 ^ 32))"
| "op_fits (Op_set_status alloc passed ov) = True"
| "op_fits Op_get_status = True"
| "op_fits (Op_last_job_id alloc) = True"
| "op_fits (Op_last_filetype alloc) = True"
| "op_fits Op_last_version = True"
| "op_fits Op_clear_all = True"
| "op_fits (Op_resume_save desc tracker len) =
    (len < 2 ^ 32 \<and> (case desc of None \<Rightarrow> True | Some d \<Rightarrow> length (rd_md5_hex d) = 33))"
| "op_fits (Op_resume_load a1 a2) = True"
| "op_fits Op_resume_clear = True"

context kv_storage
begin

lemma namespace_named: "RMAKER_NVS_OTA_NAMESPACE \<noteq> ''''"
  by (simp add: RMAKER_NVS_OTA_NAMESPACE_def)

text \<open>A read between open and close leaves the contents.\<close>

lemma with_open_reads:
  assumes "disk s p ns m" "ns \<noteq> ''''"
    and "\<And>h s1 x s2. disk s1 p ns m \<Longrightarrow> opened s1 h p ns \<Longrightarrow> f h s1 = (x, s2) \<Longrightarrow> disk s2 p ns m"
  shows "disk (snd (with_open ops p ns mode bad f s)) p ns m"
proof -
  obtain x s' where 1: "with_open ops p ns mode bad f s = (x, s')" by fastforce
  have "x = bad \<and> disk s' p ns m \<or> (\<exists>m'. disk s' p ns m' \<and> m' = m)"
    using with_open_cases [OF assms(1,2) 1, where Q = "\<lambda>_ m'. m' = m"] assms(3) by blast
  then show ?thesis using 1 by auto
qed

lemma get_leaves:
  "disk s p ns m \<Longrightarrow> opened s h p ns \<Longrightarrow> key_ok key \<Longrightarrow> disk (snd (get_with_handle ops h key init s)) p ns m"
  using get_with_handle_cases [of s p ns m h key init] by (metis prod.exhaust snd_conv)

lemma blob_leaves:
  "disk s p ns m \<Longrightarrow> opened s h p ns \<Longrightarrow> key_ok key \<Longrightarrow> disk (snd (nvs_read_blob_alloc ops alloc h key nul s)) p ns m"
  using read_blob_cases [of s p ns m h key alloc nul] by (metis prod.exhaust snd_conv)

lemma resume_load_cases:
  assumes "disk s RMAKER_NVS_PART_NAME RMAKER_NVS_OTA_NAMESPACE m" "ota_nvs_resume_load ops a1 a2 s = (r, s')"
  shows "disk s' RMAKER_NVS_PART_NAME RMAKER_NVS_OTA_NAMESPACE m \<and>
    (r = (ERR_FAIL, None) \<or> r = (ERR_NOT_FOUND, None) \<or>
     (\<exists>t1 db t2 tb. m KEY_RESUME_DESC = Some (t1, db) \<and> length db = SIZEOF_RESUME_DESC \<and> m KEY_RESUME_DATA = Some (t2, tb) \<and>
       r = (ERR_OK, Some (desc_of_bytes db, tb @ [0], length tb))))"
proof -
  let ?p = "RMAKER_NVS_PART_NAME" and ?n = "RMAKER_NVS_OTA_NAMESPACE"
  have "\<exists>m'. disk s' ?p ?n m' \<and> (m' = m \<and> (r = (ERR_FAIL, None) \<or> r = (ERR_NOT_FOUND, None) \<or>
     (\<exists>t1 db t2 tb. m KEY_RESUME_DESC = Some (t1, db) \<and> length db = SIZEOF_RESUME_DESC \<and> m KEY_RESUME_DATA = Some (t2, tb) \<and>
       r = (ERR_OK, Some (desc_of_bytes db, tb @ [0], length tb)))))"
  proof (rule on_ota_handle_keeps [OF assms(1) assms(2) [unfolded ota_nvs_resume_load_def]])
    fix h s1 x s4
    assume d1: "disk s1 ?p ?n m" and o1: "opened s1 h ?p ?n"
      and f: "(case esp_rmaker_nvs_get_binary_with_handle ops a1 h KEY_RESUME_DESC s1 of (desc_blob, s2) \<Rightarrow>
      case desc_blob of
        None \<Rightarrow> ((ERR_NOT_FOUND, None), s2)
      | Some (db, desc_len) \<Rightarrow>
          if desc_len \<noteq> SIZEOF_RESUME_DESC then ((ERR_NOT_FOUND, None), s2)
          else case esp_rmaker_nvs_get_binary_with_handle ops a2 h KEY_RESUME_DATA s2 of (tracker_blob, s3) \<Rightarrow>
            (case tracker_blob of
               None \<Rightarrow> ((ERR_NOT_FOUND, None), s3)
             | Some (tb, tracker_len) \<Rightarrow>
                 ((ERR_OK, Some (desc_of_bytes (take SIZEOF_RESUME_DESC db), tb, tracker_len)), s3))) = (x, s4)"
    obtain r2 s2 where 2: "nvs_read_blob_alloc ops a1 h KEY_RESUME_DESC True s1 = (r2, s2)" by fastforce
    obtain r3 s3 where 3: "nvs_read_blob_alloc ops a2 h KEY_RESUME_DATA True s2 = (r3, s3)" by fastforce
    note b2 = read_blob_cases [OF d1 o1 _ 2, simplified]
    note b3 = read_blob_cases [OF conjunct1 [OF b2] conjunct1 [OF conjunct2 [OF b2]] _ 3, simplified]
    show "\<exists>m'. disk s4 ?p ?n m' \<and> (m' = m \<and> (x = (ERR_FAIL, None) \<or> x = (ERR_NOT_FOUND, None) \<or>
     (\<exists>t1 db t2 tb. m KEY_RESUME_DESC = Some (t1, db) \<and> length db = SIZEOF_RESUME_DESC \<and> m KEY_RESUME_DATA = Some (t2, tb) \<and>
       x = (ERR_OK, Some (desc_of_bytes db, tb @ [0], length tb)))))"
    proof (cases r2)
      case None
      then show ?thesis using f 2 b2 by (auto simp: esp_rmaker_nvs_get_binary_with_handle_def)
    next
      case (Some q)
      then obtain t1 db where q: "m KEY_RESUME_DESC = Some (t1, db)" "q = (db @ [0], length db)" using b2 by auto
      show ?thesis
      proof (cases "length db = SIZEOF_RESUME_DESC \<and> r3 \<noteq> None")
        case True
        then obtain t2 tb where t: "m KEY_RESUME_DATA = Some (t2, tb)" "r3 = Some (tb @ [0], length tb)" using b3 by auto
        have "x = (ERR_OK, Some (desc_of_bytes db, tb @ [0], length tb))" "s4 = s3"
          using f 2 3 Some q True t by (auto simp: esp_rmaker_nvs_get_binary_with_handle_def)
        then show ?thesis using b3 q t True by blast
      next
        case False
        then have "x = (ERR_NOT_FOUND, None)" "s4 = s2 \<or> s4 = s3"
          using f 2 3 Some q by (cases r3; auto simp: esp_rmaker_nvs_get_binary_with_handle_def split: if_splits)+
        then show ?thesis using b2 b3 by blast
      qed
    qed
  qed simp
  then show ?thesis by blast
qed

end

lemma desc_roundtrip: "length (rd_md5_hex d) = 33 \<Longrightarrow> desc_of_bytes (desc_bytes d) = d"
  by (cases d) (simp add: desc_of_bytes_def desc_bytes_def mem_read_def nth_append)

context kv_storage
begin

lemma resume_save_cases:
  assumes "disk s RMAKER_NVS_PART_NAME RMAKER_NVS_OTA_NAMESPACE m" "length (rd_md5_hex d) = 33" "length bs < 2 ^ 32"
    and "ota_nvs_resume_save ops (Some d) (Some bs) (length bs) s = (rc, s')"
  defines "m1 \<equiv> m(KEY_RESUME_DATA \<mapsto> (type_byte TYPE_BINARY, bs))"
  shows "\<exists>m'. disk s' RMAKER_NVS_PART_NAME RMAKER_NVS_OTA_NAMESPACE m' \<and>
    (m' = m \<or> m' = m1 \<or> m' = m1(KEY_RESUME_DESC \<mapsto> (type_byte TYPE_BINARY, desc_bytes d))) \<and>
    (rc = ERR_OK \<longrightarrow> m' = m1(KEY_RESUME_DESC \<mapsto> (type_byte TYPE_BINARY, desc_bytes d)))"
proof -
  let ?m2 = "m1(KEY_RESUME_DESC \<mapsto> (type_byte TYPE_BINARY, desc_bytes d))"
  let ?I = "\<lambda>m'. m' = m \<or> m' = m1 \<or> m' = ?m2"
  let ?f = "\<lambda>h. and_then (esp_rmaker_nvs_update_binary_with_handle ops h KEY_RESUME_DATA bs)
      (esp_rmaker_nvs_update_binary_with_handle ops h KEY_RESUME_DESC (desc_bytes d))"
  have t: "triple RMAKER_NVS_PART_NAME RMAKER_NVS_OTA_NAMESPACE h ?I (\<lambda>m'. m' = m) (?f h) (\<lambda>m'. m' = ?m2)" for h
    unfolding esp_rmaker_nvs_update_binary_with_handle_def
    using assms(3) length_desc_bytes [OF assms(2)]
    by (intro triple_and_then [where K = "\<lambda>m'. m' = m1"] triple_update) (auto simp: m1_def SIZEOF_RESUME_DESC_def)
  have "on_ota_handle ops id ?f s = (rc, s')" using assms(4) by (simp add: ota_nvs_resume_save_def)
  from on_ota_handle_keeps [OF assms(1) this, where Q = "\<lambda>rc m'. ?I m' \<and> (rc = ERR_OK \<longrightarrow> m' = ?m2)"] t
  show ?thesis unfolding triple_def by auto
qed

lemma exec_typed:
  assumes "disk s RMAKER_NVS_PART_NAME RMAKER_NVS_OTA_NAMESPACE m" "ota_typed m" "op_fits oper"
  shows "\<exists>m'. disk (ota_nvs_exec ops oper s) RMAKER_NVS_PART_NAME RMAKER_NVS_OTA_NAMESPACE m' \<and> ota_typed m'"
proof (cases oper)
  case (Op_set_pending job ft v)
  then show ?thesis
    using set_pending_typed [OF assms(1,2) _ _ surjective_pairing, where filetype = ft and v = v] assms
    by (cases job) (auto simp: ota_nvs_set_job_pending_verification_def [of ops None] split: option.splits)
next
  case (Op_set_status alloc passed ov)
  then show ?thesis using set_status_typed [OF assms(1,2)] by (metis ota_nvs_exec.simps(2) prod.exhaust_sel)
next
  case Op_get_status
  have "disk (snd (with_open ops RMAKER_NVS_PART_NAME RMAKER_NVS_OTA_NAMESPACE OPEN_READONLY (ERR_FAIL, 0 :: u16)
      (\<lambda>h. esp_rmaker_nvs_get_u16_with_handle ops h KEY_STATUS_FLAGS 0) s)) RMAKER_NVS_PART_NAME RMAKER_NVS_OTA_NAMESPACE m"
    using get_leaves [where key = KEY_STATUS_FLAGS and init = "[0, 0]"]
    by (intro with_open_reads [OF assms(1) namespace_named])
      (fastforce simp: esp_rmaker_nvs_get_u16_with_handle_def split: prod.splits)
  then show ?thesis using Op_get_status assms(2)
    by (auto simp: ota_nvs_get_status_def esp_rmaker_nvs_get_u16_def split: prod.splits)
next
  case (Op_last_job_id alloc)
  have "disk (snd (ota_get_last_job_id ops alloc s)) RMAKER_NVS_PART_NAME RMAKER_NVS_OTA_NAMESPACE m"
    unfolding ota_get_last_job_id_def esp_rmaker_nvs_get_string_def
    using blob_leaves [where key = KEY_LAST_JOB_ID and alloc = alloc and nul = True]
    by (intro with_open_reads [OF assms(1) namespace_named])
      (fastforce simp: esp_rmaker_nvs_get_string_with_handle_def split: prod.splits)
  then show ?thesis using Op_last_job_id assms(2) by auto
next
  case (Op_last_filetype alloc)
  have "disk (snd (ota_get_last_filetype ops alloc s)) RMAKER_NVS_PART_NAME RMAKER_NVS_OTA_NAMESPACE m"
    unfolding ota_get_last_filetype_def esp_rmaker_nvs_get_string_def
    using blob_leaves [where key = KEY_LAST_FILETYPE and alloc = alloc and nul = True]
    by (intro with_open_reads [OF assms(1) namespace_named])
      (fastforce simp: esp_rmaker_nvs_get_string_with_handle_def split: prod.splits)
  then show ?thesis using Op_last_filetype assms(2) by auto
next
  case Op_last_version
  have "disk (snd (ota_get_last_version ops s)) RMAKER_NVS_PART_NAME RMAKER_NVS_OTA_NAMESPACE m"
    unfolding ota_get_last_version_def esp_rmaker_nvs_get_int_default_def
    using get_leaves [where key = KEY_LAST_VERSION and init = "[0xFF, 0xFF, 0xFF, 0xFF]"]
    by (intro with_open_reads [OF assms(1) namespace_named])
      (fastforce simp: esp_rmaker_nvs_get_int_default_with_handle_def esp_rmaker_nvs_get_int_with_handle_def
        split: prod.splits)
  then show ?thesis using Op_last_version assms(2) by auto
next
  case Op_clear_all
  then show ?thesis using clear_cases [OF assms(1) namespace_named] assms(2) typed_empty
    by (metis ota_clear_nvs_def ota_nvs_exec.simps(7) prod.exhaust_sel)
next
  case (Op_resume_save desc tracker len)
  then show ?thesis
    using resume_save_typed [OF assms(1,2) _ _ surjective_pairing, where tracker = tracker and len = len] assms
    by (cases desc) (auto simp: ota_nvs_resume_save_def [of ops None])
next
  case (Op_resume_load a1 a2)
  then show ?thesis using resume_load_cases [OF assms(1)] assms(2) by (metis ota_nvs_exec.simps(9) prod.exhaust_sel)
next
  case Op_resume_clear
  then show ?thesis using resume_clear_typed [OF assms(1,2)] by (metis ota_nvs_exec.simps(10) prod.exhaust_sel)
qed

end

section \<open>On a reliable storage\<close>

context reliable_storage
begin

lemma on_ota_handle_good:
  assumes "disk s RMAKER_NVS_PART_NAME RMAKER_NVS_OTA_NAMESPACE m" "ready s RMAKER_NVS_PART_NAME"
    and "\<And>h s1. disk s1 RMAKER_NVS_PART_NAME RMAKER_NVS_OTA_NAMESPACE m \<Longrightarrow> ready s1 RMAKER_NVS_PART_NAME \<Longrightarrow>
      sound s1 h RMAKER_NVS_PART_NAME RMAKER_NVS_OTA_NAMESPACE \<Longrightarrow>
      \<exists>s2. f h s1 = (x, s2) \<and> disk s2 RMAKER_NVS_PART_NAME RMAKER_NVS_OTA_NAMESPACE m' \<and> ready s2 RMAKER_NVS_PART_NAME"
  shows "\<exists>s'. on_ota_handle ops bad f s = (x, s') \<and> disk s' RMAKER_NVS_PART_NAME RMAKER_NVS_OTA_NAMESPACE m' \<and>
    ready s' RMAKER_NVS_PART_NAME"
proof -
  from load_handle_good [OF assms(1,2) namespace_named] obtain h s1 where
    1: "esp_rmaker_load_nvs_handle ops RMAKER_NVS_PART_NAME RMAKER_NVS_OTA_NAMESPACE s = ((ERR_OK, Some h), s1)"
    "disk s1 RMAKER_NVS_PART_NAME RMAKER_NVS_OTA_NAMESPACE m" "sound s1 h RMAKER_NVS_PART_NAME RMAKER_NVS_OTA_NAMESPACE"
    "ready s1 RMAKER_NVS_PART_NAME" by blast
  from assms(3) [OF 1(2,4,3)] obtain s2 where
    2: "f h s1 = (x, s2)" "disk s2 RMAKER_NVS_PART_NAME RMAKER_NVS_OTA_NAMESPACE m'" "ready s2 RMAKER_NVS_PART_NAME" by blast
  then show ?thesis using 1(1) close_law [OF 2(2), of h] close_good [OF 2(3), of h] by (simp add: on_ota_handle_def)
qed

lemma resume_save_good:
  assumes "disk s RMAKER_NVS_PART_NAME RMAKER_NVS_OTA_NAMESPACE m" "ready s RMAKER_NVS_PART_NAME"
    and "length (rd_md5_hex d) = 33" "length bs < 2 ^ 32"
  shows "\<exists>s'. ota_nvs_resume_save ops (Some d) (Some bs) (length bs) s = (ERR_OK, s') \<and>
    disk s' RMAKER_NVS_PART_NAME RMAKER_NVS_OTA_NAMESPACE (m(KEY_RESUME_DATA \<mapsto> (type_byte TYPE_BINARY, bs),
      KEY_RESUME_DESC \<mapsto> (type_byte TYPE_BINARY, desc_bytes d))) \<and> ready s' RMAKER_NVS_PART_NAME"
proof -
  have l: "length (desc_bytes d) < 2 ^ 32" using length_desc_bytes [OF assms(3)] by (simp add: SIZEOF_RESUME_DESC_def)
  have "\<exists>s'. on_ota_handle ops id (\<lambda>h. and_then (esp_rmaker_nvs_update_binary_with_handle ops h KEY_RESUME_DATA bs)
      (esp_rmaker_nvs_update_binary_with_handle ops h KEY_RESUME_DESC (desc_bytes d))) s = (ERR_OK, s') \<and>
    disk s' RMAKER_NVS_PART_NAME RMAKER_NVS_OTA_NAMESPACE (m(KEY_RESUME_DATA \<mapsto> (type_byte TYPE_BINARY, bs),
      KEY_RESUME_DESC \<mapsto> (type_byte TYPE_BINARY, desc_bytes d))) \<and> ready s' RMAKER_NVS_PART_NAME"
  proof (rule on_ota_handle_good [OF assms(1,2)])
    fix h s1
    assume 1: "disk s1 RMAKER_NVS_PART_NAME RMAKER_NVS_OTA_NAMESPACE m" "ready s1 RMAKER_NVS_PART_NAME"
      "sound s1 h RMAKER_NVS_PART_NAME RMAKER_NVS_OTA_NAMESPACE"
    from update_with_handle_good [OF 1(1,3,2) ota_keys_ok(6) assms(4), where ty = TYPE_BINARY] obtain s2 where
      2: "update_with_handle ops h KEY_RESUME_DATA bs TYPE_BINARY s1 = (ERR_OK, s2)"
      "disk s2 RMAKER_NVS_PART_NAME RMAKER_NVS_OTA_NAMESPACE (m(KEY_RESUME_DATA \<mapsto> (type_byte TYPE_BINARY, bs)))"
      "sound s2 h RMAKER_NVS_PART_NAME RMAKER_NVS_OTA_NAMESPACE" "ready s2 RMAKER_NVS_PART_NAME" by blast
    from update_with_handle_good [OF 2(2-4) ota_keys_ok(5) l, where ty = TYPE_BINARY] 2(1)
    show "\<exists>s2. and_then (esp_rmaker_nvs_update_binary_with_handle ops h KEY_RESUME_DATA bs)
        (esp_rmaker_nvs_update_binary_with_handle ops h KEY_RESUME_DESC (desc_bytes d)) s1 = (ERR_OK, s2) \<and>
      disk s2 RMAKER_NVS_PART_NAME RMAKER_NVS_OTA_NAMESPACE (m(KEY_RESUME_DATA \<mapsto> (type_byte TYPE_BINARY, bs),
        KEY_RESUME_DESC \<mapsto> (type_byte TYPE_BINARY, desc_bytes d))) \<and> ready s2 RMAKER_NVS_PART_NAME"
      by (auto simp: and_then_def esp_rmaker_nvs_update_binary_with_handle_def)
  qed
  then show ?thesis by (simp add: ota_nvs_resume_save_def)
qed

lemma resume_load_good:
  assumes "disk s RMAKER_NVS_PART_NAME RMAKER_NVS_OTA_NAMESPACE m" "ready s RMAKER_NVS_PART_NAME"
    and "m KEY_RESUME_DESC = Some (t1, db)" "length db = SIZEOF_RESUME_DESC" "m KEY_RESUME_DATA = Some (t2, tb)"
  shows "\<exists>s'. ota_nvs_resume_load ops True True s = ((ERR_OK, Some (desc_of_bytes db, tb @ [0], length tb)), s') \<and>
    disk s' RMAKER_NVS_PART_NAME RMAKER_NVS_OTA_NAMESPACE m \<and> ready s' RMAKER_NVS_PART_NAME"
  unfolding ota_nvs_resume_load_def
proof (rule on_ota_handle_good [OF assms(1,2)])
  fix h s1
  assume 1: "disk s1 RMAKER_NVS_PART_NAME RMAKER_NVS_OTA_NAMESPACE m" "ready s1 RMAKER_NVS_PART_NAME"
    "sound s1 h RMAKER_NVS_PART_NAME RMAKER_NVS_OTA_NAMESPACE"
  from read_blob_good [OF 1(1,3,2) ota_keys_ok(5) assms(3), where nul = True] obtain s2 where
    2: "nvs_read_blob_alloc ops True h KEY_RESUME_DESC True s1 = (Some (db @ [0], length db), s2)"
    "disk s2 RMAKER_NVS_PART_NAME RMAKER_NVS_OTA_NAMESPACE m" "sound s2 h RMAKER_NVS_PART_NAME RMAKER_NVS_OTA_NAMESPACE"
    "ready s2 RMAKER_NVS_PART_NAME" by auto
  from read_blob_good [OF 2(2-4) ota_keys_ok(6) assms(5), where nul = True] obtain s3 where
    3: "nvs_read_blob_alloc ops True h KEY_RESUME_DATA True s2 = (Some (tb @ [0], length tb), s3)"
    "disk s3 RMAKER_NVS_PART_NAME RMAKER_NVS_OTA_NAMESPACE m" "ready s3 RMAKER_NVS_PART_NAME" by auto
  show "\<exists>s2. (case esp_rmaker_nvs_get_binary_with_handle ops True h KEY_RESUME_DESC s1 of (desc_blob, s2) \<Rightarrow>
      case desc_blob of
        None \<Rightarrow> ((ERR_NOT_FOUND, None), s2)
      | Some (db, desc_len) \<Rightarrow>
          if desc_len \<noteq> SIZEOF_RESUME_DESC then ((ERR_NOT_FOUND, None), s2)
          else case esp_rmaker_nvs_get_binary_with_handle ops True h KEY_RESUME_DATA s2 of (tracker_blob, s3) \<Rightarrow>
            (case tracker_blob of
               None \<Rightarrow> ((ERR_NOT_FOUND, None), s3)
             | Some (tb, tracker_len) \<Rightarrow>
                 ((ERR_OK, Some (desc_of_bytes (take SIZEOF_RESUME_DESC db), tb, tracker_len)), s3))) =
      ((ERR_OK, Some (desc_of_bytes db, tb @ [0], length tb)), s2) \<and>
    disk s2 RMAKER_NVS_PART_NAME RMAKER_NVS_OTA_NAMESPACE m \<and> ready s2 RMAKER_NVS_PART_NAME"
    using 2(1) 3 assms(4) by (simp add: esp_rmaker_nvs_get_binary_with_handle_def)
qed

end

text \<open>The verdict: recorded when a job waits and none was recorded, or when it overrides. The second result
shows the buffer that stays allocated.\<close>

context reliable_storage
begin

lemma set_status_good:
  assumes "disk s RMAKER_NVS_PART_NAME RMAKER_NVS_OTA_NAMESPACE m" "ready s RMAKER_NVS_PART_NAME"
    and "m KEY_LAST_JOB_ID = Some (t1, job)" "job \<noteq> []" "hd job \<noteq> 0"
    and "m KEY_LAST_VERSION = Some (t2, le_bytes 4 (v :: u32))" "0 \<le> sint v"
    and "m KEY_STATUS_FLAGS = Some (t3, le_bytes 2 w)"
  shows "\<exists>s'. ota_nvs_set_status_if_pending_verification ops True passed override_existing s = ((ERR_OK, True), s') \<and>
    disk s' RMAKER_NVS_PART_NAME RMAKER_NVS_OTA_NAMESPACE
      (if override_existing \<or> \<not> is_checked (u16_to_flags w)
       then m(KEY_STATUS_FLAGS \<mapsto> (type_byte TYPE_U16, le_bytes 2 (flags_to_u16 \<lparr>is_checked = True, is_passed = passed\<rparr>)))
       else m) \<and> ready s' RMAKER_NVS_PART_NAME"
  unfolding ota_nvs_set_status_if_pending_verification_def
proof (rule on_ota_handle_good [OF assms(1,2)])
  let ?p = "RMAKER_NVS_PART_NAME" and ?n = "RMAKER_NVS_OTA_NAMESPACE"
  fix h s1
  assume 1: "disk s1 ?p ?n m" "ready s1 ?p" "sound s1 h ?p ?n"
  from read_blob_good [OF 1(1,3,2) ota_keys_ok(1) assms(3), where nul = True] obtain s2 where
    2: "nvs_read_blob_alloc ops True h KEY_LAST_JOB_ID True s1 = (Some (job @ [0], length job), s2)"
    "disk s2 ?p ?n m" "sound s2 h ?p ?n" "ready s2 ?p" by auto
  from get_with_handle_good [OF 2(2-4) ota_keys_ok(3) assms(6), where init = "[0xFF, 0xFF, 0xFF, 0xFF]"] obtain s3 where
    3: "get_with_handle ops h KEY_LAST_VERSION [0xFF, 0xFF, 0xFF, 0xFF] s2 = ((ERR_OK, le_bytes 4 v), s3)"
    "disk s3 ?p ?n m" "sound s3 h ?p ?n" "ready s3 ?p" by (auto simp: mem_write_def)
  from get_with_handle_good [OF 3(2-4) ota_keys_ok(4) assms(8), where init = "[0, 0]"] obtain s4 where
    4: "get_with_handle ops h KEY_STATUS_FLAGS [0, 0] s3 = ((ERR_OK, le_bytes 2 w), s4)"
    "disk s4 ?p ?n m" "sound s4 h ?p ?n" "ready s4 ?p" by (auto simp: mem_write_def)
  let ?f = "\<lparr>is_checked = True, is_passed = passed\<rparr>"
  from update_with_handle_good [OF 4(2-4) ota_keys_ok(4), where val = "le_bytes 2 (flags_to_u16 ?f)" and ty = TYPE_U16]
  obtain s5 where
    5: "update_with_handle ops h KEY_STATUS_FLAGS (le_bytes 2 (flags_to_u16 ?f)) TYPE_U16 s4 = (ERR_OK, s5)"
    "disk s5 ?p ?n (m(KEY_STATUS_FLAGS \<mapsto> (type_byte TYPE_U16, le_bytes 2 (flags_to_u16 ?f))))" "ready s5 ?p" by auto
  have upd: "(u16_to_flags w)\<lparr>is_checked := True, is_passed := passed\<rparr> = ?f" by (simp add: u16_to_flags_def)
  show "\<exists>s2. (case esp_rmaker_nvs_get_string_with_handle ops True h KEY_LAST_JOB_ID s1 of (job_id, s2) \<Rightarrow>
      case job_id of
        None \<Rightarrow> ((ERR_OK, False), s2)
      | Some job \<Rightarrow>
          if hd job = 0 then ((ERR_OK, True), s2)
          else case esp_rmaker_nvs_get_int_default_with_handle ops h KEY_LAST_VERSION (- 1) s2 of (v, s3) \<Rightarrow>
            if sint v < 0 then ((ERR_OK, True), s3)
            else case esp_rmaker_nvs_get_u16_with_handle ops h KEY_STATUS_FLAGS 0 s3 of ((e, w), s4) \<Rightarrow>
              if e \<noteq> ERR_OK then ((e, True), s4)
              else let flags = u16_to_flags w in
                if \<not> override_existing \<and> is_checked flags then ((e, True), s4)
                else case esp_rmaker_nvs_update_u16_with_handle ops h KEY_STATUS_FLAGS
                    (flags_to_u16 (flags\<lparr>is_checked := True, is_passed := passed\<rparr>)) s4 of
                  (e2, s5) \<Rightarrow> ((e2, True), s5)) = ((ERR_OK, True), s2) \<and>
    disk s2 ?p ?n (if override_existing \<or> \<not> is_checked (u16_to_flags w)
       then m(KEY_STATUS_FLAGS \<mapsto> (type_byte TYPE_U16, le_bytes 2 (flags_to_u16 ?f))) else m) \<and> ready s2 ?p"
    using 2(1) 3(1) 4 5 assms(4,5,7)
    by (simp add: upd esp_rmaker_nvs_get_string_with_handle_def esp_rmaker_nvs_get_int_default_with_handle_def
        esp_rmaker_nvs_get_int_with_handle_def esp_rmaker_nvs_get_u16_with_handle_def
        esp_rmaker_nvs_update_u16_with_handle_def Let_def)
qed

end

section \<open>The main properties\<close>

text \<open>C9: The namespace of the update engine keeps its layout: whatever operations of \<^verbatim>\<open>ota_nvs.c\<close> run in
whatever order, whatever system calls and allocations fail, and wherever the process dies, every key holds a
value of its type, size and range, the flags are there only with a version, and a version only with a job.\<close>

theorem ota_namespace_typed:
  assumes "posix_disk s RMAKER_NVS_PART_NAME RMAKER_NVS_OTA_NAMESPACE m" "ota_typed m" "\<forall>oper \<in> set opers. op_fits oper"
  shows "\<exists>m'. posix_disk (fold (ota_nvs_exec (posix_ops env)) opers s) RMAKER_NVS_PART_NAME RMAKER_NVS_OTA_NAMESPACE m' \<and>
    ota_typed m'"
  using assms
proof (induction opers arbitrary: s m)
  case (Cons oper opers)
  from posix.exec_typed [OF Cons.prems(1,2), of oper env] Cons.prems(3) show ?case using Cons.IH by auto
qed auto

definition empty_fs :: fs where
  "empty_fs = start_fs\<lparr>fs_dir := []\<rparr>"

lemma empty_fs_disk: "posix_disk empty_fs p ns Map.empty" "posix_ready no_failures empty_fs RMAKER_NVS_PART_NAME"
  by (simp_all add: posix_disk_def empty_fs_def start_fs_def fs_ok_def content_def posix_ready_def
      partition_inited_locked_def normalize_partition_name_def RMAKER_NVS_PART_NAME_def slot_named_def)

definition sample_desc :: resume_desc where
  "sample_desc = \<lparr>rd_md5_hex = replicate 32 97 @ [0], rd_filesize = 5000, rd_transport = 1, rd_block_size = 3042\<rparr>"

theorem ota_namespace_typed_witness:
  "\<exists>m'. posix_disk (fold (ota_nvs_exec (posix_ops no_failures))
      [Op_set_pending (Some [74, 49]) None 7, Op_set_status True True False, Op_resume_save (Some sample_desc) (Some [3]) 1]
      empty_fs) RMAKER_NVS_PART_NAME RMAKER_NVS_OTA_NAMESPACE m' \<and> ota_typed m'"
  by (rule ota_namespace_typed [OF empty_fs_disk(1) typed_empty]) (simp add: sample_desc_def)

text \<open>C10: What \<open>ota_nvs_resume_save\<close> stored, \<open>ota_nvs_resume_load\<close> returns, in the same or a later run of the process: with no
failing calls and allocations both succeed and the descriptor and the tracker come back as they were. Under
failures a load after a successful save returns them or an error, and after an interrupted one also the
descriptor that was there before, with its tracker or already the new one; so nothing is loaded that no
descriptor was stored for.\<close>

theorem ota_resume_roundtrip:
  assumes "posix_disk s RMAKER_NVS_PART_NAME RMAKER_NVS_OTA_NAMESPACE m" "length (rd_md5_hex d) = 33" "length bs < 2 ^ 32"
    and "ota_nvs_resume_save (posix_ops env) (Some d) (Some bs) (length bs) s = (rc, s1)"
    and "ota_nvs_resume_load (posix_ops env') alloc1 alloc2 s1 = (r, s2)"
  shows "(rc = ERR_OK \<longrightarrow> r = (ERR_FAIL, None) \<or> r = (ERR_NOT_FOUND, None) \<or> r = (ERR_OK, Some (d, bs @ [0], length bs))) \<and>
    (\<forall>d' tb n. r = (ERR_OK, Some (d', tb, n)) \<longrightarrow> (d', tb, n) = (d, bs @ [0], length bs) \<or>
       (\<exists>t db. m KEY_RESUME_DESC = Some (t, db) \<and> d' = desc_of_bytes db \<and>
         ((tb, n) = (bs @ [0], length bs) \<or> (\<exists>t old. m KEY_RESUME_DATA = Some (t, old) \<and> (tb, n) = (old @ [0], length old))))) \<and>
    (posix_ready env s RMAKER_NVS_PART_NAME \<and> all_good env' \<and> alloc1 \<and> alloc2 \<longrightarrow>
       rc = ERR_OK \<and> r = (ERR_OK, Some (d, bs @ [0], length bs)))"
proof -
  let ?p = "RMAKER_NVS_PART_NAME" and ?n = "RMAKER_NVS_OTA_NAMESPACE"
  let ?m1 = "m(KEY_RESUME_DATA \<mapsto> (type_byte TYPE_BINARY, bs))"
  let ?m2 = "?m1(KEY_RESUME_DESC \<mapsto> (type_byte TYPE_BINARY, desc_bytes d))"
  from posix.resume_save_cases [OF assms(1-4)] obtain m' where m': "posix_disk s1 ?p ?n m'"
    "m' = m \<or> m' = ?m1 \<or> m' = ?m2" "rc = ERR_OK \<longrightarrow> m' = ?m2" by blast
  note l = posix.resume_load_cases [OF m'(1) assms(5)]
  have d: "desc_of_bytes (desc_bytes d) = d" by (rule desc_roundtrip [OF assms(2)])
  have "rc = ERR_OK \<longrightarrow> r = (ERR_FAIL, None) \<or> r = (ERR_NOT_FOUND, None) \<or> r = (ERR_OK, Some (d, bs @ [0], length bs))"
    using l m'(3) d by auto
  moreover have "\<forall>d' tb n. r = (ERR_OK, Some (d', tb, n)) \<longrightarrow> (d', tb, n) = (d, bs @ [0], length bs) \<or>
       (\<exists>t db. m KEY_RESUME_DESC = Some (t, db) \<and> d' = desc_of_bytes db \<and>
         ((tb, n) = (bs @ [0], length bs) \<or> (\<exists>t old. m KEY_RESUME_DATA = Some (t, old) \<and> (tb, n) = (old @ [0], length old))))"
    using l m'(2) d by fastforce
  moreover have "rc = ERR_OK \<and> r = (ERR_OK, Some (d, bs @ [0], length bs))"
    if good: "posix_ready env s ?p" "all_good env'" "alloc1" "alloc2"
  proof -
    from reliable.resume_save_good [OF assms(1) good(1) assms(2,3)] assms(4)
    have 1: "rc = ERR_OK" "posix_disk s1 ?p ?n ?m2" "posix_ready env s1 ?p" by auto
    then have "posix_ready env' s1 ?p" using good(2) by (simp add: posix_ready_def)
    from reliable.resume_load_good [OF 1(2) this] assms(5) good length_desc_bytes [OF assms(2)] d 1(1)
    show ?thesis by auto
  qed
  ultimately show ?thesis by blast
qed

theorem ota_resume_roundtrip_witness:
  "\<exists>s1 s2. ota_nvs_resume_save (posix_ops no_failures) (Some sample_desc) (Some [3, 5]) 2 empty_fs = (ERR_OK, s1) \<and>
    ota_nvs_resume_load (posix_ops no_failures) True True s1 = ((ERR_OK, Some (sample_desc, [3, 5, 0], 2)), s2)"
proof -
  obtain rc s1 where 1: "ota_nvs_resume_save (posix_ops no_failures) (Some sample_desc) (Some [3, 5]) (length [3, 5 :: byte])
    empty_fs = (rc, s1)" by fastforce
  obtain r s2 where 2: "ota_nvs_resume_load (posix_ops no_failures) True True s1 = (r, s2)" by fastforce
  have len: "length (rd_md5_hex sample_desc) = 33" "length [3, 5 :: byte] < 2 ^ 32" by (simp_all add: sample_desc_def)
  have "posix_ready no_failures empty_fs RMAKER_NVS_PART_NAME \<and> all_good no_failures \<and> True \<and> True"
    using empty_fs_disk(2) by simp
  from ota_resume_roundtrip [OF empty_fs_disk(1) len 1 2, THEN conjunct2, THEN conjunct2, THEN mp, OF this]
  have "rc = ERR_OK" "r = (ERR_OK, Some (sample_desc, [3, 5, 0], 2))" by simp_all
  then show ?thesis using 1 2 by (simp add: numeral_2_eq_2)
qed

end
