(* ===== verification/Ota_Image.thy ===== *)
theory Ota_Image
  imports Ota_Bitmap Ota_Nvs
begin

text \<open>What happens to a downloaded image (\<^verbatim>\<open>ota_image_handler.c\<close>, \<^verbatim>\<open>ota_image_progress.c\<close>,
\<^verbatim>\<open>ota_timeout_handler.c\<close>, and the status timer of \<^verbatim>\<open>ota_filetype_handler_internal.c\<close>), and the state of the MQTT
download that owns it. The filetype handlers are operations on a state of their own; what the handlers of an
application do is not known, those of the library are in theory \<^verbatim>\<open>Ota_Filetype\<close>. Signature verification is off, as in
the default configuration. Every call that can fail takes its answer from the environment by its number.\<close>

section \<open>The filetype handlers\<close>

text \<open>A download handle is a pointer, \<open>None\<close> is \<^verbatim>\<open>NULL\<close>; handlers that may be absent are options.\<close>

record 'w ft_ops =
  fo_begin :: "nat \<Rightarrow> 'w \<Rightarrow> (err \<times> nat option) \<times> 'w"
  fo_resume :: "(nat \<Rightarrow> nat \<Rightarrow> 'w \<Rightarrow> (err \<times> nat option) \<times> 'w) option"
  fo_chunk :: "nat \<Rightarrow> byte list \<Rightarrow> nat \<Rightarrow> 'w \<Rightarrow> err \<times> 'w"
  fo_complete :: "nat option \<Rightarrow> bool \<Rightarrow> 'w \<Rightarrow> err \<times> 'w"
  fo_get_md5 :: "(nat option \<Rightarrow> 'w \<Rightarrow> (err \<times> byte list) \<times> 'w) option"
  fo_verify_header :: "(nat option \<Rightarrow> byte list option \<Rightarrow> 'w \<Rightarrow> err \<times> 'w) option"
  fo_integration :: "nat option \<Rightarrow> 'w \<Rightarrow> err \<times> 'w"
  fo_post_checks :: "nat option \<Rightarrow> bool \<Rightarrow> 'w \<Rightarrow> (err \<times> bool) \<times> 'w"

section \<open>The state\<close>

text \<open>A timeout handler: no context, or one whose scheduled task was never created, is stopped (or has run), or
waits to run.\<close>

datatype timer_task = No_task | Stopped | Armed

datatype timer = No_ctx | Ctx timer_task

record image_ctx =
  ih_handle :: "nat option"
  ih_image_size :: nat
  ih_ft_set :: bool
  ih_fw_version :: "byte list option"
  ih_md5 :: "byte list option"

definition zero_image :: image_ctx where
  "zero_image = \<lparr>ih_handle = None, ih_image_size = 0, ih_ft_set = False, ih_fw_version = None, ih_md5 = None\<rparr>"

record progress =
  pr_received :: u32
  pr_next :: u32
  pr_inc :: u32

definition zero_progress :: progress where
  "zero_progress = \<lparr>pr_received = 0, pr_next = 0, pr_inc = 0\<rparr>"

record block_request =
  br_timer :: timer
  br_success :: bool
  br_failure :: bool
  br_per_request :: nat
  br_retries :: u32
  br_max :: u32
  br_mutex :: bool

definition zero_block_request :: block_request where
  "zero_block_request = \<lparr>br_timer = No_ctx, br_success = False, br_failure = False, br_per_request = 0,
     br_retries = 0, br_max = 0, br_mutex = False\<rparr>"

text \<open>The fields of the job data that a download reads.\<close>

record dl_job =
  jb_filesize :: int
  jb_file_id :: u32
  jb_stream_id :: "byte list option"
  jb_fw_version :: "byte list option"
  jb_md5 :: "byte list option"

datatype download_event =
    EV_SUCCEEDED | EV_TIMEOUT | EV_FAILED_SETUP | EV_FAILED_STREAM_SUBSCRIPTION | EV_FAILED_UNKNOWN_ERROR
  | EV_FAILED_POST_DOWNLOAD_CHECKS | EV_FAILED_IMAGE_HEADER_INVALID | EV_FAILED_MD5_INVALID

text \<open>What the outside sees, newest first in the log.\<close>

datatype dl_effect =
    Chunk nat "byte list" | Opened_fresh nat | Opened_resume nat | Posted download_event bool | Progress_posted u32
  | Published request | Resumed_posted u32

datatype dl_task = Write_chunk "byte list" | Failure_task | Sub_retry_work

datatype mqtt_event = Ev_connected | Ev_disconnected | Ev_subscribed

record ('s, 'w) dl_sys =
  dl_calls :: nat
  dl_log :: "dl_effect list"
  dl_fault :: bool
  dl_lost :: nat
  dl_nvs :: 's
  dl_ft :: 'w
  dl_status_timer :: timer
  dl_chunk_buffer :: bool
  dl_active :: bool
  dl_job_data :: "dl_job option"
  dl_file_id :: u32
  dl_image :: image_ctx
  dl_bitmap :: bitmap
  dl_request :: request
  dl_progress :: progress
  dl_block :: block_request
  dl_sub_intended :: bool
  dl_sub_retry :: bool
  dl_handlers :: "mqtt_event list"
  dl_resume_enabled :: bool
  dl_resume_pending :: bool
  dl_desc :: resume_desc
  dl_wq :: "dl_task list"

text \<open>A decoded data block: the file and block ids and the block size it names, and its data.\<close>

record data_block =
  db_file_id :: int
  db_block_id :: int
  db_block_size :: int
  db_data :: "byte list"

record dl_env =
  de_err :: "nat \<Rightarrow> err"
  de_alloc :: "nat \<Rightarrow> bool"
  de_decode :: "byte list \<Rightarrow> data_block option"
  de_stream_name_max :: nat

definition dl_tick :: "('s, 'w) dl_sys \<Rightarrow> ('s, 'w) dl_sys" where
  "dl_tick s = s\<lparr>dl_calls := Suc (dl_calls s)\<rparr>"

definition emit :: "dl_effect \<Rightarrow> ('s, 'w) dl_sys \<Rightarrow> ('s, 'w) dl_sys" where
  "emit e s = s\<lparr>dl_log := e # dl_log s\<rparr>"

definition dl_ask :: "dl_env \<Rightarrow> ('s, 'w) dl_sys \<Rightarrow> err \<times> ('s, 'w) dl_sys" where
  "dl_ask env s = (de_err env (dl_calls s), dl_tick s)"

definition get_mem :: "dl_env \<Rightarrow> ('s, 'w) dl_sys \<Rightarrow> bool \<times> ('s, 'w) dl_sys" where
  "get_mem env s = (de_alloc env (dl_calls s), dl_tick s)"

text \<open>The globals before any download.\<close>

definition dl_boot :: "'s \<Rightarrow> 'w \<Rightarrow> ('s, 'w) dl_sys" where
  "dl_boot nvs w = \<lparr>dl_calls = 0, dl_log = [], dl_fault = False, dl_lost = 0, dl_nvs = nvs, dl_ft = w,
     dl_status_timer = No_ctx, dl_chunk_buffer = False, dl_active = False, dl_job_data = None, dl_file_id = 0,
     dl_image = zero_image, dl_bitmap = \<lparr>bm_cells = None, bm_block_count = 0, bm_unprocessed = 0\<rparr>,
     dl_request = zero_request, dl_progress = zero_progress, dl_block = zero_block_request, dl_sub_intended = False,
     dl_sub_retry = False, dl_handlers = [], dl_resume_enabled = False, dl_resume_pending = False,
     dl_desc = \<lparr>rd_md5_hex = replicate 33 0, rd_filesize = 0, rd_transport = 0, rd_block_size = 0\<rparr>, dl_wq = []\<rparr>"

section \<open>Timeout handlers\<close>

definition timeout_handler_init :: "dl_env \<Rightarrow> timer \<Rightarrow> ('s, 'w) dl_sys \<Rightarrow> (err \<times> timer) \<times> ('s, 'w) dl_sys" where
  "timeout_handler_init env t s =
    (case get_mem env s of (ok, s1) \<Rightarrow> if ok then ((ERR_OK, Ctx No_task), s1) else ((ERR_NO_MEM, t), s1))"

definition timeout_handler_deinit :: "dl_env \<Rightarrow> timer \<Rightarrow> ('s, 'w) dl_sys \<Rightarrow> err \<times> ('s, 'w) dl_sys" where
  "timeout_handler_deinit env t s =
    (case t of
       No_ctx \<Rightarrow> (ERR_INVALID_ARG, s)
     | Ctx task \<Rightarrow> (ERR_OK, if task = No_task then s else snd (dl_ask env s)))"

definition timeout_handler_restart :: "dl_env \<Rightarrow> timer \<Rightarrow> ('s, 'w) dl_sys \<Rightarrow> (err \<times> timer) \<times> ('s, 'w) dl_sys" where
  "timeout_handler_restart env t s =
    (case t of
       No_ctx \<Rightarrow> ((ERR_INVALID_ARG, t), s)
     | Ctx task \<Rightarrow>
         (case dl_ask env s of (e, s1) \<Rightarrow> if e \<noteq> ERR_OK then ((ERR_FAIL, t), s1) else ((ERR_OK, Ctx Armed), s1)))"

definition timeout_handler_stop :: "dl_env \<Rightarrow> timer \<Rightarrow> ('s, 'w) dl_sys \<Rightarrow> (err \<times> timer) \<times> ('s, 'w) dl_sys" where
  "timeout_handler_stop env t s =
    (case t of
       No_ctx \<Rightarrow> ((ERR_INVALID_ARG, t), s)
     | Ctx task \<Rightarrow>
         if task = No_task then ((ERR_OK, t), s)
         else (case dl_ask env s of (e, s1) \<Rightarrow> if e = ERR_OK then ((ERR_OK, Ctx Stopped), s1) else ((ERR_FAIL, t), s1)))"

section \<open>Progress\<close>

definition PROGRESS_CHECKPOINTS :: u32 where
  "PROGRESS_CHECKPOINTS = 10"

definition image_progress_report_progress :: "progress \<Rightarrow> ('s, 'w) dl_sys \<Rightarrow> ('s, 'w) dl_sys" where
  "image_progress_report_progress p s = emit (Progress_posted (pr_received p)) s"

definition image_progress_init :: "u32 \<Rightarrow> progress \<Rightarrow> err \<times> progress" where
  "image_progress_init filesize p =
    (if filesize = 0 then (ERR_INVALID_ARG, p)
     else let inc = filesize div PROGRESS_CHECKPOINTS in
       (ERR_OK, \<lparr>pr_received = 0, pr_next = inc, pr_inc = inc\<rparr>))"

definition image_progress_add_bytes :: "u32 \<Rightarrow> ('s, 'w) dl_sys \<Rightarrow> err \<times> ('s, 'w) dl_sys" where
  "image_progress_add_bytes bytes s =
    (let p = (dl_progress s)\<lparr>pr_received := pr_received (dl_progress s) + bytes\<rparr>;
         s1 = s\<lparr>dl_progress := p\<rparr> in
     if pr_next p \<le> pr_received p
     then (ERR_OK, (image_progress_report_progress p s1)\<lparr>dl_progress := p\<lparr>pr_next := pr_next p + pr_inc p\<rparr>\<rparr>)
     else (ERR_OK, s1))"

definition image_progress_seed :: "u32 \<Rightarrow> progress \<Rightarrow> progress" where
  "image_progress_seed bytes p =
    (let p1 = p\<lparr>pr_received := bytes\<rparr> in
     if 0 < pr_inc p1 then p1\<lparr>pr_next := (bytes div pr_inc p1 + 1) * pr_inc p1\<rparr> else p1)"

section \<open>The status timer\<close>

definition filetype_handler_status_timer_start :: "dl_env \<Rightarrow> ('s, 'w) dl_sys \<Rightarrow> err \<times> ('s, 'w) dl_sys" where
  "filetype_handler_status_timer_start env s =
    (let start = (\<lambda>t s. case timeout_handler_restart env t s of ((e, t'), s') \<Rightarrow> (e, s'\<lparr>dl_status_timer := t'\<rparr>)) in
     if dl_status_timer s = No_ctx
     then case timeout_handler_init env No_ctx s of ((e, t), s1) \<Rightarrow>
       if e \<noteq> ERR_OK then (e, s1) else start t (s1\<lparr>dl_status_timer := t\<rparr>)
     else start (dl_status_timer s) s)"

definition filetype_handler_status_timer_stop :: "dl_env \<Rightarrow> ('s, 'w) dl_sys \<Rightarrow> err \<times> ('s, 'w) dl_sys" where
  "filetype_handler_status_timer_stop env s =
    (if dl_status_timer s = No_ctx then (ERR_OK, s)
     else case timeout_handler_deinit env (dl_status_timer s) s of (e, s1) \<Rightarrow>
       if e \<noteq> ERR_OK then (e, s1) else (ERR_OK, s1\<lparr>dl_status_timer := No_ctx\<rparr>))"

section \<open>Digests as text\<close>

definition hex_digit :: "nat \<Rightarrow> byte" where
  "hex_digit n = word_of_nat (if n < 10 then 48 + n else 87 + n)"

text \<open>\<open>None\<close> is the error return; the string is given without its terminator.\<close>

definition convert_bytes_to_hex :: "byte list \<Rightarrow> nat \<Rightarrow> byte list option" where
  "convert_bytes_to_hex bytes hex_str_size =
    (if hex_str_size < length bytes * 2 + 1 then None
     else Some (concat (map (\<lambda>b. [hex_digit (unat b div 16), hex_digit (unat b mod 16)]) bytes)))"

definition lower :: "byte \<Rightarrow> byte" where
  "lower b = (if 65 \<le> b \<and> b \<le> 90 then b + 32 else b)"

definition c_text :: "byte list \<Rightarrow> byte list" where
  "c_text bs = takeWhile (\<lambda>b. b \<noteq> 0) bs"

definition strcasecmp_same :: "byte list \<Rightarrow> byte list \<Rightarrow> bool" where
  "strcasecmp_same xs ys \<longleftrightarrow> map lower (c_text xs) = map lower (c_text ys)"

section \<open>The image handler\<close>

text \<open>A stash of a job string: nothing for \<^verbatim>\<open>NULL\<close> or an empty string.\<close>

definition stash :: "dl_env \<Rightarrow> byte list option \<Rightarrow> ('s, 'w) dl_sys \<Rightarrow> (bool \<times> byte list option) \<times> ('s, 'w) dl_sys" where
  "stash env str s =
    (case str of
       None \<Rightarrow> ((True, None), s)
     | Some bs \<Rightarrow>
         if c_text bs = [] then ((True, None), s)
         else case get_mem env s of (ok, s1) \<Rightarrow> if ok then ((True, Some (c_text bs)), s1) else ((False, None), s1))"

definition image_handler_begin_fail :: "'w ft_ops \<Rightarrow> err \<Rightarrow> image_ctx \<Rightarrow> ('s, 'w) dl_sys \<Rightarrow> (err \<times> image_ctx) \<times> ('s, 'w) dl_sys"
where
  "image_handler_begin_fail ft e ic s =
    (let ic1 = ic\<lparr>ih_fw_version := None, ih_md5 := None\<rparr> in
     if ih_handle ic = None then ((e, ic1), s)
     else case fo_complete ft (ih_handle ic) False (dl_ft s) of (_, w) \<Rightarrow>
       ((e, ic1\<lparr>ih_handle := None\<rparr>), s\<lparr>dl_ft := w\<rparr>))"

definition image_handler_begin ::
  "dl_env \<Rightarrow> 'w ft_ops \<Rightarrow> nat \<Rightarrow> byte list option \<Rightarrow> byte list option \<Rightarrow> bool \<Rightarrow> nat \<Rightarrow> image_ctx \<Rightarrow> ('s, 'w) dl_sys \<Rightarrow>
    (err \<times> image_ctx) \<times> ('s, 'w) dl_sys" where
  "image_handler_begin env ft image_size fw_version file_md5 resume resume_offset ic0 s =
    (let lost = (if ih_fw_version ic0 = None then 0 else 1) + (if ih_md5 ic0 = None then 0 else 1);
         s0 = s\<lparr>dl_lost := dl_lost s + lost\<rparr>;
         ic = ic0\<lparr>ih_fw_version := None, ih_md5 := None\<rparr> in
     case stash env fw_version s0 of ((ok1, v), s1) \<Rightarrow>
     if \<not> ok1 then ((ERR_NO_MEM, ic), s1)
     else let ic1 = ic\<lparr>ih_fw_version := v\<rparr> in
     case stash env file_md5 s1 of ((ok2, m), s2) \<Rightarrow>
     if \<not> ok2 then image_handler_begin_fail ft ERR_NO_MEM ic1 s2
     else let ic2 = ic1\<lparr>ih_md5 := m\<rparr>;
       (resumed, ic3, s3) =
         (case (resume, fo_resume ft) of
            (True, Some f) \<Rightarrow>
              (case f image_size resume_offset (dl_ft s2) of ((e, h), w) \<Rightarrow>
                if e = ERR_OK
                then (True, ic2\<lparr>ih_handle := h\<rparr>, emit (Opened_resume resume_offset) (s2\<lparr>dl_ft := w\<rparr>))
                else (False, ic2\<lparr>ih_handle := None\<rparr>, s2\<lparr>dl_ft := w\<rparr>))
          | _ \<Rightarrow> (False, ic2, s2)) in
       if resumed then ((ERR_OK, ic3\<lparr>ih_image_size := image_size, ih_ft_set := True\<rparr>), s3)
       else case fo_begin ft image_size (dl_ft s3) of ((e, h), w) \<Rightarrow>
         let ic4 = ic3\<lparr>ih_handle := h\<rparr>; s4 = s3\<lparr>dl_ft := w\<rparr> in
         if e \<noteq> ERR_OK then image_handler_begin_fail ft e ic4 s4
         else ((ERR_OK, ic4\<lparr>ih_image_size := image_size, ih_ft_set := True\<rparr>), emit (Opened_fresh image_size) s4))"

definition image_handler_write_chunk ::
  "'w ft_ops \<Rightarrow> image_ctx \<Rightarrow> byte list \<Rightarrow> u32 \<Rightarrow> ('s, 'w) dl_sys \<Rightarrow> err \<times> ('s, 'w) dl_sys" where
  "image_handler_write_chunk ft ic data offset s =
    (case ih_handle ic of
       None \<Rightarrow> (ERR_INVALID_ARG, s)
     | Some h \<Rightarrow>
         if data = [] then (ERR_INVALID_ARG, s)
         else if ih_image_size ic < unat offset \<or> ih_image_size ic - unat offset < length data then (ERR_INVALID_ARG, s)
         else case fo_chunk ft h data (unat offset) (dl_ft s) of (e, w) \<Rightarrow>
           if e \<noteq> ERR_OK then (e, s\<lparr>dl_ft := w\<rparr>) else (ERR_OK, emit (Chunk (unat offset) data) (s\<lparr>dl_ft := w\<rparr>)))"

datatype image_status =
    STATUS_SUCCESS | STATUS_TIMEOUT | STATUS_FAILED_SETUP | STATUS_FAILED_STREAM_SUBSCRIPTION | STATUS_FAILED_UNKNOWN_ERROR

text \<open>The checks after a complete download. The result is the error, whether all passed, the failure event,
and whether the end of the checks is announced to the handlers.\<close>

definition check_header ::
  "'w ft_ops \<Rightarrow> image_ctx \<Rightarrow> 'w \<Rightarrow> err \<times> 'w" where
  "check_header ft ic w =
    (case fo_verify_header ft of None \<Rightarrow> (ERR_OK, w) | Some f \<Rightarrow> f (ih_handle ic) (ih_fw_version ic) w)"

definition check_md5 :: "'w ft_ops \<Rightarrow> image_ctx \<Rightarrow> 'w \<Rightarrow> bool \<times> 'w" where
  "check_md5 ft ic w =
    (case (ih_md5 ic, fo_get_md5 ft) of
       (Some expected, Some f) \<Rightarrow>
         (case f (ih_handle ic) w of ((e, md5), w1) \<Rightarrow>
           if e \<noteq> ERR_OK then (False, w1)
           else case convert_bytes_to_hex md5 33 of
             None \<Rightarrow> (False, w1)
           | Some hex \<Rightarrow> (strcasecmp_same hex expected, w1))
     | _ \<Rightarrow> (True, w))"

definition complete_and_check ::
  "'w ft_ops \<Rightarrow> image_ctx \<Rightarrow> download_event \<Rightarrow> 'w \<Rightarrow> (err \<times> bool \<times> download_event \<times> bool) \<times> 'w" where
  "complete_and_check ft ic ev w =
    (case fo_complete ft (ih_handle ic) True w of (e, w1) \<Rightarrow>
     if e \<noteq> ERR_OK then ((e, False, ev, False), w1)
     else case check_header ft ic w1 of (e2, w2) \<Rightarrow>
     if e2 \<noteq> ERR_OK then ((ERR_INVALID_STATE, False, EV_FAILED_IMAGE_HEADER_INVALID, True), w2)
     else case check_md5 ft ic w2 of (ok3, w3) \<Rightarrow>
     if \<not> ok3 then ((ERR_INVALID_STATE, False, EV_FAILED_MD5_INVALID, True), w3)
     else case fo_integration ft (ih_handle ic) w3 of (e4, w4) \<Rightarrow>
     if e4 \<noteq> ERR_OK then ((e4, False, ev, True), w4) else ((ERR_OK, True, ev, True), w4))"

text \<open>The result is the error, whether to reboot, and the failure event. The frees of the two copies are in the
caller's reset of the context.\<close>

definition image_handler_end ::
  "dl_env \<Rightarrow> 'w ft_ops \<Rightarrow> image_ctx \<Rightarrow> bool \<Rightarrow> download_event \<Rightarrow> ('s, 'w) dl_sys \<Rightarrow>
    (err \<times> bool \<times> download_event) \<times> ('s, 'w) dl_sys" where
  "image_handler_end env ft ic success ev s =
    (if \<not> ih_ft_set ic then ((ERR_OK, False, ev), s)
     else case (if success then complete_and_check ft ic ev (dl_ft s)
                else case fo_complete ft (ih_handle ic) False (dl_ft s) of (e, w) \<Rightarrow> ((e, False, ev, e = ERR_OK), w))
       of ((e, passed, ev', announce), w) \<Rightarrow>
       let s1 = s\<lparr>dl_ft := w\<rparr> in
       if \<not> announce then ((e, False, ev'), s1)
       else let s2 = (if passed then snd (filetype_handler_status_timer_start env s1) else s1) in
       case fo_post_checks ft (ih_handle ic) passed (dl_ft s2) of ((e2, reboot), w2) \<Rightarrow>
       let s3 = s2\<lparr>dl_ft := w2\<rparr> in
       if e2 \<noteq> ERR_OK then ((e2, reboot, ev'), snd (filetype_handler_status_timer_stop env s3))
       else ((e, reboot, ev'), if reboot then snd (filetype_handler_status_timer_stop env s3) else s3))"

definition status_event :: "image_status \<Rightarrow> download_event" where
  "status_event st =
    (case st of
       STATUS_SUCCESS \<Rightarrow> EV_SUCCEEDED
     | STATUS_FAILED_SETUP \<Rightarrow> EV_FAILED_SETUP
     | STATUS_FAILED_STREAM_SUBSCRIPTION \<Rightarrow> EV_FAILED_STREAM_SUBSCRIPTION
     | STATUS_FAILED_UNKNOWN_ERROR \<Rightarrow> EV_FAILED_UNKNOWN_ERROR
     | STATUS_TIMEOUT \<Rightarrow> EV_TIMEOUT)"

definition image_handler_end_and_cleanup ::
  "dl_env \<Rightarrow> 'w ft_ops \<Rightarrow> ('h, 's) storage_ops \<Rightarrow> image_status \<Rightarrow> (('s, 'w) dl_sys \<Rightarrow> ('s, 'w) dl_sys) \<Rightarrow>
    ('s, 'w) dl_sys \<Rightarrow> ('s, 'w) dl_sys" where
  "image_handler_end_and_cleanup env ft ops status cleanup s =
    (case image_handler_end env ft (dl_image s) (status = STATUS_SUCCESS) EV_FAILED_POST_DOWNLOAD_CHECKS s of
       ((e, reboot, ev), s1) \<Rightarrow>
         let s2 = (if e \<noteq> ERR_OK then emit (Posted ev False) s1 else emit (Posted (status_event status) reboot) s1);
             s3 = (if status = STATUS_SUCCESS then s2\<lparr>dl_nvs := snd (ota_nvs_resume_clear ops (dl_nvs s2))\<rparr> else s2) in
         cleanup s3)"

end
