(* ===== verification/Ota_Filetype.thy ===== *)
theory Ota_Filetype
  imports Ota_Image
begin

text \<open>The filetype handlers of the library for firmware images (the \<^verbatim>\<open>__default_\<close> functions of
\<^verbatim>\<open>ota_filetype_handler_internal.c\<close>), with the heap blocks of their download contexts; the flash layer
(\<^verbatim>\<open>osal_ota.h\<close>) answers from a port. Then what the image handler does with them: after a complete download
the boot partition is only changed once every check passed, and the context is released once; after an
incomplete one it is released twice.\<close>

section \<open>Contexts\<close>

record download_ctx =
  dc_handle :: nat
  dc_partition :: nat
  dc_expected_size :: nat

text \<open>\<open>fw_ctxs\<close> maps the address of a block to its contents while it is allocated; \<open>fw_boot\<close> are the partitions that
were set as boot partition, newest first.\<close>

record ft_world =
  fw_calls :: nat
  fw_ctxs :: "nat \<Rightarrow> download_ctx option"
  fw_fresh :: nat
  fw_fault :: bool
  fw_boot :: "nat list"

record flash_port =
  pt_alloc :: "nat \<Rightarrow> bool"
  pt_err :: "nat \<Rightarrow> err"
  pt_partition :: "nat \<Rightarrow> nat option"
  pt_handle :: "nat \<Rightarrow> nat"
  pt_hash :: "nat \<Rightarrow> byte list"
  pt_project_name :: "nat \<Rightarrow> byte list"
  pt_version :: "nat \<Rightarrow> byte list"

definition fw_step :: "ft_world \<Rightarrow> ft_world" where
  "fw_step w = w\<lparr>fw_calls := Suc (fw_calls w)\<rparr>"

definition fw_free :: "nat \<Rightarrow> ft_world \<Rightarrow> ft_world" where
  "fw_free a w = (case fw_ctxs w a of
     None \<Rightarrow> w\<lparr>fw_fault := True\<rparr> | Some _ \<Rightarrow> w\<lparr>fw_ctxs := (fw_ctxs w)(a := None)\<rparr>)"

text \<open>A handler rejects \<^verbatim>\<open>NULL\<close>; a pointer to a block that is not allocated is a fault.\<close>

definition with_ctx ::
  "nat option \<Rightarrow> 'a \<Rightarrow> (nat \<Rightarrow> download_ctx \<Rightarrow> ft_world \<Rightarrow> (err \<times> 'a) \<times> ft_world) \<Rightarrow> ft_world \<Rightarrow> (err \<times> 'a) \<times> ft_world" where
  "with_ctx h x f w =
    (case h of
       None \<Rightarrow> ((ERR_INVALID_ARG, x), w)
     | Some a \<Rightarrow>
         (case fw_ctxs w a of None \<Rightarrow> ((ERR_FAIL, x), w\<lparr>fw_fault := True\<rparr>) | Some c \<Rightarrow> f a c w))"

section \<open>Download\<close>

definition default_on_download_begin :: "flash_port \<Rightarrow> nat \<Rightarrow> ft_world \<Rightarrow> (err \<times> nat option) \<times> ft_world" where
  "default_on_download_begin pt expected_size w =
    (let n = fw_calls w; w1 = fw_step w in
     if \<not> pt_alloc pt n then ((ERR_NO_MEM, None), w1)
     else let a = fw_fresh w1; w2 = fw_step (w1\<lparr>fw_fresh := Suc a\<rparr>) in
     case pt_partition pt (fw_calls w1) of
       None \<Rightarrow> ((ERR_NOT_FOUND, None), w2\<lparr>fw_ctxs := (fw_ctxs w2)(a \<mapsto>
           \<lparr>dc_handle = 0, dc_partition = 0, dc_expected_size = expected_size\<rparr>)\<rparr>)
     | Some p \<Rightarrow>
         let e = pt_err pt (fw_calls w2);
             w3 = (fw_step w2)\<lparr>fw_ctxs := (fw_ctxs w2)(a \<mapsto>
               \<lparr>dc_handle = (if e = ERR_OK then pt_handle pt (fw_calls w2) else 0), dc_partition = p,
                dc_expected_size = expected_size\<rparr>)\<rparr> in
         if e \<noteq> ERR_OK then ((ERR_FAIL, None), w3) else ((ERR_OK, Some a), w3))"

definition default_on_download_resume :: "flash_port \<Rightarrow> nat \<Rightarrow> nat \<Rightarrow> ft_world \<Rightarrow> (err \<times> nat option) \<times> ft_world" where
  "default_on_download_resume pt expected_size resume_offset w =
    (let n = fw_calls w; w1 = fw_step w in
     if \<not> pt_alloc pt n then ((ERR_NO_MEM, None), w1)
     else let a = fw_fresh w1; w2 = fw_step (w1\<lparr>fw_fresh := Suc a\<rparr>) in
     case pt_partition pt (fw_calls w1) of
       None \<Rightarrow> ((ERR_NOT_FOUND, None), w2)
     | Some p \<Rightarrow>
         let e = pt_err pt (fw_calls w2); w3 = fw_step w2 in
         if e \<noteq> ERR_OK then ((ERR_FAIL, None), w3)
         else ((ERR_OK, Some a), w3\<lparr>fw_ctxs := (fw_ctxs w3)(a \<mapsto>
           \<lparr>dc_handle = pt_handle pt (fw_calls w2), dc_partition = p, dc_expected_size = expected_size\<rparr>)\<rparr>))"

definition default_on_download_chunk :: "flash_port \<Rightarrow> nat \<Rightarrow> byte list \<Rightarrow> nat \<Rightarrow> ft_world \<Rightarrow> err \<times> ft_world" where
  "default_on_download_chunk pt h data offset w =
    (if data = [] then (ERR_INVALID_ARG, w)
     else case with_ctx (Some h) () (\<lambda>a c w.
         ((if pt_err pt (fw_calls w) \<noteq> ERR_OK then ERR_FAIL else ERR_OK, ()), fw_step w)) w of ((e, _), w') \<Rightarrow> (e, w'))"

definition default_on_download_complete :: "flash_port \<Rightarrow> nat option \<Rightarrow> bool \<Rightarrow> ft_world \<Rightarrow> err \<times> ft_world" where
  "default_on_download_complete pt h success w =
    (case with_ctx h () (\<lambda>a c w.
         let e = pt_err pt (fw_calls w); w1 = fw_step w in
         if e \<noteq> ERR_OK then ((ERR_FAIL, ()), w1)
         else ((ERR_OK, ()), if success then w1 else fw_free a w1)) w of ((e, _), w') \<Rightarrow> (e, w'))"

section \<open>Checks\<close>

definition default_get_sha256_hash :: "flash_port \<Rightarrow> nat option \<Rightarrow> ft_world \<Rightarrow> (err \<times> byte list) \<times> ft_world" where
  "default_get_sha256_hash pt h w =
    with_ctx h [] (\<lambda>a c w.
      if pt_err pt (fw_calls w) \<noteq> ERR_OK then ((ERR_FAIL, []), fw_step w)
      else ((ERR_OK, take 32 (pt_hash pt (fw_calls w))), fw_step w)) w"

definition default_get_md5_hash :: "flash_port \<Rightarrow> nat option \<Rightarrow> ft_world \<Rightarrow> (err \<times> byte list) \<times> ft_world" where
  "default_get_md5_hash pt h w =
    with_ctx h [] (\<lambda>a c w.
      if pt_err pt (fw_calls w) \<noteq> ERR_OK then ((ERR_FAIL, []), fw_step w)
      else ((ERR_OK, take 16 (pt_hash pt (fw_calls w))), fw_step w)) w"

text \<open>The descriptors hold a name and a version of 32 bytes each; \<open>desc\<close> is the call that read one.\<close>

definition DESC_FIELD :: nat where
  "DESC_FIELD = 32"

definition default_verify_image_header :: "flash_port \<Rightarrow> nat option \<Rightarrow> byte list option \<Rightarrow> ft_world \<Rightarrow> err \<times> ft_world" where
  "default_verify_image_header pt h expected_fw_version w =
    (case h of
       None \<Rightarrow> (ERR_INVALID_ARG, w)
     | Some a \<Rightarrow>
         (case expected_fw_version of
            None \<Rightarrow> (ERR_INVALID_ARG, w)
          | Some v \<Rightarrow>
              if c_text v = [] then (ERR_INVALID_ARG, w)
              else case with_ctx h () (\<lambda>a c w.
                let downloaded = fw_calls w; w1 = fw_step w in
                if pt_err pt downloaded \<noteq> ERR_OK then ((ERR_FAIL, ()), w1)
                else let w2 = fw_step w1 in
                case pt_partition pt (fw_calls w1) of
                  None \<Rightarrow> ((ERR_FAIL, ()), w2)
                | Some p \<Rightarrow>
                    let running = fw_calls w2; w3 = fw_step w2 in
                    if pt_err pt running \<noteq> ERR_OK then ((ERR_FAIL, ()), w3)
                    else if \<not> strncmp_same DESC_FIELD (pt_project_name pt downloaded) (pt_project_name pt running)
                    then ((ERR_INVALID_STATE, ()), w3)
                    else if \<not> strncmp_same DESC_FIELD (pt_version pt downloaded) (v @ [0])
                    then ((ERR_INVALID_STATE, ()), w3)
                    else ((ERR_OK, ()), w3)) w of ((e, _), w') \<Rightarrow> (e, w')))"

definition default_perform_integration_check :: "flash_port \<Rightarrow> nat option \<Rightarrow> ft_world \<Rightarrow> err \<times> ft_world" where
  "default_perform_integration_check pt h w =
    (case with_ctx h () (\<lambda>a c w.
       let w1 = fw_step w in
       case pt_partition pt (fw_calls w) of
         None \<Rightarrow> ((ERR_OK, ()), w1)
       | Some invalid \<Rightarrow>
           let last_invalid = fw_calls w1; w2 = fw_step w1 in
           if pt_err pt last_invalid \<noteq> ERR_OK then ((ERR_FAIL, ()), w2)
           else let current = fw_calls w2; w3 = fw_step w2 in
           if pt_err pt current \<noteq> ERR_OK then ((ERR_FAIL, ()), w3)
           else if c_text (pt_version pt current) = c_text (pt_version pt last_invalid) then ((ERR_FAIL, ()), w3)
           else ((ERR_OK, ()), w3)) w of ((e, _), w') \<Rightarrow> (e, w'))"

text \<open>Without success the context is only freed, which is a fault when it is not allocated.\<close>

definition default_on_post_download_checks_complete ::
  "flash_port \<Rightarrow> nat option \<Rightarrow> bool \<Rightarrow> ft_world \<Rightarrow> (err \<times> bool) \<times> ft_world" where
  "default_on_post_download_checks_complete pt h success w =
    (case h of
       None \<Rightarrow> ((ERR_INVALID_ARG, False), w)
     | Some a \<Rightarrow>
         if \<not> success then ((ERR_OK, True), fw_free a w)
         else with_ctx h False (\<lambda>a c w.
           let w1 = fw_step w in
           if pt_err pt (fw_calls w) \<noteq> ERR_OK then ((ERR_FAIL, False), w1)
           else ((ERR_OK, True), fw_free a (w1\<lparr>fw_boot := dc_partition c # fw_boot w1\<rparr>))) w)"

definition default_ft_ops :: "flash_port \<Rightarrow> ft_world ft_ops" where
  "default_ft_ops pt = \<lparr>fo_begin = default_on_download_begin pt, fo_resume = Some (default_on_download_resume pt),
     fo_chunk = default_on_download_chunk pt, fo_complete = default_on_download_complete pt,
     fo_get_md5 = Some (default_get_md5_hash pt), fo_verify_header = Some (default_verify_image_header pt),
     fo_integration = default_perform_integration_check pt,
     fo_post_checks = default_on_post_download_checks_complete pt\<rparr>"

section \<open>An image that was downloaded\<close>

text \<open>What the checks leave alone: everything but the count of calls.\<close>

definition only_calls :: "ft_world \<Rightarrow> ft_world \<Rightarrow> bool" where
  "only_calls w w' \<longleftrightarrow> (\<exists>n. w' = w\<lparr>fw_calls := n\<rparr>)"

lemma only_calls_refl [simp, intro]: "only_calls w w"
  unfolding only_calls_def by (intro exI [of _ "fw_calls w"]) simp

lemma only_calls_trans: "only_calls w w' \<Longrightarrow> only_calls w' w'' \<Longrightarrow> only_calls w w''"
  unfolding only_calls_def by auto

lemma only_calls_step [simp]: "only_calls w (fw_step w)"
  unfolding only_calls_def fw_step_def by blast

lemma only_calls_fields:
  "only_calls w w' \<Longrightarrow> fw_ctxs w' = fw_ctxs w \<and> fw_fault w' = fw_fault w \<and> fw_boot w' = fw_boot w"
  unfolding only_calls_def by auto

lemma with_ctx_live [simp]: "fw_ctxs w a = Some c \<Longrightarrow> with_ctx (Some a) x f w = f a c w"
  by (simp add: with_ctx_def)

lemma complete_live:
  "fw_ctxs w a = Some c \<Longrightarrow> default_on_download_complete pt (Some a) True w =
    (if pt_err pt (fw_calls w) = ERR_OK then ERR_OK else ERR_FAIL, fw_step w)"
  by (simp add: default_on_download_complete_def Let_def)

lemma header_live:
  assumes "fw_ctxs w a = Some c" "default_verify_image_header pt (Some a) ver w = (e, w')"
  shows "only_calls w w' \<and> (e = ERR_OK \<longrightarrow> (\<exists>v. ver = Some v \<and> c_text v \<noteq> [] \<and>
    strncmp_same DESC_FIELD (pt_version pt (fw_calls w)) (v @ [0])))"
  using assms
  by (auto simp: default_verify_image_header_def Let_def split: option.splits if_splits
      intro: only_calls_trans [OF only_calls_step] only_calls_trans [OF only_calls_step only_calls_trans [OF only_calls_step]])

lemma md5_live:
  assumes "fw_ctxs w a = Some c" "ih_handle ic = Some a" "check_md5 (default_ft_ops pt) ic w = (ok, w')"
  shows "only_calls w w' \<and> (ok \<longrightarrow> (\<forall>m. ih_md5 ic = Some m \<longrightarrow>
    (\<exists>hex. convert_bytes_to_hex (take 16 (pt_hash pt (fw_calls w))) 33 = Some hex \<and> strcasecmp_same hex m)))"
  using assms
  by (auto simp: check_md5_def default_ft_ops_def default_get_md5_hash_def split: option.splits if_splits prod.splits)

lemma integration_live:
  "fw_ctxs w a = Some c \<Longrightarrow> default_perform_integration_check pt (Some a) w = (e, w') \<Longrightarrow> only_calls w w'"
  by (auto simp: default_perform_integration_check_def Let_def split: option.splits if_splits
      intro: only_calls_trans [OF only_calls_step] only_calls_trans [OF only_calls_step only_calls_trans [OF only_calls_step]])

lemma post_checks_live:
  assumes "fw_ctxs w a = Some c"
  shows "default_on_post_download_checks_complete pt (Some a) False w = ((ERR_OK, True), w\<lparr>fw_ctxs := (fw_ctxs w)(a := None)\<rparr>)"
    and "default_on_post_download_checks_complete pt (Some a) True w =
      (if pt_err pt (fw_calls w) \<noteq> ERR_OK then ((ERR_FAIL, False), fw_step w)
       else ((ERR_OK, True), (fw_step w)\<lparr>fw_ctxs := (fw_ctxs w)(a := None), fw_boot := dc_partition c # fw_boot w\<rparr>))"
  using assms by (simp_all add: default_on_post_download_checks_complete_def fw_free_def Let_def fw_step_def)

lemma checks_live:
  assumes "fw_ctxs w a = Some c" "ih_handle ic = Some a"
    and "complete_and_check (default_ft_ops pt) ic ev w = ((e, passed, ev', announce), w')"
  shows "only_calls w w' \<and> (passed \<longrightarrow> e = ERR_OK \<and> announce) \<and> (\<not> passed \<longrightarrow> e \<noteq> ERR_OK) \<and>
    (announce \<longleftrightarrow> pt_err pt (fw_calls w) = ERR_OK) \<and>
    (passed \<longrightarrow> (\<exists>v k. ih_fw_version ic = Some v \<and> strncmp_same DESC_FIELD (pt_version pt k) (v @ [0])) \<and>
      (\<forall>m. ih_md5 ic = Some m \<longrightarrow>
        (\<exists>k hex. convert_bytes_to_hex (take 16 (pt_hash pt k)) 33 = Some hex \<and> strcasecmp_same hex m)))"
proof (cases "pt_err pt (fw_calls w) = ERR_OK")
  case False
  then show ?thesis
    using assms by (auto simp: complete_and_check_def default_ft_ops_def complete_live)
next
  case True
  let ?w1 = "fw_step w"
  have c1: "fw_ctxs ?w1 a = Some c" using assms(1) by (simp add: fw_step_def)
  obtain e2 w2 where 2: "default_verify_image_header pt (Some a) (ih_fw_version ic) ?w1 = (e2, w2)" by fastforce
  note h = header_live [OF c1 2]
  have c2: "fw_ctxs w2 a = Some c" using only_calls_fields [OF conjunct1 [OF h]] c1 by simp
  obtain ok3 w3 where 3: "check_md5 (default_ft_ops pt) ic w2 = (ok3, w3)" by fastforce
  note m = md5_live [OF c2 assms(2) 3]
  have c3: "fw_ctxs w3 a = Some c" using only_calls_fields [OF conjunct1 [OF m]] c2 by simp
  obtain e4 w4 where 4: "default_perform_integration_check pt (Some a) w3 = (e4, w4)" by fastforce
  note i = integration_live [OF c3 4]
  have o2: "only_calls w w2" using only_calls_trans [OF only_calls_step conjunct1 [OF h]] .
  have o3: "only_calls w w3" using only_calls_trans [OF o2 conjunct1 [OF m]] .
  have o4: "only_calls w w4" using only_calls_trans [OF o3 i] .
  have "complete_and_check (default_ft_ops pt) ic ev w =
      (if e2 \<noteq> ERR_OK then ((ERR_INVALID_STATE, False, EV_FAILED_IMAGE_HEADER_INVALID, True), w2)
       else if \<not> ok3 then ((ERR_INVALID_STATE, False, EV_FAILED_MD5_INVALID, True), w3)
       else if e4 \<noteq> ERR_OK then ((e4, False, ev, True), w4) else ((ERR_OK, True, ev, True), w4))"
    using True assms(1,2) 2 3 4
    by (simp add: complete_and_check_def check_header_def complete_live default_ft_ops_def [of pt])
  then show ?thesis using assms(3) True o2 o3 o4 h m by (auto split: if_splits)
qed

lemma timer_keeps_ft [simp]:
  "dl_ft (snd (filetype_handler_status_timer_start env s)) = dl_ft s"
  "dl_ft (snd (filetype_handler_status_timer_stop env s)) = dl_ft s"
  by (auto simp: filetype_handler_status_timer_start_def filetype_handler_status_timer_stop_def Let_def
      timeout_handler_init_def timeout_handler_restart_def timeout_handler_deinit_def get_mem_def dl_ask_def dl_tick_def
      split: timer.splits)

text \<open>C11: With the library's handlers, the end of a complete download uses its context safely whatever the flash
layer answers: it never touches a released block, and it releases the context exactly if ending the update and,
after passed checks, changing the boot partition succeeded. The boot partition is changed exactly if the end
reports success, to the partition of the download, and only when the image carries the version of the job and,
if the job has a digest, its digest.\<close>

theorem ota_boot_only_after_checks:
  assumes "fw_ctxs (dl_ft s) a = Some c" "ih_handle ic = Some a" "ih_ft_set ic"
    and "image_handler_end env (default_ft_ops pt) ic True ev s = ((e, reboot, ev'), s')"
  shows "fw_fault (dl_ft s') = fw_fault (dl_ft s) \<and>
    (fw_ctxs (dl_ft s') = (fw_ctxs (dl_ft s))(a := None) \<or> fw_ctxs (dl_ft s') = fw_ctxs (dl_ft s) \<and> e \<noteq> ERR_OK \<and> \<not> reboot) \<and>
    fw_boot (dl_ft s') = (if e = ERR_OK then dc_partition c # fw_boot (dl_ft s) else fw_boot (dl_ft s)) \<and>
    (e = ERR_OK \<longrightarrow> (\<exists>v k. ih_fw_version ic = Some v \<and> strncmp_same DESC_FIELD (pt_version pt k) (v @ [0])) \<and>
      (\<forall>m. ih_md5 ic = Some m \<longrightarrow>
        (\<exists>k hex. convert_bytes_to_hex (take 16 (pt_hash pt k)) 33 = Some hex \<and> strcasecmp_same hex m)))"
proof -
  obtain e1 passed ev1 announce w1 where
    1: "complete_and_check (default_ft_ops pt) ic ev (dl_ft s) = ((e1, passed, ev1, announce), w1)" by (metis prod.exhaust)
  note k = checks_live [OF assms(1,2) 1]
  have w1: "fw_ctxs w1 = fw_ctxs (dl_ft s)" "fw_fault w1 = fw_fault (dl_ft s)" "fw_boot w1 = fw_boot (dl_ft s)"
    using only_calls_fields [OF conjunct1 [OF k]] by simp_all
  have live: "fw_ctxs w1 a = Some c" using w1(1) assms(1) by simp
  show ?thesis
  proof (cases announce)
    case False
    then show ?thesis using assms(3,4) 1 k w1 by (auto simp: image_handler_end_def Let_def)
  next
    case True
    let ?s2 = "if passed then snd (filetype_handler_status_timer_start env (s\<lparr>dl_ft := w1\<rparr>)) else s\<lparr>dl_ft := w1\<rparr>"
    have ft2: "dl_ft ?s2 = w1" by simp
    obtain e2 reboot2 w2 where
      2: "default_on_post_download_checks_complete pt (Some a) passed w1 = ((e2, reboot2), w2)" by (metis prod.exhaust)
    have post: "fw_fault w2 = fw_fault w1"
      "passed \<Longrightarrow> e2 = ERR_OK \<Longrightarrow> fw_ctxs w2 = (fw_ctxs w1)(a := None) \<and> fw_boot w2 = dc_partition c # fw_boot w1"
      "passed \<Longrightarrow> e2 \<noteq> ERR_OK \<Longrightarrow> fw_ctxs w2 = fw_ctxs w1 \<and> fw_boot w2 = fw_boot w1 \<and> \<not> reboot2"
      "\<not> passed \<Longrightarrow> e2 = ERR_OK \<and> fw_ctxs w2 = (fw_ctxs w1)(a := None) \<and> fw_boot w2 = fw_boot w1"
      using 2 post_checks_live [OF live, of pt]
      by (cases passed; auto simp: fw_step_def split: if_splits)+
    have res: "e = (if e2 \<noteq> ERR_OK then e2 else e1)" "reboot = reboot2" "dl_ft s' = w2"
      using assms(2-4) 1 2 True ft2
      by (auto simp: image_handler_end_def default_ft_ops_def [of pt] Let_def split: if_splits)
    show ?thesis using res post w1 k by (cases passed; cases "e2 = ERR_OK") auto
  qed
qed

text \<open>After an incomplete download the context is released by the completion handler and again by the end of
the checks, and the event carries the wish to reboot.\<close>

lemma ota_abort_frees_twice:
  assumes "fw_ctxs (dl_ft s) a = Some c" "ih_handle ic = Some a" "ih_ft_set ic"
    and "pt_err pt (fw_calls (dl_ft s)) = ERR_OK"
    and "image_handler_end env (default_ft_ops pt) ic False ev s = ((e, reboot, ev'), s')"
  shows "e = ERR_OK \<and> reboot \<and> fw_fault (dl_ft s')"
proof -
  let ?w = "(fw_step (dl_ft s))\<lparr>fw_ctxs := (fw_ctxs (dl_ft s))(a := None)\<rparr>"
  have "default_on_download_complete pt (Some a) False (dl_ft s) = (ERR_OK, ?w)"
    using assms(1,4) by (simp add: default_on_download_complete_def Let_def fw_free_def fw_step_def)
  moreover have "default_on_post_download_checks_complete pt (Some a) False ?w = ((ERR_OK, True), ?w\<lparr>fw_fault := True\<rparr>)"
    by (simp add: default_on_post_download_checks_complete_def fw_free_def)
  ultimately show ?thesis
    using assms(2,3,5) by (auto simp: image_handler_end_def default_ft_ops_def [of pt] Let_def)
qed

text \<open>A begin that fails after its allocation leaves the context behind.\<close>

lemma ota_begin_leaks:
  assumes "pt_alloc pt (fw_calls w)" "pt_partition pt (Suc (fw_calls w)) = None"
    and "default_on_download_begin pt n w = ((e, h), w')"
  shows "h = None \<and> fw_ctxs w' (fw_fresh w) \<noteq> None"
  using assms by (auto simp: default_on_download_begin_def Let_def fw_step_def)

definition sample_port :: flash_port where
  "sample_port = \<lparr>pt_alloc = (\<lambda>_. True), pt_err = (\<lambda>_. ERR_OK), pt_partition = (\<lambda>n. if n = 5 then None else Some 9),
     pt_handle = (\<lambda>_. 1), pt_hash = (\<lambda>_. replicate 16 0xAB), pt_project_name = (\<lambda>_. [112, 0]), pt_version = (\<lambda>_. [49, 0])\<rparr>"

definition sample_world :: ft_world where
  "sample_world = \<lparr>fw_calls = 0, fw_ctxs = [3 \<mapsto> \<lparr>dc_handle = 1, dc_partition = 9, dc_expected_size = 100\<rparr>],
     fw_fresh = 4, fw_fault = False, fw_boot = []\<rparr>"

definition sample_dl_env :: dl_env where
  "sample_dl_env = \<lparr>de_err = (\<lambda>_. ERR_OK), de_alloc = (\<lambda>_. True), de_decode = (\<lambda>_. None),
     de_stream_name_max = 44\<rparr>"

theorem ota_boot_only_after_checks_witness:
  defines "ic \<equiv> \<lparr>ih_handle = Some 3, ih_image_size = 100, ih_ft_set = True, ih_fw_version = Some [49],
    ih_md5 = Some (concat (replicate 16 [65, 66]))\<rparr>"
  shows "\<exists>s'. image_handler_end sample_dl_env (default_ft_ops sample_port) ic True EV_FAILED_POST_DOWNLOAD_CHECKS
      (dl_boot () sample_world) = ((ERR_OK, True, EV_FAILED_POST_DOWNLOAD_CHECKS), s') \<and>
    fw_boot (dl_ft s') = [9] \<and> fw_ctxs (dl_ft s') = Map.empty \<and> \<not> fw_fault (dl_ft s')"
proof -
  let ?s = "dl_boot () sample_world"
  have ft: "dl_ft (dl_boot () w) = w" for w by (simp add: dl_boot_def)
  have l: "fw_ctxs (dl_ft ?s) 3 = Some \<lparr>dc_handle = 1, dc_partition = 9, dc_expected_size = 100\<rparr>"
    unfolding ft by (simp add: sample_world_def)
  have i: "ih_handle ic = Some 3" "ih_ft_set ic" by (simp_all add: ic_def)
  obtain e reboot ev s' where r: "image_handler_end sample_dl_env (default_ft_ops sample_port) ic True
      EV_FAILED_POST_DOWNLOAD_CHECKS ?s = ((e, reboot, ev), s')" by (metis prod.exhaust)
  have hex: "convert_bytes_to_hex (take 16 (replicate 16 0xAB)) 33 = Some (concat (replicate 16 [97, 98]))" by code_simp
  have same: "strcasecmp_same (concat (replicate 16 [97, 98])) (concat (replicate 16 [65, 66]))" by code_simp
  have cmp: "strncmp_same DESC_FIELD [112, 0] [112, 0]" "strncmp_same DESC_FIELD [49, 0] [49, 0]" by code_simp+
  let ?w = "\<lambda>n. sample_world\<lparr>fw_calls := n\<rparr>"
  have live: "fw_ctxs (?w n) 3 = Some \<lparr>dc_handle = 1, dc_partition = 9, dc_expected_size = 100\<rparr>" for n
    by (simp add: sample_world_def)
  have step: "fw_step (?w n) = ?w (Suc n)" for n by (simp add: fw_step_def)
  have w0: "sample_world = ?w 0" by (simp add: sample_world_def)
  have ok: "pt_err sample_port n = ERR_OK" for n by (simp add: sample_port_def)
  have part: "pt_partition sample_port n = (if n = 5 then None else Some 9)" for n by (simp add: sample_port_def)
  have fields: "pt_project_name sample_port n = [112, 0]" "pt_version sample_port n = [49, 0]"
    "pt_hash sample_port n = replicate 16 0xAB" for n by (simp_all add: sample_port_def del: replicate.simps)
  have 1: "default_on_download_complete sample_port (Some 3) True (?w 0) = (ERR_OK, ?w 1)"
    by (simp add: complete_live [OF live] ok step)
  have 2: "default_verify_image_header sample_port (Some 3) (Some [49]) (?w 1) = (ERR_OK, ?w 4)"
    using cmp by (simp add: default_verify_image_header_def with_ctx_live [OF live] Let_def ok step c_text_def part fields)
  have 3: "check_md5 (default_ft_ops sample_port) ic (?w 4) = (True, ?w 5)"
    using hex same by (simp add: check_md5_def ic_def default_ft_ops_def default_get_md5_hash_def
        with_ctx_live [OF live] ok step fields del: replicate.simps)
  have 4: "default_perform_integration_check sample_port (Some 3) (?w 5) = (ERR_OK, ?w 6)"
    by (simp add: default_perform_integration_check_def with_ctx_live [OF live] Let_def step part)
  have "complete_and_check (default_ft_ops sample_port) ic EV_FAILED_POST_DOWNLOAD_CHECKS (?w 0) =
      ((ERR_OK, True, EV_FAILED_POST_DOWNLOAD_CHECKS, True), ?w 6)"
    using 1 2 3 4 unfolding complete_and_check_def check_header_def
    by (simp add: ic_def default_ft_ops_def [of sample_port])
  then have "complete_and_check (default_ft_ops sample_port) ic EV_FAILED_POST_DOWNLOAD_CHECKS sample_world =
      ((ERR_OK, True, EV_FAILED_POST_DOWNLOAD_CHECKS, True), ?w 6)"
    by (simp only: w0 [symmetric])
  moreover have "default_on_post_download_checks_complete sample_port (Some 3) True (?w 6) =
      ((ERR_OK, True), (?w 7)\<lparr>fw_ctxs := Map.empty, fw_boot := [9]\<rparr>)"
    by (simp add: post_checks_live [OF live] ok step) (simp add: sample_world_def)
  ultimately have e: "e = ERR_OK" "reboot" "ev = EV_FAILED_POST_DOWNLOAD_CHECKS"
    using r i by (auto simp: image_handler_end_def ft default_ft_ops_def [of sample_port] Let_def)
  from ota_boot_only_after_checks [OF l i r] e
  show ?thesis using r by (intro exI [of _ s']) (auto simp: ft sample_world_def)
qed

end
