(* ===== verification/Ota_Download.thy ===== *)
theory Ota_Download
  imports Ota_Image
begin

text \<open>The download of an image in blocks over MQTT (\<^verbatim>\<open>ota_mqtt_downloader.c\<close>): requests for batches of blocks,
received blocks handed to the work queue and written there, a timer per request with a bounded number of
retries, the subscription with its own retries, and the tracker kept for a later resume. Every operation is a
function of the state of theory \<^verbatim>\<open>Ota_Image\<close>; the events of the outside run one at a time, as on the single
worker and with the locks of the code. The decoding of a data block and the encoding of a request are the
library's. The backoff of the subscription is kept as whether its callback is pending.\<close>

section \<open>Constants\<close>

definition BLOCK_SIZE :: nat where
  "BLOCK_SIZE = 3072 - 30"

definition BLOCKS_PER_REQUEST :: nat where
  "BLOCKS_PER_REQUEST = 40"

definition MAX_RETRIES_DIVIDE_FACTOR :: u32 where
  "MAX_RETRIES_DIVIDE_FACTOR = 10"

type_synonym ('s, 'w) step = "('s, 'w) dl_sys \<Rightarrow> ('s, 'w) dl_sys"

section \<open>Payloads\<close>

text \<open>The copy of a payload: \<open>None\<close> when it is not made. When the first of the two allocations fails the code
writes through a null pointer, since it tests the wrong variable.\<close>

definition payload_create :: "dl_env \<Rightarrow> byte list \<Rightarrow> ('s, 'w) dl_sys \<Rightarrow> byte list option \<times> ('s, 'w) dl_sys" where
  "payload_create env payload s =
    (if payload = [] then (None, s)
     else case get_mem env s of (ok1, s1) \<Rightarrow>
     if \<not> ok1 then (None, s1\<lparr>dl_fault := True\<rparr>)
     else case get_mem env s1 of (ok2, s2) \<Rightarrow>
     if \<not> ok2 then (None, s2) else (Some payload, s2))"

section \<open>Block requests\<close>

text \<open>\<^verbatim>\<open>esp_rmaker_work_queue_add_task\<close>.\<close>

definition add_dl_task :: "dl_env \<Rightarrow> dl_task \<Rightarrow> ('s, 'w) dl_sys \<Rightarrow> bool \<times> ('s, 'w) dl_sys" where
  "add_dl_task env t s =
    (case dl_ask env s of (e, s1) \<Rightarrow> if e = ERR_OK then (True, s1\<lparr>dl_wq := dl_wq s1 @ [t]\<rparr>) else (False, s1))"

definition block_request_init :: "dl_env \<Rightarrow> u32 \<Rightarrow> ('s, 'w) dl_sys \<Rightarrow> err \<times> ('s, 'w) dl_sys" where
  "block_request_init env max_retries s =
    (case timeout_handler_init env (br_timer (dl_block s)) s of ((e, t), s1) \<Rightarrow>
     if e \<noteq> ERR_OK then (e, s1)
     else let s2 = s1\<lparr>dl_block := (dl_block s1)\<lparr>br_timer := t\<rparr>\<rparr> in
     case get_mem env s2 of (ok, s3) \<Rightarrow>
     if \<not> ok then (ERR_NO_MEM, s3\<lparr>dl_block := (dl_block s3)\<lparr>br_mutex := False\<rparr>\<rparr>)
     else (ERR_OK, s3\<lparr>dl_block := \<lparr>br_timer = t, br_success = False, br_failure = False,
       br_per_request = BLOCKS_PER_REQUEST, br_retries = 0, br_max = max_retries, br_mutex = True\<rparr>\<rparr>))"

definition block_request_deinit :: "dl_env \<Rightarrow> ('s, 'w) step" where
  "block_request_deinit env s =
    (case (if br_timer (dl_block s) = No_ctx then (ERR_OK, s) else timeout_handler_deinit env (br_timer (dl_block s)) s)
     of (_, s1) \<Rightarrow> s1\<lparr>dl_block := zero_block_request\<rparr>)"

definition block_request_begin_context :: "dl_env \<Rightarrow> ('s, 'w) dl_sys \<Rightarrow> err \<times> ('s, 'w) dl_sys" where
  "block_request_begin_context env s =
    (let s1 = s\<lparr>dl_block := (dl_block s)\<lparr>br_success := False, br_failure := False\<rparr>\<rparr> in
     case timeout_handler_restart env (br_timer (dl_block s1)) s1 of ((e, t), s2) \<Rightarrow>
       (e, s2\<lparr>dl_block := (dl_block s2)\<lparr>br_timer := t\<rparr>\<rparr>))"

definition request_to_mqtt_payload :: "dl_env \<Rightarrow> ('s, 'w) dl_sys \<Rightarrow> err \<times> ('s, 'w) dl_sys" where
  "request_to_mqtt_payload env s =
    (case dl_ask env s of (e, s1) \<Rightarrow> (if e = ERR_OK then ERR_OK else ERR_FAIL, s1))"

text \<open>A request whose bitmap is still allocated is overwritten; the block is lost. Once the request is made, a
failure of the encoding leaves the timer and the flags as they were.\<close>

definition block_request_send_next :: "dl_env \<Rightarrow> ('s, 'w) dl_sys \<Rightarrow> err \<times> ('s, 'w) dl_sys" where
  "block_request_send_next env s =
    (case get_mem env s of (ok, s1) \<Rightarrow>
     case request_get_next ok (dl_file_id s1) (br_per_request (dl_block s1)) (dl_bitmap s1) (dl_request s1) of
       Returned (e, rq) \<Rightarrow>
         if e \<noteq> ERR_OK then (e, s1)
         else let s2 = s1\<lparr>dl_request := rq,
                dl_lost := dl_lost s1 + (if rq_bitmap (dl_request s1) = None then 0 else 1)\<rparr> in
         case request_to_mqtt_payload env s2 of (e2, s3) \<Rightarrow>
         if e2 \<noteq> ERR_OK then (e2, s3)
         else case block_request_begin_context env s3 of (_, s4) \<Rightarrow>
         case dl_ask env s4 of (e5, s5) \<Rightarrow>
         if e5 \<noteq> ERR_OK then (ERR_FAIL, s5) else (ERR_OK, emit (Published rq) s5)
     | _ \<Rightarrow> (ERR_FAIL, s1\<lparr>dl_fault := True\<rparr>))"

section \<open>Subscription and teardown\<close>

text \<open>The backoff schedules the callback, or fails to.\<close>

definition sub_retry_arm :: "dl_env \<Rightarrow> ('s, 'w) step" where
  "sub_retry_arm env s =
    (case dl_ask env s of (e, s1) \<Rightarrow> if e = ERR_OK then s1\<lparr>dl_sub_retry := True\<rparr> else s1)"

definition subscribe_to_stream_topics :: "dl_env \<Rightarrow> ('s, 'w) dl_sys \<Rightarrow> err \<times> ('s, 'w) dl_sys" where
  "subscribe_to_stream_topics env s =
    (case dl_ask env (s\<lparr>dl_sub_intended := True\<rparr>) of (e, s1) \<Rightarrow> (if e = ERR_OK then ERR_OK else ERR_FAIL, s1))"

definition unsubscribe_from_stream_topics :: "dl_env \<Rightarrow> ('s, 'w) dl_sys \<Rightarrow> err \<times> ('s, 'w) dl_sys" where
  "unsubscribe_from_stream_topics env s =
    (case dl_ask env (s\<lparr>dl_sub_intended := False, dl_sub_retry := False\<rparr>) of (_, s1) \<Rightarrow> (ERR_OK, s1))"

definition zero_desc :: resume_desc where
  "zero_desc = \<lparr>rd_md5_hex = replicate 33 0, rd_filesize = 0, rd_transport = 0, rd_block_size = 0\<rparr>"

text \<open>\<^verbatim>\<open>memset(&g_mqtt_downloader_ctx, 0, ...)\<close>.\<close>

definition clear_ctx :: "('s, 'w) step" where
  "clear_ctx s = s\<lparr>dl_active := False, dl_job_data := None, dl_file_id := 0, dl_image := zero_image,
     dl_bitmap := \<lparr>bm_cells = None, bm_block_count = 0, bm_unprocessed = 0\<rparr>, dl_request := zero_request,
     dl_progress := zero_progress, dl_block := zero_block_request, dl_sub_intended := False,
     dl_resume_enabled := False, dl_resume_pending := False, dl_desc := zero_desc\<rparr>"

definition unregister_mqtt_event_handlers :: "('s, 'w) step" where
  "unregister_mqtt_event_handlers s = s\<lparr>dl_handlers := []\<rparr>"

definition cleanup_downloader :: "dl_env \<Rightarrow> ('s, 'w) step" where
  "cleanup_downloader env s =
    (let s1 = snd (unsubscribe_from_stream_topics env (unregister_mqtt_event_handlers s));
         s2 = block_request_deinit env s1;
         s3 = s2\<lparr>dl_bitmap := mqtt_downloader_bitmap_deinit (dl_bitmap s2), dl_request := request_deinit (dl_request s2)\<rparr>
     in (clear_ctx s3)\<lparr>dl_chunk_buffer := False\<rparr>)"

definition report_and_cleanup ::
  "dl_env \<Rightarrow> 'w ft_ops \<Rightarrow> ('h, 's) storage_ops \<Rightarrow> image_status \<Rightarrow> ('s, 'w) step" where
  "report_and_cleanup env ft ops status = image_handler_end_and_cleanup env ft ops status (cleanup_downloader env)"

section \<open>Resume\<close>

text \<open>\<^verbatim>\<open>strncpy\<close> of the digest into its array: padded with zeros, and terminated.\<close>

definition resume_build_desc :: "dl_job \<Rightarrow> byte list \<Rightarrow> resume_desc" where
  "resume_build_desc jb md5 = \<lparr>rd_md5_hex = take 32 (c_text md5 @ replicate 32 0) @ [0],
     rd_filesize = word_of_int (jb_filesize jb), rd_transport = transport_code TRANSPORT_MQTT,
     rd_block_size = word_of_nat BLOCK_SIZE\<rparr>"

definition popcount :: "byte \<Rightarrow> nat" where
  "popcount w = length (filter (bit w) [0..<8])"

text \<open>The bits of blocks in cell \<open>c\<close>: the padding of the last cell is masked.\<close>

definition block_bits :: "nat \<Rightarrow> nat \<Rightarrow> nat \<Rightarrow> byte \<Rightarrow> byte" where
  "block_bits block_count cell_count c cell =
    (if c = cell_count - 1 \<and> block_count mod 8 \<noteq> 0 then cell AND (push_bit (block_count mod 8) 1 - 1) else cell)"

definition count_unprocessed :: "nat \<Rightarrow> nat \<Rightarrow> byte list \<Rightarrow> nat" where
  "count_unprocessed block_count cell_count tracker =
    (\<Sum>c \<leftarrow> [0..<cell_count]. popcount (block_bits block_count cell_count c (tracker ! c)))"

definition resume_attempt :: "dl_env \<Rightarrow> ('h, 's) storage_ops \<Rightarrow> dl_job \<Rightarrow> ('s, 'w) step" where
  "resume_attempt env ops jb s =
    (case jb_md5 jb of
       None \<Rightarrow> s
     | Some md5 \<Rightarrow>
         if c_text md5 = [] then s
         else let desc = resume_build_desc jb md5;
             s1 = s\<lparr>dl_resume_enabled := True, dl_desc := desc\<rparr> in
         case get_mem env s1 of (a1, s2) \<Rightarrow>
         case get_mem env s2 of (a2, s3) \<Rightarrow>
         case ota_nvs_resume_load ops a1 a2 (dl_nvs s3) of ((e, r), nvs) \<Rightarrow>
         let s4 = s3\<lparr>dl_nvs := nvs\<rparr> in
         (case (e = ERR_OK, r) of
            (True, Some (loaded, tracker, tracker_len)) \<Rightarrow>
              let bm = dl_bitmap s4; cell_count = cells_for (bm_block_count bm);
                  discard = s4\<lparr>dl_nvs := snd (ota_nvs_resume_clear ops nvs)\<rparr> in
              if \<not> ota_nvs_resume_matches (Some loaded) (Some desc) \<or> tracker_len \<noteq> cell_count then discard
              else let unprocessed = count_unprocessed (bm_block_count bm) cell_count tracker in
              if unprocessed = 0 \<or> unprocessed = bm_block_count bm then discard
              else let received = bm_block_count bm - unprocessed;
                  offset = word_of_nat (received * BLOCK_SIZE) :: u32;
                  size = word_of_int (jb_filesize jb) :: u32 in
                emit (Resumed_posted (if size < offset then size else offset))
                  (s4\<lparr>dl_bitmap := bm\<lparr>bm_cells := Some (take cell_count tracker), bm_unprocessed := unprocessed\<rparr>,
                      dl_resume_pending := True\<rparr>)
          | _ \<Rightarrow> s4))"

definition resume_persist :: "('h, 's) storage_ops \<Rightarrow> ('s, 'w) step" where
  "resume_persist ops s =
    (if \<not> dl_resume_enabled s then s
     else case bm_cells (dl_bitmap s) of
       None \<Rightarrow> s
     | Some cs \<Rightarrow>
         s\<lparr>dl_nvs := snd (ota_nvs_resume_save ops (Some (dl_desc s)) (Some cs) (cells_for (bm_block_count (dl_bitmap s)))
           (dl_nvs s))\<rparr>)"

section \<open>Success and failure of a request\<close>

definition block_request_on_success ::
  "dl_env \<Rightarrow> 'w ft_ops \<Rightarrow> ('h, 's) storage_ops \<Rightarrow> ('s, 'w) dl_sys \<Rightarrow> err \<times> ('s, 'w) dl_sys" where
  "block_request_on_success env ft ops s =
    (if bm_unprocessed (dl_bitmap s) = 0 then (ERR_OK, report_and_cleanup env ft ops STATUS_SUCCESS s)
     else let n = sub32 (rq_block_count (dl_request s)) 1;
         s1 = s\<lparr>dl_request := (dl_request s)\<lparr>rq_block_count := n\<rparr>\<rparr> in
     if 0 < n then (ERR_OK, s1)
     else if br_failure (dl_block s1) then (ERR_INVALID_STATE, s1)
     else case timeout_handler_stop env (br_timer (dl_block s1)) s1 of ((_, t), s2) \<Rightarrow>
       let b = dl_block s2;
           s3 = s2\<lparr>dl_block := b\<lparr>br_timer := t, br_success := True, br_retries := 0,
             br_per_request := (if br_per_request b < BLOCKS_PER_REQUEST then br_per_request b + 1 else br_per_request b)\<rparr>\<rparr>;
           s4 = resume_persist ops s3;
           s5 = s4\<lparr>dl_request := request_deinit (dl_request s4)\<rparr> in
       block_request_send_next env s5)"

definition block_request_on_failure ::
  "dl_env \<Rightarrow> 'w ft_ops \<Rightarrow> ('h, 's) storage_ops \<Rightarrow> ('s, 'w) step" where
  "block_request_on_failure env ft ops s =
    (let b = dl_block s in
     if \<not> br_mutex b then s
     else if br_success b then s
     else if br_failure b then s
     else let n = br_retries b + 1;
         s1 = s\<lparr>dl_block := b\<lparr>br_failure := True, br_retries := n, br_per_request := 1\<rparr>\<rparr> in
     if br_max b < n then report_and_cleanup env ft ops STATUS_TIMEOUT s1
     else snd (block_request_send_next env s1))"

definition block_request_on_failure_timeout_callback :: "dl_env \<Rightarrow> ('s, 'w) step" where
  "block_request_on_failure_timeout_callback env s =
    (case add_dl_task env Failure_task s of (ok, s1) \<Rightarrow>
     if ok then s1
     else case timeout_handler_restart env (br_timer (dl_block s1)) s1 of ((_, t), s2) \<Rightarrow>
       s2\<lparr>dl_block := (dl_block s2)\<lparr>br_timer := t\<rparr>\<rparr>)"

section \<open>Received blocks\<close>

definition on_mqtt_message_received :: "dl_env \<Rightarrow> byte list \<Rightarrow> ('s, 'w) step" where
  "on_mqtt_message_received env payload s =
    (if \<not> dl_active s then s
     else case dl_ask env s of (e, s1) \<Rightarrow>
     if e \<noteq> ERR_OK then s1
     else case payload_create env payload s1 of
       (None, s2) \<Rightarrow> s2
     | (Some p, s2) \<Rightarrow>
         (case add_dl_task env (Write_chunk p) s2 of (ok, s3) \<Rightarrow> if ok then s3 else s3\<lparr>dl_lost := dl_lost s3 + 2\<rparr>))"

text \<open>The offset of a block as the code computes it; an overflow of the signed product is a fault.\<close>

definition block_offset :: "int \<Rightarrow> u32 option" where
  "block_offset block_id =
    (if 2 ^ 31 \<le> block_id * int BLOCK_SIZE then None else Some (word_of_int (block_id * int BLOCK_SIZE)))"

text \<open>The block is written and noted: \<open>None\<close> if a step failed. The handler is opened with the first block.\<close>

definition write_block ::
  "dl_env \<Rightarrow> 'w ft_ops \<Rightarrow> ('h, 's) storage_ops \<Rightarrow> int \<Rightarrow> byte list \<Rightarrow> ('s, 'w) dl_sys \<Rightarrow> bool \<times> ('s, 'w) dl_sys" where
  "write_block env ft ops block_id data s =
    (case (if ih_handle (dl_image s) = None
           then case dl_job_data s of
               None \<Rightarrow> ((ERR_FAIL, dl_image s), s\<lparr>dl_fault := True\<rparr>)
             | Some jb \<Rightarrow>
                 image_handler_begin env ft (nat (jb_filesize jb mod 2 ^ 32)) (jb_fw_version jb) (jb_md5 jb)
                   (dl_resume_pending s) 0 (dl_image s) s
           else ((ERR_OK, dl_image s), s))
     of ((e, ic), s0) \<Rightarrow>
     let s1 = s0\<lparr>dl_image := ic\<rparr> in
     if e \<noteq> ERR_OK then (False, s1)
     else case block_offset block_id of
       None \<Rightarrow> (False, s1\<lparr>dl_fault := True\<rparr>)
     | Some offset \<Rightarrow>
         case image_handler_write_chunk ft (dl_image s1) data offset s1 of (e2, s2) \<Rightarrow>
         if e2 \<noteq> ERR_OK then (False, s2)
         else case mqtt_downloader_bitmap_set_processed (dl_bitmap s2) block_id of
           Returned (_, bm) \<Rightarrow>
             (case image_progress_add_bytes (word_of_nat (length data)) (s2\<lparr>dl_bitmap := bm\<rparr>) of (e3, s3) \<Rightarrow>
              if e3 \<noteq> ERR_OK then (False, s3)
              else case block_request_on_success env ft ops s3 of (e4, s4) \<Rightarrow> (e4 = ERR_OK, s4))
         | _ \<Rightarrow> (False, s2\<lparr>dl_fault := True\<rparr>))"

definition write_chunk_task ::
  "dl_env \<Rightarrow> 'w ft_ops \<Rightarrow> ('h, 's) storage_ops \<Rightarrow> byte list \<Rightarrow> ('s, 'w) step" where
  "write_chunk_task env ft ops payload s =
    (if \<not> dl_chunk_buffer s then s
     else case de_decode env payload of
       None \<Rightarrow> block_request_on_failure env ft ops s
     | Some db \<Rightarrow>
         if db_file_id db < 0 \<or> word_of_int (db_file_id db) \<noteq> dl_file_id s then s
         else if word_of_nat (length (db_data db)) \<noteq> (word_of_int (db_block_size db) :: u32)
         then block_request_on_failure env ft ops s
         else if db_block_id db < 0 \<or> int (bm_block_count (dl_bitmap s)) \<le> db_block_id db
         then block_request_on_failure env ft ops s
         else case mqtt_downloader_bitmap_is_processed (dl_bitmap s) (db_block_id db) of
           Returned True \<Rightarrow> s
         | Returned False \<Rightarrow>
             (case write_block env ft ops (db_block_id db) (db_data db) s of (ok, s1) \<Rightarrow>
               if ok then s1 else block_request_on_failure env ft ops s1)
         | _ \<Rightarrow> s\<lparr>dl_fault := True\<rparr>)"

section \<open>Events of the connection\<close>

definition sub_retry_sched_cb :: "dl_env \<Rightarrow> ('s, 'w) step" where
  "sub_retry_sched_cb env s =
    (case add_dl_task env Sub_retry_work s of (ok, s1) \<Rightarrow> if ok then s1 else sub_retry_arm env s1)"

definition sub_retry_work :: "dl_env \<Rightarrow> ('s, 'w) step" where
  "sub_retry_work env s =
    (if \<not> dl_sub_intended s then s
     else case subscribe_to_stream_topics env s of (e, s1) \<Rightarrow> if e = ERR_OK then s1 else sub_retry_arm env s1)"

text \<open>The status of a subscription is \<open>None\<close> when the event is about another channel.\<close>

definition on_rmaker_mqtt_event :: "dl_env \<Rightarrow> mqtt_event \<Rightarrow> bool option \<Rightarrow> ('s, 'w) step" where
  "on_rmaker_mqtt_event env ev status s =
    (case ev of
       Ev_disconnected \<Rightarrow> s\<lparr>dl_sub_retry := False\<rparr>
     | Ev_connected \<Rightarrow> if dl_sub_intended s then sub_retry_arm env s else s
     | Ev_subscribed \<Rightarrow>
         (case status of
            None \<Rightarrow> s
          | Some ok \<Rightarrow> if ok then s\<lparr>dl_sub_retry := False\<rparr> else if dl_sub_intended s then sub_retry_arm env s else s))"

definition register_handler :: "dl_env \<Rightarrow> mqtt_event \<Rightarrow> ('s, 'w) dl_sys \<Rightarrow> bool \<times> ('s, 'w) dl_sys" where
  "register_handler env ev s =
    (case dl_ask env s of (e, s1) \<Rightarrow> if e = ERR_OK then (True, s1\<lparr>dl_handlers := ev # dl_handlers s1\<rparr>) else (False, s1))"

definition register_mqtt_event_handlers :: "dl_env \<Rightarrow> ('s, 'w) dl_sys \<Rightarrow> err \<times> ('s, 'w) dl_sys" where
  "register_mqtt_event_handlers env s =
    (case register_handler env Ev_connected s of (ok1, s1) \<Rightarrow>
     if \<not> ok1 then (ERR_FAIL, s1)
     else case register_handler env Ev_disconnected s1 of (ok2, s2) \<Rightarrow>
     if \<not> ok2 then (ERR_FAIL, s2\<lparr>dl_handlers := remove1 Ev_connected (dl_handlers s2)\<rparr>)
     else case register_handler env Ev_subscribed s2 of (ok3, s3) \<Rightarrow>
     if \<not> ok3
     then (ERR_FAIL, s3\<lparr>dl_handlers := remove1 Ev_disconnected (remove1 Ev_connected (dl_handlers s3))\<rparr>)
     else (ERR_OK, s3))"

section \<open>The start of a download\<close>

definition validate_image_ref :: "dl_env \<Rightarrow> byte list option \<Rightarrow> err" where
  "validate_image_ref env image_ref =
    (case image_ref of
       None \<Rightarrow> ERR_INVALID_ARG
     | Some r \<Rightarrow>
         if length r = 0 then ERR_INVALID_ARG else if de_stream_name_max env < length r then ERR_INVALID_ARG else ERR_OK)"

text \<open>The division of C rounds towards zero.\<close>

definition total_blocks :: "int \<Rightarrow> u32" where
  "total_blocks filesize =
    (let n = filesize + int BLOCK_SIZE - 1 in
     word_of_int (if n < 0 then - ((- n) div int BLOCK_SIZE) else n div int BLOCK_SIZE))"

text \<open>The bytes a resumed download has.\<close>

definition received_bytes :: "dl_job \<Rightarrow> bitmap \<Rightarrow> u32" where
  "received_bytes jb bm =
    (let n = word_of_nat ((bm_block_count bm - bm_unprocessed bm) * BLOCK_SIZE) :: u32;
         size = word_of_int (jb_filesize jb) in
     if size < n then size else n)"

definition download_init :: "dl_env \<Rightarrow> ('h, 's) storage_ops \<Rightarrow> dl_job \<Rightarrow> ('s, 'w) dl_sys \<Rightarrow> (err \<times> bool) \<times> ('s, 'w) dl_sys"
where
  "download_init env ops jb s =
    (case get_mem env s of (ok, s1) \<Rightarrow>
     if \<not> ok then ((ERR_NO_MEM, False), s1\<lparr>dl_chunk_buffer := False\<rparr>)
     else case dl_ask env (s1\<lparr>dl_chunk_buffer := True\<rparr>) of (e2, s2) \<Rightarrow>
     if e2 \<noteq> ERR_OK then ((e2, False), s2)
     else case dl_ask env s2 of (e3, s3) \<Rightarrow>
     if e3 \<noteq> ERR_OK then ((ERR_FAIL, False), s3)
     else let total = total_blocks (jb_filesize jb) in
     case block_request_init env (total div MAX_RETRIES_DIVIDE_FACTOR) s3 of (e4, s4) \<Rightarrow>
     if e4 \<noteq> ERR_OK then ((e4, False), s4)
     else case get_mem env s4 of (ok5, s5) \<Rightarrow>
     case mqtt_downloader_bitmap_init ok5 total (dl_bitmap s5) of (e5, bm) \<Rightarrow>
     let s6 = s5\<lparr>dl_bitmap := bm\<rparr> in
     if e5 \<noteq> ERR_OK then ((e5, False), s6)
     else let s7 = resume_attempt env ops jb s6 in
     case image_progress_init (word_of_int (jb_filesize jb)) (dl_progress s7) of (e8, p) \<Rightarrow>
     let s8 = s7\<lparr>dl_progress := p\<rparr> in
     if e8 \<noteq> ERR_OK then ((ERR_OK, False), s8)
     else let s9 = (if dl_resume_pending s8
                    then s8\<lparr>dl_progress := image_progress_seed (received_bytes jb (dl_bitmap s8)) (dl_progress s8)\<rparr> else s8) in
     case register_mqtt_event_handlers env s9 of (e10, s10) \<Rightarrow> ((e10, e10 = ERR_OK), s10))"

text \<open>The second result of the initialisation tells whether to go on; without it the error, which for the
progress is the success of the step before, is returned after the cleanup.\<close>

definition ota_mqtt_cb ::
  "dl_env \<Rightarrow> 'w ft_ops \<Rightarrow> ('h, 's) storage_ops \<Rightarrow> dl_job \<Rightarrow> ('s, 'w) dl_sys \<Rightarrow> err \<times> ('s, 'w) dl_sys" where
  "ota_mqtt_cb env ft ops jb s =
    (if dl_active s then (ERR_INVALID_STATE, s)
     else if jb_stream_id jb = None then (ERR_INVALID_ARG, s)
     else if validate_image_ref env (map_option c_text (jb_stream_id jb)) \<noteq> ERR_OK then (ERR_INVALID_ARG, s)
     else let s0 = (clear_ctx s)\<lparr>dl_job_data := Some jb, dl_active := True, dl_file_id := jb_file_id jb\<rparr> in
     case download_init env ops jb s0 of ((e, go), s1) \<Rightarrow>
     if \<not> go then (e, cleanup_downloader env s1)
     else case subscribe_to_stream_topics env s1 of (e2, s2) \<Rightarrow>
     if e2 \<noteq> ERR_OK then (e2, report_and_cleanup env ft ops STATUS_FAILED_STREAM_SUBSCRIPTION s2)
     else case block_request_send_next env s2 of (e3, s3) \<Rightarrow>
     if e3 \<noteq> ERR_OK then (e3, cleanup_downloader env s3) else (ERR_OK, s3))"

section \<open>Events\<close>

datatype dl_input =
    In_start dl_job | In_message "byte list" | In_work | In_timer | In_sub_retry
  | In_event mqtt_event "bool option"

text \<open>A one-shot timer that runs is stopped.\<close>

definition run_dl_task ::
  "dl_env \<Rightarrow> 'w ft_ops \<Rightarrow> ('h, 's) storage_ops \<Rightarrow> dl_task \<Rightarrow> ('s, 'w) step" where
  "run_dl_task env ft ops t =
    (case t of
       Write_chunk payload \<Rightarrow> write_chunk_task env ft ops payload
     | Failure_task \<Rightarrow> block_request_on_failure env ft ops
     | Sub_retry_work \<Rightarrow> sub_retry_work env)"

fun dl_step :: "dl_env \<Rightarrow> 'w ft_ops \<Rightarrow> ('h, 's) storage_ops \<Rightarrow> dl_input \<Rightarrow> ('s, 'w) step" where
  "dl_step env ft ops (In_start jb) s = snd (ota_mqtt_cb env ft ops jb s)"
| "dl_step env ft ops (In_message payload) s = on_mqtt_message_received env payload s"
| "dl_step env ft ops In_work s =
    (case dl_wq s of [] \<Rightarrow> s | t # ts \<Rightarrow> run_dl_task env ft ops t (s\<lparr>dl_wq := ts\<rparr>))"
| "dl_step env ft ops In_timer s =
    (if br_timer (dl_block s) = Ctx Armed
     then block_request_on_failure_timeout_callback env (s\<lparr>dl_block := (dl_block s)\<lparr>br_timer := Ctx Stopped\<rparr>\<rparr>) else s)"
| "dl_step env ft ops In_sub_retry s =
    (if dl_sub_retry s then sub_retry_sched_cb env (s\<lparr>dl_sub_retry := False\<rparr>) else s)"
| "dl_step env ft ops (In_event ev status) s =
    (if ev \<in> set (dl_handlers s) then on_rmaker_mqtt_event env ev status s else s)"

definition dl_run :: "dl_env \<Rightarrow> 'w ft_ops \<Rightarrow> ('h, 's) storage_ops \<Rightarrow> dl_input list \<Rightarrow> ('s, 'w) step" where
  "dl_run env ft ops = fold (dl_step env ft ops)"

end
