(* ===== verification/Mqtt_Topic.thy ===== *)
theory Mqtt_Topic
  imports Prelude
begin

text \<open>Topic matching, \<^verbatim>\<open>osal_mqtt_util.c\<close>. A pointer with its buffer is the list of the bytes of the object and
an index; the given lengths need not be the lengths of the objects, and a read past an object is \<^verbatim>\<open>Crashed\<close>. The
matcher is compared with the matching rules of MQTT, stated on the levels of the topic and the filter.\<close>

section \<open>The code\<close>

text \<open>\<^verbatim>\<open>while (*t && *t != '/') t++\<close>, which ends at a separator or at a zero byte, not at the given length.\<close>

function skip_level :: "string \<Rightarrow> nat \<Rightarrow> nat outcome" where
  "skip_level buf i =
     (if i < length buf
      then if buf ! i = CHR 0x00 \<or> buf ! i = CHR ''/'' then Returned i else skip_level buf (Suc i)
      else Crashed)"
  by pat_completeness auto
termination by (relation "measure (\<lambda>(buf, i). length buf - i)") auto

text \<open>The end of the level that starts at an index, at most at the given length.\<close>

function level_end :: "string \<Rightarrow> nat \<Rightarrow> nat \<Rightarrow> nat outcome" where
  "level_end buf len i =
     (if i < len
      then obind (read_at buf i) (\<lambda>c. if c = CHR ''/'' then Returned i else level_end buf len (Suc i))
      else Returned i)"
  by pat_completeness auto
termination by (relation "measure (\<lambda>(buf, len, i). len - i)") auto

text \<open>\<^verbatim>\<open>strncmp(f, t, n) == 0\<close>.\<close>

fun strncmp_eq :: "string \<Rightarrow> nat \<Rightarrow> string \<Rightarrow> nat \<Rightarrow> nat \<Rightarrow> bool outcome" where
  "strncmp_eq a i b j 0 = Returned True"
| "strncmp_eq a i b j (Suc n) =
     obind (read_at a i) (\<lambda>x. obind (read_at b j) (\<lambda>y.
       if x \<noteq> y then Returned False else if x = CHR 0x00 then Returned True else strncmp_eq a (Suc i) b (Suc j) n))"

declare skip_level.simps [simp del] level_end.simps [simp del]

lemma skip_level_ge: "skip_level buf i = Returned j \<Longrightarrow> i \<le> j"
proof (induction buf i rule: skip_level.induct)
  case (1 buf i)
  have "skip_level buf i = (if i < length buf
      then if buf ! i = CHR 0x00 \<or> buf ! i = CHR ''/'' then Returned i else skip_level buf (Suc i) else Crashed)"
    by (rule skip_level.simps)
  then show ?case using 1 by (auto split: if_splits)
qed

lemma level_end_ge: "level_end buf len i = Returned j \<Longrightarrow> i \<le> j \<and> j \<le> max i len"
proof (induction buf len i rule: level_end.induct)
  case (1 buf len i)
  have eq: "level_end buf len i = (if i < len
      then obind (read_at buf i) (\<lambda>c. if c = CHR ''/'' then Returned i else level_end buf len (Suc i)) else Returned i)"
    by (rule level_end.simps)
  show ?case
  proof (cases "read_at buf i")
    case (Returned c)
    then show ?thesis using 1(1) [of c] 1(2) eq by (simp split: if_splits)
  qed (use 1(2) eq in \<open>simp_all split: if_splits\<close>)
qed

function match_topic_loop :: "string \<Rightarrow> nat \<Rightarrow> string \<Rightarrow> nat \<Rightarrow> nat \<Rightarrow> nat \<Rightarrow> bool outcome" where
  "match_topic_loop topic topic_len filt filter_len t f =
     (if f < filter_len \<and> t < topic_len
      then case read_at filt f of
             Returned c \<Rightarrow>
               if c = CHR ''#'' then Returned (Suc f = filter_len)
               else if c = CHR ''+'' then
                 (case (skip_level topic t, read_at filt (Suc f)) of
                    (Returned t1, Returned d) \<Rightarrow>
                      match_topic_loop topic topic_len filt filter_len
                        (if topic ! t1 = CHR ''/'' then Suc t1 else t1) (if d = CHR ''/'' then Suc (Suc f) else Suc f)
                  | _ \<Rightarrow> Crashed)
               else
                 (case (level_end filt filter_len f, level_end topic topic_len t) of
                    (Returned fn, Returned tn) \<Rightarrow>
                      if fn - f \<noteq> tn - t then Returned False
                      else (case strncmp_eq filt f topic t (fn - f) of
                              Returned same \<Rightarrow>
                                if \<not> same then Returned False
                                else match_topic_loop topic topic_len filt filter_len
                                       (if tn < topic_len then Suc tn else tn)
                                       (if fn < filter_len then Suc fn else fn)
                            | _ \<Rightarrow> Crashed)
                  | _ \<Rightarrow> Crashed)
           | _ \<Rightarrow> Crashed
      else obind (read_at filt f) (\<lambda>c.
             Returned (c = CHR ''#'' \<and> Suc f = filter_len \<or> f = filter_len \<and> t = topic_len)))"
  by pat_completeness auto
termination
  by (relation "measure (\<lambda>(topic, topic_len, filt, filter_len, t, f). filter_len - f)")
    (auto dest!: sym [of "Returned _"] level_end_ge)

declare match_topic_loop.simps [simp del]

definition osal_mqtt_match_topic :: "string \<Rightarrow> nat \<Rightarrow> string \<Rightarrow> nat \<Rightarrow> bool outcome" where
  "osal_mqtt_match_topic topic topic_len filt filter_len = match_topic_loop topic topic_len filt filter_len 0 0"

section \<open>The rules of MQTT\<close>

fun levels :: "string \<Rightarrow> string list" where
  "levels [] = [[]]"
| "levels (c # cs) = (if c = CHR ''/'' then [] # levels cs else (c # hd (levels cs)) # tl (levels cs))"

fun levels_match :: "string list \<Rightarrow> string list \<Rightarrow> bool" where
  "levels_match [] ts = (ts = [])"
| "levels_match (f # fs) ts =
     (if f = ''#'' \<and> fs = [] then True
      else case ts of [] \<Rightarrow> False | t # ts' \<Rightarrow> (f = ''+'' \<or> f = t) \<and> levels_match fs ts')"

definition topic_matches :: "string \<Rightarrow> string \<Rightarrow> bool" where
  "topic_matches filt topic = levels_match (levels filt) (levels topic)"

text \<open>A wildcard stands alone in its level, \<^verbatim>\<open>#\<close> in the last one; here the last level is not empty.\<close>

fun filter_levels_ok :: "string list \<Rightarrow> bool" where
  "filter_levels_ok [] = True"
| "filter_levels_ok (f # fs) =
     ((f = ''+'' \<or> f = ''#'' \<and> fs = [] \<or> CHR ''+'' \<notin> set f \<and> CHR ''#'' \<notin> set f) \<and> filter_levels_ok fs)"

definition filter_ok :: "string \<Rightarrow> bool" where
  "filter_ok filt \<longleftrightarrow> filt \<noteq> [] \<and> last filt \<noteq> CHR ''/'' \<and> CHR 0x00 \<notin> set filt \<and> filter_levels_ok (levels filt)"

definition topic_ok :: "string \<Rightarrow> bool" where
  "topic_ok topic \<longleftrightarrow> topic \<noteq> [] \<and> last topic \<noteq> CHR ''/'' \<and> CHR 0x00 \<notin> set topic"

section \<open>The matcher and the rules\<close>

definition lev :: "string \<Rightarrow> string" where
  "lev xs = takeWhile (\<lambda>c. c \<noteq> CHR ''/'') xs"

definition after_lev :: "string \<Rightarrow> string" where
  "after_lev xs = tl (dropWhile (\<lambda>c. c \<noteq> CHR ''/'') xs)"

text \<open>The levels of what is left; nothing is left after the last level.\<close>

definition left_levels :: "string \<Rightarrow> string list" where
  "left_levels xs = (if xs = [] then [] else levels xs)"

definition no_tail :: "string \<Rightarrow> bool" where
  "no_tail xs \<longleftrightarrow> (xs \<noteq> [] \<longrightarrow> last xs \<noteq> CHR ''/'') \<and> CHR 0x00 \<notin> set xs"

lemma levels_nonempty [simp]: "levels xs \<noteq> []"
  by (cases xs) auto

lemma lev_simps [simp]:
  "lev [] = []" "lev (c # cs) = (if c = CHR ''/'' then [] else c # lev cs)"
  "after_lev (c # cs) = (if c = CHR ''/'' then cs else after_lev cs)"
  by (simp_all add: lev_def after_lev_def)

lemma levels_lev: "levels xs = lev xs # (if lev xs = xs then [] else levels (after_lev xs))"
proof (induction xs)
  case (Cons c cs)
  show ?case
  proof (cases "c = CHR ''/''")
    case False
    have "levels (c # cs) = (c # hd (levels cs)) # tl (levels cs)" using False by simp
    also have "\<dots> = (c # lev cs) # (if lev cs = cs then [] else levels (after_lev cs))"
      by (subst (1 2) Cons.IH) simp
    finally show ?thesis using False by simp
  qed simp
qed simp

lemma lev_split: "xs = lev xs \<or> xs = lev xs @ CHR ''/'' # after_lev xs"
  by (induction xs) auto

lemma no_tail_after:
  assumes "no_tail xs" "lev xs \<noteq> xs"
  shows "after_lev xs \<noteq> []" "no_tail (after_lev xs)"
proof -
  have s: "xs = lev xs @ CHR ''/'' # after_lev xs" using lev_split assms(2) by metis
  show n: "after_lev xs \<noteq> []"
  proof
    assume "after_lev xs = []"
    then have e: "xs = lev xs @ [CHR ''/'']" using s by simp
    have "xs \<noteq> []" "last xs = CHR ''/''" by (subst e, simp)+
    then show False using assms(1) by (simp add: no_tail_def)
  qed
  have "last xs = last (after_lev xs)" using arg_cong [OF s, of last] n by simp
  moreover have "set (after_lev xs) \<subseteq> set xs" using arg_cong [OF s, of set] by auto
  ultimately show "no_tail (after_lev xs)" using assms(1) by (auto simp: no_tail_def)
qed

lemma left_levels_step:
  assumes "no_tail xs" "xs \<noteq> []"
  shows "left_levels xs = lev xs # left_levels (if lev xs = xs then [] else after_lev xs)"
  using assms no_tail_after [OF assms(1)] levels_lev [of xs] by (auto simp: left_levels_def)

lemma lev_no_slash: "CHR ''/'' \<notin> set (lev xs)"
  by (auto simp: lev_def dest: set_takeWhileD)

lemma drop_read: "drop i buf = c # cs \<Longrightarrow> i < length buf \<and> buf ! i = c \<and> drop (Suc i) buf = cs"
  by (metis Cons_nth_drop_Suc drop_all list.distinct(1) list.inject not_le_imp_less)

lemma skip_level_run: "drop i buf = xs @ CHR 0x00 # r \<Longrightarrow> CHR 0x00 \<notin> set xs \<Longrightarrow> skip_level buf i = Returned (i + length (lev xs))"
proof (induction xs arbitrary: i)
  case Nil
  then show ?case using drop_read [of i buf] by (simp add: skip_level.simps [of buf i] lev_def)
next
  case (Cons c cs)
  then have "i < length buf" "buf ! i = c" "drop (Suc i) buf = cs @ CHR 0x00 # r" using drop_read [of i buf] by simp_all
  then show ?case using Cons.IH [of "Suc i"] Cons.prems(2) by (auto simp: skip_level.simps [of buf i])
qed

lemma level_end_run: "drop i buf = xs @ r \<Longrightarrow> len = i + length xs \<Longrightarrow> level_end buf len i = Returned (i + length (lev xs))"
proof (induction xs arbitrary: i)
  case Nil
  then show ?case using level_end.simps [of buf len i] by simp
next
  case (Cons c cs)
  then have "i < length buf" "buf ! i = c" "drop (Suc i) buf = cs @ r" using drop_read [of i buf] by simp_all
  then show ?case using Cons.IH [of "Suc i"] Cons.prems(2) level_end.simps [of buf len i] by simp
qed

lemma strncmp_run:
  "drop i a = xs @ r \<Longrightarrow> drop j b = ys @ r' \<Longrightarrow> length xs = length ys \<Longrightarrow> CHR 0x00 \<notin> set xs \<Longrightarrow>
     strncmp_eq a i b j (length xs) = Returned (xs = ys)"
proof (induction xs ys arbitrary: i j rule: list_induct2')
  case (4 x xs y ys)
  then have "i < length a" "a ! i = x" "drop (Suc i) a = xs @ r" "j < length b" "b ! j = y" "drop (Suc j) b = ys @ r'"
    using drop_read [of i a] drop_read [of j b] by simp_all
  then show ?case using 4 by (cases "x = y") auto
qed auto

text \<open>One level of the loop: a plain level, and a single-level wildcard.\<close>

definition at_text :: "string \<Rightarrow> nat \<Rightarrow> string \<Rightarrow> nat \<Rightarrow> bool" where
  "at_text buf i xs len \<longleftrightarrow> (\<exists>r. drop i buf = xs @ CHR 0x00 # r) \<and> len = i + length xs \<and> no_tail xs"

lemma at_text_Cons: "at_text buf i (c # cs) len \<Longrightarrow> read_at buf i = Returned c \<and> i < len"
  by (auto simp: at_text_def dest: drop_read)

lemma at_text_Nil: "at_text buf i [] len \<Longrightarrow> read_at buf i = Returned (CHR 0x00) \<and> i = len"
  by (auto simp: at_text_def dest: drop_read)

lemma drop_more: "drop i buf = xs @ r \<Longrightarrow> drop (i + length xs) buf = r"
  by (metis append_eq_conv_conj drop_drop add.commute)

text \<open>After a level the code steps over the separator.\<close>

lemma at_text_next:
  assumes "at_text buf i xs len"
  shows "lev xs = xs \<Longrightarrow> at_text buf (i + length (lev xs)) [] len \<and> i + length (lev xs) = len"
    "lev xs \<noteq> xs \<Longrightarrow> at_text buf (Suc (i + length (lev xs))) (after_lev xs) len \<and> i + length (lev xs) < len
      \<and> i + length (lev xs) < length buf \<and> buf ! (i + length (lev xs)) = CHR ''/''"
proof -
  obtain r where r: "drop i buf = xs @ CHR 0x00 # r" "len = i + length xs" "no_tail xs" using assms by (auto simp: at_text_def)
  show "at_text buf (i + length (lev xs)) [] len \<and> i + length (lev xs) = len" if "lev xs = xs"
    using that r drop_more [OF r(1)] by (auto simp: at_text_def no_tail_def)
  show "at_text buf (Suc (i + length (lev xs))) (after_lev xs) len \<and> i + length (lev xs) < len
      \<and> i + length (lev xs) < length buf \<and> buf ! (i + length (lev xs)) = CHR ''/''" if "lev xs \<noteq> xs"
  proof -
    have s: "xs = lev xs @ CHR ''/'' # after_lev xs" using lev_split that by metis
    then have "drop i buf = lev xs @ CHR ''/'' # after_lev xs @ CHR 0x00 # r" using r(1) by (metis append.assoc append_Cons)
    then have "drop (i + length (lev xs)) buf = CHR ''/'' # after_lev xs @ CHR 0x00 # r" by (rule drop_more)
    moreover have "len = Suc (i + length (lev xs)) + length (after_lev xs)" using r(2) arg_cong [OF s, of length] by simp
    ultimately show ?thesis using no_tail_after [OF r(3) that] drop_read by (fastforce simp: at_text_def)
  qed
qed

lemma at_text_lev:
  assumes "at_text buf i xs len"
  shows "skip_level buf i = Returned (i + length (lev xs))" "level_end buf len i = Returned (i + length (lev xs))"
    "\<exists>r. drop i buf = lev xs @ r" "CHR 0x00 \<notin> set (lev xs)"
proof -
  obtain r where r: "drop i buf = xs @ CHR 0x00 # r" "len = i + length xs" "no_tail xs" using assms by (auto simp: at_text_def)
  show "skip_level buf i = Returned (i + length (lev xs))" using skip_level_run [OF r(1)] r(3) by (simp add: no_tail_def)
  show "level_end buf len i = Returned (i + length (lev xs))" by (rule level_end_run [OF r(1,2)])
  show "\<exists>r. drop i buf = lev xs @ r" using lev_split [of xs] r(1) by (metis append.assoc)
  show "CHR 0x00 \<notin> set (lev xs)" using r(3) by (auto simp: no_tail_def lev_def dest: set_takeWhileD)
qed

lemma filter_levels_hd:
  assumes "filter_levels_ok (levels xs)" "xs \<noteq> []"
  shows "hd xs = CHR ''#'' \<Longrightarrow> xs = ''#''" "hd xs = CHR ''+'' \<Longrightarrow> lev xs = ''+''"
    "hd xs \<noteq> CHR ''#'' \<Longrightarrow> hd xs \<noteq> CHR ''+'' \<Longrightarrow> lev xs \<noteq> ''#'' \<and> lev xs \<noteq> ''+''"
    "filter_levels_ok (left_levels (if lev xs = xs then [] else after_lev xs))"
proof -
  obtain c cs where xs: "xs = c # cs" using assms(2) by (cases xs) auto
  define R where "R = (if lev xs = xs then [] else levels (after_lev xs))"
  have "levels xs = lev xs # R" using levels_lev [of xs] by (simp add: R_def)
  then have "filter_levels_ok (lev xs # R)" using assms(1) by simp
  moreover have "R = [] \<longleftrightarrow> lev xs = xs" by (simp add: R_def)
  ultimately have ok: "lev xs = ''+'' \<or> lev xs = ''#'' \<and> lev xs = xs \<or> CHR ''+'' \<notin> set (lev xs) \<and> CHR ''#'' \<notin> set (lev xs)"
    "filter_levels_ok (if lev xs = xs then [] else levels (after_lev xs))"
    unfolding R_def [symmetric] by simp_all
  have c: "lev xs = (if c = CHR ''/'' then [] else c # lev cs)" using xs by simp
  show "xs = ''#''" if "hd xs = CHR ''#''"
  proof -
    have "lev xs = CHR ''#'' # lev cs" using c that xs by simp
    then show ?thesis using ok(1) by auto
  qed
  show "lev xs = ''+''" if "hd xs = CHR ''+''"
  proof -
    have "lev xs = CHR ''+'' # lev cs" using c that xs by simp
    then show ?thesis using ok(1) by auto
  qed
  show "lev xs \<noteq> ''#'' \<and> lev xs \<noteq> ''+''" if "hd xs \<noteq> CHR ''#''" "hd xs \<noteq> CHR ''+''"
    using that xs c by simp
  show "filter_levels_ok (left_levels (if lev xs = xs then [] else after_lev xs))"
    using ok(2) by (simp add: left_levels_def split: if_splits)
qed

lemma match_loop_levels:
  assumes "at_text topic t T topic_len" "at_text filt f F filter_len" "filter_levels_ok (left_levels F)"
  shows "match_topic_loop topic topic_len filt filter_len t f = Returned (levels_match (left_levels F) (left_levels T))"
  using assms
proof (induction "length F" arbitrary: t f T F rule: less_induct)
  case less
  note at = less.prems(1,2)
  note unfold = match_topic_loop.simps [of topic topic_len filt filter_len t f]
  consider "F = []" | "T = []" "F \<noteq> []" | "T \<noteq> []" "F \<noteq> []" by blast
  then show ?case
  proof cases
    case 1
    then have f: "f = filter_len" "read_at filt f = Returned (CHR 0x00)" using at_text_Nil at(2) by auto
    have "t = topic_len \<longleftrightarrow> T = []" using at(1) by (auto simp: at_text_def)
    then show ?thesis using f 1 unfold by (auto simp: left_levels_def)
  next
    case 2
    then obtain c cs where F: "F = c # cs" by (cases F) auto
    have r: "read_at filt f = Returned c" "f < filter_len" using at_text_Cons at(2) F by blast+
    have l: "filter_len = f + length F" using at(2) by (simp add: at_text_def)
    have t: "t = topic_len" using at(1) 2 by (auto simp: at_text_def)
    have "levels_match (levels F) [] \<longleftrightarrow> F = ''#''"
      using levels_lev [of F] by (cases "levels F") (auto split: if_splits)
    then show ?thesis using r l t unfold 2 F by (auto simp: left_levels_def)
  next
    case 3
    then obtain c cs where F: "F = c # cs" by (cases F) auto
    have lt: "f < filter_len" "read_at filt f = Returned c" using at_text_Cons at(2) F by blast+
    have lt: "f < filter_len" "t < topic_len" "read_at filt f = Returned c" "Suc f = filter_len \<longleftrightarrow> cs = []"
      using lt at F 3 by (auto simp: at_text_def)
    have nt: "no_tail F" "no_tail T" using at by (auto simp: at_text_def)
    have ok: "filter_levels_ok (levels F)" using less.prems(3) 3 by (simp add: left_levels_def)
    note h = filter_levels_hd [OF ok 3(2)]
    define F' where "F' = (if lev F = F then [] else after_lev F)"
    define T' where "T' = (if lev T = T then [] else after_lev T)"
    have FT: "left_levels F = lev F # left_levels F'" "left_levels T = lev T # left_levels T'"
      using left_levels_step nt 3 by (simp_all add: F'_def T'_def)
    have shorter: "length F' < length F"
    proof (cases "lev F = F")
      case False
      then have "length F = length (lev F @ CHR ''/'' # after_lev F)" using lev_split [of F] by simp
      then show ?thesis using False by (simp add: F'_def)
    qed (use 3(2) in \<open>simp add: F'_def\<close>)
    have IH: "match_topic_loop topic topic_len filt filter_len t' f'
        = Returned (levels_match (left_levels F') (left_levels T'))"
      if "at_text topic t' T' topic_len" "at_text filt f' F' filter_len" for t' f'
      using less.hyps [OF shorter that] h(4) by (simp add: F'_def)
    show ?thesis
    proof (cases "c = CHR ''#''")
      case True
      then have "F = ''#''" using h(1) F by simp
      then show ?thesis using unfold lt True F FT by (simp add: left_levels_def)
    next
      case nh: False
      show ?thesis
      proof (cases "c = CHR ''+''")
        case True
        then have p: "lev F = ''+''" using h(2) F by simp
        let ?t1 = "t + length (lev T)"
        let ?t2 = "if topic ! ?t1 = CHR ''/'' then Suc ?t1 else ?t1"
        have t2: "at_text topic ?t2 T' topic_len"
          using at_text_next [OF at(1)] at_text_Nil [of topic ?t1 topic_len]
          by (cases "lev T = T") (auto simp: T'_def read_at_def split: if_splits)
        obtain d where d: "read_at filt (Suc f) = Returned d"
          "at_text filt (if d = CHR ''/'' then Suc (Suc f) else Suc f) F' filter_len"
          using at_text_next [OF at(2)] p at_text_Nil [of filt "Suc f" filter_len]
          by (cases "lev F = F") (auto simp: F'_def)
        show ?thesis
          using unfold lt nh True d(1) at_text_lev(1) [OF at(1)] IH [OF t2 d(2)] p FT by simp
      next
        case False
        have w: "lev F \<noteq> ''#''" "lev F \<noteq> ''+''" using h(3) nh False F by simp_all
        let ?fn = "f + length (lev F)" and ?tn = "t + length (lev T)"
        have e: "level_end filt filter_len f = Returned ?fn" "level_end topic topic_len t = Returned ?tn"
          using at_text_lev(2) at by blast+
        show ?thesis
        proof (cases "length (lev F) = length (lev T)")
          case True
          obtain r r' where "drop f filt = lev F @ r" "drop t topic = lev T @ r'"
            using at_text_lev(3) at by meson
          then have s: "strncmp_eq filt f topic t (?fn - f) = Returned (lev F = lev T)"
            using strncmp_run True at_text_lev(4) [OF at(2)] by simp
          have t2: "at_text topic (if ?tn < topic_len then Suc ?tn else ?tn) T' topic_len"
            using at_text_next [OF at(1)] by (cases "lev T = T") (auto simp: T'_def)
          have f2: "at_text filt (if ?fn < filter_len then Suc ?fn else ?fn) F' filter_len"
            using at_text_next [OF at(2)] by (cases "lev F = F") (auto simp: F'_def)
          show ?thesis
          proof (cases "lev F = lev T")
            case True
            then show ?thesis using unfold lt nh False e s w IH [OF t2 f2, unfolded True] FT by simp
          next
            case neq: False
            then show ?thesis using unfold lt nh False e s w True FT by simp
          qed
        next
          case len: False
          then have "lev F \<noteq> lev T" by auto
          then show ?thesis using unfold lt nh False e w len FT by simp
        qed
      qed
    qed
  qed
qed

lemma match_topic_rules:
  assumes "topic_ok topic" "filter_ok filt"
  shows "osal_mqtt_match_topic (topic @ CHR 0x00 # after) (length topic) (filt @ CHR 0x00 # after') (length filt)
    = Returned (topic_matches filt topic)"
proof -
  have "at_text (topic @ CHR 0x00 # after) 0 topic (length topic)" "at_text (filt @ CHR 0x00 # after') 0 filt (length filt)"
    "left_levels topic = levels topic" "left_levels filt = levels filt" "filter_levels_ok (levels filt)"
    using assms by (simp_all add: at_text_def topic_ok_def filter_ok_def no_tail_def left_levels_def)
  then show ?thesis using match_loop_levels by (simp add: osal_mqtt_match_topic_def topic_matches_def)
qed

section \<open>Properties\<close>

text \<open>C3: the matcher follows the rules of MQTT. For a topic and a filter that are not empty, hold no zero byte and
do not end in a separator, with the filter's wildcards alone in their levels and \<^verbatim>\<open>#\<close> in the last one, and with both
strings followed by a zero byte whatever comes after it, the matcher answers what the matching of the levels of the
filter against the levels of the topic says, and reads nothing outside the two objects.\<close>

theorem mqtt_match_follows_rules:
  assumes "topic_ok topic" "filter_ok filt"
  shows "osal_mqtt_match_topic (topic @ CHR 0x00 # after) (length topic) (filt @ CHR 0x00 # after') (length filt)
    = Returned (topic_matches filt topic)"
  by (rule match_topic_rules [OF assms])

theorem mqtt_match_follows_rules_witness:
  "osal_mqtt_match_topic (''jobs/7/get'' @ [CHR 0x00]) (length ''jobs/7/get'') (''jobs/+/#'' @ [CHR 0x00]) (length ''jobs/+/#'')
    = Returned True"
  using mqtt_match_follows_rules [of "''jobs/7/get''" "''jobs/+/#''" "[]" "[]"]
  by (simp add: topic_ok_def filter_ok_def topic_matches_def)

text \<open>Outside these conditions the code departs from the rules. A separator at the end of the topic is ignored; and
a topic that is not followed by a zero byte, as in a received packet, is not matched by a filter that ends in a
single-level wildcard, because the wildcard runs on into the bytes after the topic, or past the object.\<close>

lemma match_ignores_last_separator:
  "osal_mqtt_match_topic (''a/'' @ [CHR 0x00]) 2 (''a'' @ [CHR 0x00]) 1 = Returned True"
  "\<not> topic_matches ''a'' ''a/''"
  by (simp_all add: osal_mqtt_match_topic_def match_topic_loop.simps level_end.simps topic_matches_def)

lemma match_runs_past_topic:
  "osal_mqtt_match_topic (''a/b'' @ ''{'' @ [CHR 0x00]) 3 (''a/+'' @ [CHR 0x00]) 3 = Returned False"
  "osal_mqtt_match_topic ''a/b{'' 3 (''a/+'' @ [CHR 0x00]) 3 = Crashed"
  "topic_matches ''a/+'' ''a/b''"
  by (simp_all add: osal_mqtt_match_topic_def match_topic_loop.simps level_end.simps skip_level.simps topic_matches_def)

end
