(* ===== verification/Mqtt_Subs.thy ===== *)
theory Mqtt_Subs
  imports Mqtt_Topic "HOL-Library.Multiset"
begin

text \<open>The table of MQTT subscriptions, \<^verbatim>\<open>osal_mqtt_subscription_manager.c\<close>: an array of elements, free when its
filter length is zero. Each holds a copy of its filter; the copy can fail, which the code does not test. Callbacks
and private data are opaque pointers. The table is compared with a set of subscriptions: a triple of filter,
callback and private data is in it at most once, and a message goes to every subscription whose filter matches.\<close>

section \<open>Data\<close>

record channel =
  ch_main :: u32
  ch_sub :: u32
  ch_seq :: u32

datatype qos = QoS0 | QoS1 | QoS2

text \<open>\<^verbatim>\<open>se_callback\<close> and \<^verbatim>\<open>se_filter\<close> are \<^verbatim>\<open>None\<close> for \<^verbatim>\<open>NULL\<close>; a filter is the bytes of the copy with its
terminator.\<close>

record sub_element =
  se_channel :: channel
  se_callback :: "nat option"
  se_priv :: nat
  se_qos :: qos
  se_len :: u16
  se_filter :: "string option"

record subs =
  sl_list :: "sub_element list"
  sl_count :: u8
  sl_mutex :: bool
  sl_fault :: bool

definition no_channel :: channel where
  "no_channel = \<lparr>ch_main = - 1, ch_sub = - 1, ch_seq = - 1\<rparr>"

definition empty_element :: sub_element where
  "empty_element = \<lparr>se_channel = \<lparr>ch_main = 0, ch_sub = 0, ch_seq = 0\<rparr>, se_callback = None, se_priv = 0, se_qos = QoS0,
     se_len = 0, se_filter = None\<rparr>"

text \<open>\<^verbatim>\<open>strndup\<close>: the bytes up to the length or the first zero byte, and a zero byte.\<close>

definition strndup :: "string \<Rightarrow> nat \<Rightarrow> string" where
  "strndup str n = takeWhile (\<lambda>c. c \<noteq> CHR 0x00) (take n str) @ [CHR 0x00]"

text \<open>\<^verbatim>\<open>strncmp(str, element's filter, length) == 0\<close>; a comparison with \<^verbatim>\<open>NULL\<close> is undefined.\<close>

definition same_filter :: "string \<Rightarrow> u16 \<Rightarrow> sub_element \<Rightarrow> bool outcome" where
  "same_filter str len e = (case se_filter e of
     None \<Rightarrow> Crashed | Some flt \<Rightarrow> strncmp_eq str 0 flt 0 (unat len))"

section \<open>Operations\<close>

definition osal_mqtt_subscription_init :: "nat \<Rightarrow> bool \<Rightarrow> subs \<Rightarrow> subs" where
  "osal_mqtt_subscription_init n mutex s = s\<lparr>sl_list := replicate n empty_element, sl_mutex := mutex\<rparr>"

definition osal_mqtt_subscription_deinit :: "subs \<Rightarrow> subs" where
  "osal_mqtt_subscription_deinit s =
     s\<lparr>sl_mutex := False, sl_list := replicate (length (sl_list s)) empty_element\<rparr>"

text \<open>The scan from the last element to the first: the free element found last, or that the subscription exists.\<close>

fun add_scan :: "sub_element list \<Rightarrow> string \<Rightarrow> u16 \<Rightarrow> nat \<Rightarrow> nat \<Rightarrow> nat \<Rightarrow> nat option \<Rightarrow> (nat option \<times> bool) outcome" where
  "add_scan es str len cb priv 0 avail = Returned (avail, False)"
| "add_scan es str len cb priv (Suc i) avail =
     (if se_len (es ! i) = 0 then add_scan es str len cb priv i (Some i)
      else if se_len (es ! i) = len
      then obind (same_filter str len (es ! i)) (\<lambda>same.
             if same \<and> se_callback (es ! i) = Some cb \<and> se_priv (es ! i) = priv then Returned (None, True)
             else add_scan es str len cb priv i avail)
      else add_scan es str len cb priv i avail)"

text \<open>The result and whether an element was added; \<^verbatim>\<open>dup\<close> says whether \<^verbatim>\<open>strndup\<close> gets its memory.\<close>

definition osal_mqtt_subscription_add_ex ::
    "bool \<Rightarrow> string option \<Rightarrow> u16 \<Rightarrow> channel option \<Rightarrow> nat option \<Rightarrow> qos \<Rightarrow> nat \<Rightarrow> subs \<Rightarrow> (bool \<times> bool) \<times> subs" where
  "osal_mqtt_subscription_add_ex dup topic len ch callback q priv s = (case (topic, callback) of
     (Some str, Some cb) \<Rightarrow>
       if len = 0 then ((False, False), s)
       else if \<not> sl_mutex s then ((False, False), s)
       else (case add_scan (sl_list s) str len cb priv (length (sl_list s)) None of
               Returned (Some i, _) \<Rightarrow>
                 ((True, True),
                  s\<lparr>sl_list := (sl_list s)[i := \<lparr>se_channel = (case ch of None \<Rightarrow> no_channel | Some c \<Rightarrow> c),
                       se_callback = Some cb, se_priv = priv, se_qos = q, se_len = len,
                       se_filter = (if dup then Some (strndup str (unat len)) else None)\<rparr>],
                    sl_count := sl_count s + 1\<rparr>)
             | Returned (None, found) \<Rightarrow> ((found, False), s)
             | _ \<Rightarrow> ((False, False), s\<lparr>sl_fault := True\<rparr>))
   | _ \<Rightarrow> ((False, False), s))"

definition osal_mqtt_subscription_add ::
    "bool \<Rightarrow> string option \<Rightarrow> u16 \<Rightarrow> channel option \<Rightarrow> nat option \<Rightarrow> qos \<Rightarrow> nat \<Rightarrow> subs \<Rightarrow> bool \<times> subs" where
  "osal_mqtt_subscription_add dup topic len ch callback q priv s =
     (let ((ok, _), s1) = osal_mqtt_subscription_add_ex dup topic len ch callback q priv s in (ok, s1))"

text \<open>The loops over the table, by index.\<close>

fun remove_loop :: "string \<Rightarrow> u16 \<Rightarrow> sub_element list \<Rightarrow> u8 \<Rightarrow> (sub_element list \<times> u8) outcome" where
  "remove_loop str len [] n = Returned ([], n)"
| "remove_loop str len (e # es) n =
     (if se_len e = len
      then obind (same_filter str len e) (\<lambda>same.
             obind (remove_loop str len es (if same then n - 1 else n)) (\<lambda>(es', n').
               Returned ((if same then empty_element else e) # es', n')))
      else obind (remove_loop str len es n) (\<lambda>(es', n'). Returned (e # es', n')))"

definition osal_mqtt_subscription_remove :: "string option \<Rightarrow> u16 \<Rightarrow> subs \<Rightarrow> subs" where
  "osal_mqtt_subscription_remove topic len s = (case topic of
     None \<Rightarrow> s
   | Some str \<Rightarrow>
       if len = 0 \<or> \<not> sl_mutex s then s
       else (case remove_loop str len (sl_list s) (sl_count s) of
               Returned (es, n) \<Rightarrow> s\<lparr>sl_list := es, sl_count := n\<rparr>
             | _ \<Rightarrow> s\<lparr>sl_fault := True\<rparr>))"

fun remove_entry_loop :: "string \<Rightarrow> u16 \<Rightarrow> nat option \<Rightarrow> nat \<Rightarrow> sub_element list \<Rightarrow> u8 \<Rightarrow> (sub_element list \<times> u8) outcome" where
  "remove_entry_loop str len cb priv [] n = Returned ([], n)"
| "remove_entry_loop str len cb priv (e # es) n =
     (if se_len e = len \<and> se_callback e = cb \<and> se_priv e = priv
      then obind (same_filter str len e) (\<lambda>same.
             if same then Returned (empty_element # es, n - 1)
             else obind (remove_entry_loop str len cb priv es n) (\<lambda>(es', n'). Returned (e # es', n')))
      else obind (remove_entry_loop str len cb priv es n) (\<lambda>(es', n'). Returned (e # es', n')))"

definition osal_mqtt_subscription_remove_entry :: "string option \<Rightarrow> u16 \<Rightarrow> nat option \<Rightarrow> nat \<Rightarrow> subs \<Rightarrow> subs" where
  "osal_mqtt_subscription_remove_entry topic len cb priv s = (case topic of
     None \<Rightarrow> s
   | Some str \<Rightarrow>
       if len = 0 \<or> \<not> sl_mutex s then s
       else (case remove_entry_loop str len cb priv (sl_list s) (sl_count s) of
               Returned (es, n) \<Rightarrow> s\<lparr>sl_list := es, sl_count := n\<rparr>
             | _ \<Rightarrow> s\<lparr>sl_fault := True\<rparr>))"

definition osal_mqtt_subscription_clear :: "subs \<Rightarrow> subs" where
  "osal_mqtt_subscription_clear s =
     (if \<not> sl_mutex s then s
      else s\<lparr>sl_list := replicate (length (sl_list s)) empty_element, sl_count := 0\<rparr>)"

text \<open>The callbacks to call for a message, with their private data, in the order of the table.\<close>

fun publish_loop :: "string \<Rightarrow> nat \<Rightarrow> sub_element list \<Rightarrow> (nat option \<times> nat) list outcome" where
  "publish_loop topic topic_len [] = Returned []"
| "publish_loop topic topic_len (e # es) =
     (if se_len e = 0 then publish_loop topic topic_len es
      else obind (case se_filter e of None \<Rightarrow> Crashed
                  | Some flt \<Rightarrow> osal_mqtt_match_topic topic topic_len flt (unat (se_len e)))
             (\<lambda>matched. obind (publish_loop topic topic_len es) (\<lambda>cs.
                Returned (if matched then (se_callback e, se_priv e) # cs else cs))))"

definition osal_mqtt_subscription_handle_publish ::
    "string option \<Rightarrow> nat \<Rightarrow> subs \<Rightarrow> (bool \<times> (nat option \<times> nat) list) \<times> subs" where
  "osal_mqtt_subscription_handle_publish topic topic_len s = (case topic of
     None \<Rightarrow> ((False, []), s)
   | Some t \<Rightarrow>
       if \<not> sl_mutex s then ((False, []), s)
       else (case publish_loop t topic_len (sl_list s) of
               Returned cs \<Rightarrow> ((cs \<noteq> [], cs), s)
             | _ \<Rightarrow> ((False, []), s\<lparr>sl_fault := True\<rparr>)))"

text \<open>The elements to subscribe again and the channels to answer, of the elements in use.\<close>

definition osal_mqtt_subscription_attempt_resubscribe_all :: "subs \<Rightarrow> sub_element list" where
  "osal_mqtt_subscription_attempt_resubscribe_all s =
     (if \<not> sl_mutex s then [] else filter (\<lambda>e. se_len e > 0) (sl_list s))"

definition osal_mqtt_subscription_simulate_subacks :: "subs \<Rightarrow> channel list" where
  "osal_mqtt_subscription_simulate_subacks s =
     (if \<not> sl_mutex s then [] else map se_channel (filter (\<lambda>e. se_len e > 0 \<and> se_qos e \<noteq> QoS0) (sl_list s)))"

section \<open>The table as a set of subscriptions\<close>

definition el_filter :: "sub_element \<Rightarrow> string" where
  "el_filter e = (case se_filter e of None \<Rightarrow> [] | Some flt \<Rightarrow> butlast flt)"

definition el_key :: "sub_element \<Rightarrow> string \<times> nat option \<times> nat" where
  "el_key e = (el_filter e, se_callback e, se_priv e)"

definition in_use :: "sub_element \<Rightarrow> bool" where
  "in_use e \<longleftrightarrow> se_len e \<noteq> 0"

definition good_filter :: "string \<Rightarrow> bool" where
  "good_filter flt \<longleftrightarrow> filter_ok flt \<and> length flt < 2 ^ 16"

definition el_ok :: "sub_element \<Rightarrow> bool" where
  "el_ok e \<longleftrightarrow> (in_use e \<longrightarrow> (\<exists>flt. se_filter e = Some (flt @ [CHR 0x00]) \<and> se_len e = of_nat (length flt) \<and>
     good_filter flt \<and> se_callback e \<noteq> None))"

definition subs_ok :: "subs \<Rightarrow> bool" where
  "subs_ok s \<longleftrightarrow> sl_mutex s \<and> (\<forall>e \<in> set (sl_list s). el_ok e) \<and> distinct (map el_key (filter in_use (sl_list s)))"

definition sub_keys :: "subs \<Rightarrow> (string \<times> nat option \<times> nat) set" where
  "sub_keys s = el_key ` set (filter in_use (sl_list s))"

lemma good_filter_len: "good_filter flt \<Longrightarrow> (of_nat (length flt) :: u16) \<noteq> 0 \<and> unat (of_nat (length flt) :: u16) = length flt"
proof -
  assume g: "good_filter flt"
  then have u: "unat (of_nat (length flt) :: u16) = length flt" by (simp add: good_filter_def unat_of_nat)
  moreover have "length flt \<noteq> 0" using g by (simp add: good_filter_def filter_ok_def)
  ultimately have "(of_nat (length flt) :: u16) \<noteq> 0" by (metis unat_0)
  then show ?thesis using u by simp
qed

lemma el_okD: "el_ok e \<Longrightarrow> in_use e \<Longrightarrow> se_filter e = Some (el_filter e @ [CHR 0x00]) \<and>
    se_len e = of_nat (length (el_filter e)) \<and> unat (se_len e) = length (el_filter e) \<and> good_filter (el_filter e)"
  using good_filter_len by (auto simp: el_ok_def el_filter_def)

lemma same_filter_result:
  assumes "el_ok e" "in_use e" "good_filter flt" "se_len e = of_nat (length flt)"
  shows "same_filter (flt @ r) (of_nat (length flt)) e = Returned (flt = el_filter e)"
proof -
  note e = el_okD [OF assms(1,2)]
  have len: "length flt = length (el_filter e)" using e assms(3,4) good_filter_len by metis
  have nul: "CHR 0x00 \<notin> set flt" using assms(3) by (simp add: good_filter_def filter_ok_def)
  show ?thesis
    using strncmp_run [of 0 "flt @ r" flt r 0 "el_filter e @ [CHR 0x00]" "el_filter e" "[CHR 0x00]"] e len nul
      good_filter_len [OF assms(3)]
    by (simp add: same_filter_def)
qed

lemma find_upt_Suc:
  "List.find P [0..<Suc i] = (case List.find P [0..<i] of None \<Rightarrow> if P i then Some i else None | Some j \<Rightarrow> Some j)"
proof -
  have "List.find P (xs @ [i]) = (case List.find P xs of None \<Rightarrow> if P i then Some i else None | Some j \<Rightarrow> Some j)" for xs
    by (induction xs) auto
  then show ?thesis by simp
qed

lemma add_scan_result:
  assumes "\<forall>e \<in> set es. el_ok e" "good_filter flt" "k \<le> length es"
  shows "add_scan es (flt @ r) (of_nat (length flt)) cb priv k avail = Returned
    (if \<exists>j < k. in_use (es ! j) \<and> el_key (es ! j) = (flt, Some cb, priv) then (None, True)
     else (case List.find (\<lambda>i. \<not> in_use (es ! i)) [0..<k] of None \<Rightarrow> avail | Some j \<Rightarrow> Some j, False))"
  using assms(3)
proof (induction k arbitrary: avail)
  case (Suc i)
  let ?e = "es ! i"
  have ok: "el_ok ?e" using assms(1) Suc.prems by simp
  have IH: "add_scan es (flt @ r) (of_nat (length flt)) cb priv i a = Returned
    (if \<exists>j < i. in_use (es ! j) \<and> el_key (es ! j) = (flt, Some cb, priv) then (None, True)
     else (case List.find (\<lambda>i. \<not> in_use (es ! i)) [0..<i] of None \<Rightarrow> a | Some j \<Rightarrow> Some j, False))" for a
    using Suc by simp
  have ex: "(\<exists>j < Suc i. in_use (es ! j) \<and> el_key (es ! j) = (flt, Some cb, priv)) \<longleftrightarrow>
      (\<exists>j < i. in_use (es ! j) \<and> el_key (es ! j) = (flt, Some cb, priv)) \<or> in_use ?e \<and> el_key ?e = (flt, Some cb, priv)"
    using less_Suc_eq by auto
  show ?case
  proof (cases "in_use ?e")
    case False
    then show ?thesis unfolding ex find_upt_Suc using IH by (auto simp: in_use_def split: option.splits)
  next
    case used: True
    show ?thesis
    proof (cases "se_len ?e = of_nat (length flt)")
      case True
      have "same_filter (flt @ r) (of_nat (length flt)) ?e = Returned (flt = el_filter ?e)"
        by (rule same_filter_result [OF ok used assms(2) True])
      then show ?thesis unfolding ex find_upt_Suc using IH used True
        by (auto simp: in_use_def el_key_def split: option.splits)
    next
      case False
      then have "el_filter ?e \<noteq> flt" using el_okD [OF ok used] by auto
      then show ?thesis unfolding ex find_upt_Suc using IH used False
        by (auto simp: in_use_def el_key_def split: option.splits)
    qed
  qed
qed simp

lemma remove_loop_result:
  assumes "good_filter flt" "\<forall>e \<in> set es. el_ok e"
  shows "\<exists>m. remove_loop (flt @ r) (of_nat (length flt)) es n
    = Returned (map (\<lambda>e. if in_use e \<and> el_filter e = flt then empty_element else e) es, m)"
  using assms(2)
proof (induction es arbitrary: n)
  case (Cons e es)
  have ok: "el_ok e" using Cons.prems by simp
  show ?case
  proof (cases "se_len e = of_nat (length flt)")
    case True
    then have u: "in_use e" using good_filter_len [OF assms(1)] by (simp add: in_use_def)
    have "same_filter (flt @ r) (of_nat (length flt)) e = Returned (flt = el_filter e)"
      by (rule same_filter_result [OF ok u assms(1) True])
    moreover obtain m where "remove_loop (flt @ r) (of_nat (length flt)) es (if flt = el_filter e then n - 1 else n)
        = Returned (map (\<lambda>e. if in_use e \<and> el_filter e = flt then empty_element else e) es, m)"
      using Cons by fastforce
    ultimately show ?thesis using True u by auto
  next
    case False
    then have "\<not> (in_use e \<and> el_filter e = flt)" using el_okD [OF ok] by auto
    moreover obtain m where "remove_loop (flt @ r) (of_nat (length flt)) es n
        = Returned (map (\<lambda>e. if in_use e \<and> el_filter e = flt then empty_element else e) es, m)"
      using Cons by fastforce
    ultimately show ?thesis using False by auto
  qed
qed simp

lemma remove_entry_result:
  assumes "good_filter flt" "\<forall>e \<in> set es. el_ok e" "distinct (map el_key (filter in_use es))"
  shows "\<exists>m. remove_entry_loop (flt @ r) (of_nat (length flt)) cb priv es n
    = Returned (map (\<lambda>e. if in_use e \<and> el_key e = (flt, cb, priv) then empty_element else e) es, m)"
  using assms(2,3)
proof (induction es arbitrary: n)
  case (Cons e es)
  have ok: "el_ok e" using Cons.prems by simp
  have IH: "\<exists>m. remove_entry_loop (flt @ r) (of_nat (length flt)) cb priv es n
      = Returned (map (\<lambda>e. if in_use e \<and> el_key e = (flt, cb, priv) then empty_element else e) es, m)" for n
    using Cons by (cases "in_use e") auto
  show ?case
  proof (cases "se_len e = of_nat (length flt) \<and> se_callback e = cb \<and> se_priv e = priv")
    case True
    then have u: "in_use e" using good_filter_len [OF assms(1)] by (simp add: in_use_def)
    have same: "same_filter (flt @ r) (of_nat (length flt)) e = Returned (flt = el_filter e)"
      by (rule same_filter_result [OF ok u assms(1)]) (use True in simp)
    show ?thesis
    proof (cases "flt = el_filter e")
      case eq: True
      have key: "el_key e = (flt, cb, priv)" using eq True by (simp add: el_key_def)
      have "\<not> (in_use d \<and> el_key d = (flt, cb, priv))" if "d \<in> set es" for d
        using Cons.prems(2) u key that by (auto simp: image_iff)
      then have "map (\<lambda>e. if in_use e \<and> el_key e = (flt, cb, priv) then empty_element else e) es = es"
        by (intro map_idI) auto
      then show ?thesis using True same eq u key by simp
    next
      case neq: False
      then have "\<not> (in_use e \<and> el_key e = (flt, cb, priv))" by (auto simp: el_key_def)
      then show ?thesis using True same neq IH [of n] by auto
    qed
  next
    case False
    have "\<not> (in_use e \<and> el_key e = (flt, cb, priv))"
      using False el_okD [OF ok] by (auto simp: el_key_def)
    then show ?thesis using False IH [of n] by auto
  qed
qed simp

lemma publish_loop_result:
  assumes "topic_ok topic" "\<forall>e \<in> set es. el_ok e"
  shows "publish_loop (topic @ CHR 0x00 # r) (length topic) es
    = Returned (map (\<lambda>e. (se_callback e, se_priv e)) (filter (\<lambda>e. in_use e \<and> topic_matches (el_filter e) topic) es))"
  using assms(2)
proof (induction es)
  case (Cons e es)
  show ?case
  proof (cases "in_use e")
    case True
    then have e: "se_filter e = Some (el_filter e @ [CHR 0x00])" "unat (se_len e) = length (el_filter e)" "filter_ok (el_filter e)"
      using el_okD [of e] Cons.prems by (auto simp: good_filter_def)
    have "osal_mqtt_match_topic (topic @ CHR 0x00 # r) (length topic) (el_filter e @ [CHR 0x00]) (length (el_filter e))
        = Returned (topic_matches (el_filter e) topic)"
      by (rule match_topic_rules [OF assms(1) e(3)])
    then show ?thesis using Cons True e by (simp add: in_use_def)
  qed (use Cons in \<open>simp add: in_use_def\<close>)
qed simp

text \<open>What the table does to the set.\<close>

lemma empty_not_used [simp]: "\<not> in_use empty_element" "el_ok empty_element"
  by (simp_all add: in_use_def empty_element_def el_ok_def)

lemma subs_ok_clear_some:
  assumes "subs_ok s"
  shows "subs_ok (s\<lparr>sl_list := map (\<lambda>e. if P e then empty_element else e) (sl_list s), sl_count := m\<rparr>)"
    "sub_keys (s\<lparr>sl_list := map (\<lambda>e. if in_use e \<and> Q (el_key e) then empty_element else e) (sl_list s), sl_count := m\<rparr>)
      = {k \<in> sub_keys s. \<not> Q k}"
proof -
  have f: "filter in_use (map (\<lambda>e. if P e then empty_element else e) es) = filter (\<lambda>e. \<not> P e) (filter in_use es)" for P es
    by (induction es) auto
  show "subs_ok (s\<lparr>sl_list := map (\<lambda>e. if P e then empty_element else e) (sl_list s), sl_count := m\<rparr>)"
    using assms distinct_map_filter [of el_key "filter in_use (sl_list s)" "\<lambda>e. \<not> P e"]
    by (auto simp: subs_ok_def f)
  show "sub_keys (s\<lparr>sl_list := map (\<lambda>e. if in_use e \<and> Q (el_key e) then empty_element else e) (sl_list s), sl_count := m\<rparr>)
      = {k \<in> sub_keys s. \<not> Q k}"
    by (auto simp: sub_keys_def f)
qed

lemma card_sub_keys: "subs_ok s \<Longrightarrow> card (sub_keys s) = length (filter in_use (sl_list s))"
  unfolding sub_keys_def subs_ok_def by (metis distinct_card length_map set_map)

lemma sub_keys_ex: "(\<exists>j < length (sl_list s). in_use (sl_list s ! j) \<and> el_key (sl_list s ! j) = k) \<longleftrightarrow> k \<in> sub_keys s"
  by (auto simp: sub_keys_def in_set_conv_nth image_iff)

lemma find_free_None: "List.find (\<lambda>i. \<not> in_use (es ! i)) [0..<length es] = None \<longleftrightarrow> length (filter in_use es) = length es"
proof -
  have "List.find (\<lambda>i. \<not> in_use (es ! i)) [0..<length es] = None \<longleftrightarrow> (\<forall>e \<in> set es. in_use e)"
    by (simp add: find_None_iff all_set_conv_all_nth)
  then show ?thesis by (metis filter_True length_filter_less less_irrefl)
qed

lemma subs_ok_put:
  assumes "subs_ok s" "i < length (sl_list s)" "\<not> in_use (sl_list s ! i)" "el_ok e" "in_use e" "el_key e \<notin> sub_keys s"
  shows "subs_ok (s\<lparr>sl_list := (sl_list s)[i := e], sl_count := m\<rparr>)"
    "sub_keys (s\<lparr>sl_list := (sl_list s)[i := e], sl_count := m\<rparr>) = insert (el_key e) (sub_keys s)"
proof -
  let ?es = "sl_list s"
  let ?A = "filter in_use (take i ?es)" and ?B = "filter in_use (drop (Suc i) ?es)"
  have "?es = take i ?es @ ?es ! i # drop (Suc i) ?es" using assms(2) by (simp add: id_take_nth_drop)
  then have old: "filter in_use ?es = ?A @ ?B" using assms(3) by (metis filter.simps(2) filter_append)
  have new: "filter in_use (?es[i := e]) = ?A @ e # ?B" using assms(2,5) by (simp add: upd_conv_take_nth_drop)
  show "sub_keys (s\<lparr>sl_list := (sl_list s)[i := e], sl_count := m\<rparr>) = insert (el_key e) (sub_keys s)"
    by (simp add: sub_keys_def old new)
  have "set (?es[i := e]) \<subseteq> insert e (set ?es)" by (rule set_update_subset_insert)
  then show "subs_ok (s\<lparr>sl_list := (sl_list s)[i := e], sl_count := m\<rparr>)"
    using assms(1,4,6) by (auto simp: subs_ok_def sub_keys_def old new)
qed

lemma add_result:
  assumes "subs_ok s" "good_filter flt"
  shows "\<exists>s1. osal_mqtt_subscription_add_ex True (Some (flt @ r)) (of_nat (length flt)) ch (Some cb) q priv s
      = ((if (flt, Some cb, priv) \<in> sub_keys s then (True, False)
          else if card (sub_keys s) < length (sl_list s) then (True, True) else (False, False)), s1)
    \<and> subs_ok s1 \<and> length (sl_list s1) = length (sl_list s)
    \<and> sub_keys s1 = (if card (sub_keys s) < length (sl_list s) then insert (flt, Some cb, priv) (sub_keys s) else sub_keys s)"
proof -
  let ?k = "(flt, Some cb, priv)" and ?es = "sl_list s"
  have mutex: "sl_mutex s" and ok: "\<forall>e \<in> set ?es. el_ok e" using assms(1) by (simp_all add: subs_ok_def)
  note len = good_filter_len [OF assms(2)]
  have scan: "add_scan ?es (flt @ r) (of_nat (length flt)) cb priv (length ?es) None = Returned
    (if ?k \<in> sub_keys s then (None, True) else (List.find (\<lambda>i. \<not> in_use (?es ! i)) [0..<length ?es], False))"
    using add_scan_result [OF ok assms(2), of "length ?es" r cb priv None]
    by (simp add: sub_keys_ex split: option.splits)
  show ?thesis
  proof (cases "?k \<in> sub_keys s")
    case True
    then show ?thesis
      using scan mutex len assms(1) by (auto simp: osal_mqtt_subscription_add_ex_def insert_absorb)
  next
    case new: False
    show ?thesis
    proof (cases "List.find (\<lambda>i. \<not> in_use (?es ! i)) [0..<length ?es]")
      case None
      then have "\<not> card (sub_keys s) < length ?es" using find_free_None [of ?es] card_sub_keys [OF assms(1)] by simp
      then show ?thesis using scan mutex len assms(1) new None by (simp add: osal_mqtt_subscription_add_ex_def)
    next
      case (Some i)
      then have i: "i < length ?es" "\<not> in_use (?es ! i)" using find_SomeD by fastforce+
      have room: "card (sub_keys s) < length ?es"
        using Some find_free_None [of ?es] card_sub_keys [OF assms(1)] length_filter_le [of in_use ?es]
        by (simp add: order_le_less)
      define e where "e = \<lparr>se_channel = (case ch of None \<Rightarrow> no_channel | Some c \<Rightarrow> c), se_callback = Some cb, se_priv = priv,
        se_qos = q, se_len = of_nat (length flt), se_filter = Some (strndup (flt @ r) (unat (of_nat (length flt) :: u16)))\<rparr>"
      have "takeWhile (\<lambda>c. c \<noteq> CHR 0x00) flt = flt"
        using assms(2) by (auto simp: good_filter_def filter_ok_def takeWhile_eq_all_conv)
      then have d: "strndup (flt @ r) (unat (of_nat (length flt) :: u16)) = flt @ [CHR 0x00]" using len by (simp add: strndup_def)
      have e: "el_ok e" "in_use e" "el_key e = ?k"
        using len assms(2) unfolding e_def d by (auto simp: el_ok_def in_use_def el_key_def el_filter_def)
      show ?thesis
        using scan mutex len new Some room subs_ok_put [OF assms(1) i e(1,2)] new e(3)
        by (simp add: osal_mqtt_subscription_add_ex_def e_def)
    qed
  qed
qed

lemma remove_result:
  assumes "subs_ok s" "good_filter flt"
  shows "subs_ok (osal_mqtt_subscription_remove (Some (flt @ r)) (of_nat (length flt)) s)"
    "sub_keys (osal_mqtt_subscription_remove (Some (flt @ r)) (of_nat (length flt)) s) = {k \<in> sub_keys s. fst k \<noteq> flt}"
    "length (sl_list (osal_mqtt_subscription_remove (Some (flt @ r)) (of_nat (length flt)) s)) = length (sl_list s)"
proof -
  have ok: "\<forall>e \<in> set (sl_list s). el_ok e" "sl_mutex s" using assms(1) by (simp_all add: subs_ok_def)
  obtain m where "remove_loop (flt @ r) (of_nat (length flt)) (sl_list s) (sl_count s)
      = Returned (map (\<lambda>e. if in_use e \<and> el_filter e = flt then empty_element else e) (sl_list s), m)"
    using remove_loop_result [OF assms(2) ok(1)] by blast
  then have e: "osal_mqtt_subscription_remove (Some (flt @ r)) (of_nat (length flt)) s
      = s\<lparr>sl_list := map (\<lambda>e. if in_use e \<and> fst (el_key e) = flt then empty_element else e) (sl_list s), sl_count := m\<rparr>"
    using ok(2) good_filter_len [OF assms(2)] by (simp add: osal_mqtt_subscription_remove_def el_key_def)
  show "subs_ok (osal_mqtt_subscription_remove (Some (flt @ r)) (of_nat (length flt)) s)"
    unfolding e by (rule subs_ok_clear_some(1) [OF assms(1)])
  show "sub_keys (osal_mqtt_subscription_remove (Some (flt @ r)) (of_nat (length flt)) s) = {k \<in> sub_keys s. fst k \<noteq> flt}"
    unfolding e by (rule subs_ok_clear_some(2) [OF assms(1), where Q = "\<lambda>k. fst k = flt"])
  show "length (sl_list (osal_mqtt_subscription_remove (Some (flt @ r)) (of_nat (length flt)) s)) = length (sl_list s)"
    unfolding e by simp
qed

lemma remove_entry_ok:
  assumes "subs_ok s" "good_filter flt"
  shows "subs_ok (osal_mqtt_subscription_remove_entry (Some (flt @ r)) (of_nat (length flt)) cb priv s)"
    "sub_keys (osal_mqtt_subscription_remove_entry (Some (flt @ r)) (of_nat (length flt)) cb priv s) = sub_keys s - {(flt, cb, priv)}"
    "length (sl_list (osal_mqtt_subscription_remove_entry (Some (flt @ r)) (of_nat (length flt)) cb priv s)) = length (sl_list s)"
proof -
  have ok: "\<forall>e \<in> set (sl_list s). el_ok e" "sl_mutex s" "distinct (map el_key (filter in_use (sl_list s)))"
    using assms(1) by (simp_all add: subs_ok_def)
  obtain m where "remove_entry_loop (flt @ r) (of_nat (length flt)) cb priv (sl_list s) (sl_count s)
      = Returned (map (\<lambda>e. if in_use e \<and> el_key e = (flt, cb, priv) then empty_element else e) (sl_list s), m)"
    using remove_entry_result [OF assms(2) ok(1,3)] by blast
  then have e: "osal_mqtt_subscription_remove_entry (Some (flt @ r)) (of_nat (length flt)) cb priv s
      = s\<lparr>sl_list := map (\<lambda>e. if in_use e \<and> el_key e = (flt, cb, priv) then empty_element else e) (sl_list s), sl_count := m\<rparr>"
    using ok(2) good_filter_len [OF assms(2)] by (simp add: osal_mqtt_subscription_remove_entry_def)
  show "subs_ok (osal_mqtt_subscription_remove_entry (Some (flt @ r)) (of_nat (length flt)) cb priv s)"
    unfolding e by (rule subs_ok_clear_some(1) [OF assms(1)])
  have "{k \<in> sub_keys s. k \<noteq> (flt, cb, priv)} = sub_keys s - {(flt, cb, priv)}" by auto
  then show "sub_keys (osal_mqtt_subscription_remove_entry (Some (flt @ r)) (of_nat (length flt)) cb priv s) = sub_keys s - {(flt, cb, priv)}"
    unfolding e using subs_ok_clear_some(2) [OF assms(1), where Q = "\<lambda>k. k = (flt, cb, priv)" and m = m] by simp
  show "length (sl_list (osal_mqtt_subscription_remove_entry (Some (flt @ r)) (of_nat (length flt)) cb priv s)) = length (sl_list s)"
    unfolding e by simp
qed

section \<open>The interface the client relies on\<close>

text \<open>A table of keys that is told to add a key answers whether the key is in it now and whether it is new; a key
can be dropped. A client that drops what it has just added leaves the table as it was.\<close>

locale key_table =
  fixes ok :: "'s \<Rightarrow> bool" and keys :: "'s \<Rightarrow> 'k set" and good :: "'k \<Rightarrow> bool"
    and add :: "'k \<Rightarrow> 's \<Rightarrow> (bool \<times> bool) \<times> 's" and drop_key :: "'k \<Rightarrow> 's \<Rightarrow> 's"
  assumes add_ok: "ok s \<Longrightarrow> good k \<Longrightarrow> ok (snd (add k s))"
    and add_keys: "ok s \<Longrightarrow> good k \<Longrightarrow> add k s = ((stored, new), s1) \<Longrightarrow>
      keys s1 = (if stored then insert k (keys s) else keys s) \<and> new = (stored \<and> k \<notin> keys s)"
    and drop_ok: "ok s \<Longrightarrow> good k \<Longrightarrow> ok (drop_key k s)"
    and drop_keys: "ok s \<Longrightarrow> good k \<Longrightarrow> keys (drop_key k s) = keys s - {k}"
begin

lemma undo:
  assumes "ok s" "good k" "add k s = ((stored, new), s1)"
  shows "ok (if new then drop_key k s1 else s1)"
    "stored \<Longrightarrow> keys (if new then drop_key k s1 else s1) = keys s"
    "\<not> stored \<Longrightarrow> keys s1 = keys s \<and> \<not> new" "stored \<Longrightarrow> k \<in> keys s1"
  using assms add_ok [OF assms(1,2)] add_keys [OF assms] drop_ok [of s1 k] drop_keys [of s1 k] by auto

end

definition table_add :: "channel option \<Rightarrow> qos \<Rightarrow> string \<times> nat option \<times> nat \<Rightarrow> subs \<Rightarrow> (bool \<times> bool) \<times> subs" where
  "table_add ch q k s = (let (flt, cb, priv) = k in
     osal_mqtt_subscription_add_ex True (Some (flt @ [CHR 0x00])) (of_nat (length flt)) ch cb q priv s)"

definition table_drop :: "string \<times> nat option \<times> nat \<Rightarrow> subs \<Rightarrow> subs" where
  "table_drop k s = (let (flt, cb, priv) = k in
     osal_mqtt_subscription_remove_entry (Some (flt @ [CHR 0x00])) (of_nat (length flt)) cb priv s)"

definition good_key :: "string \<times> nat option \<times> nat \<Rightarrow> bool" where
  "good_key k \<longleftrightarrow> good_filter (fst k) \<and> fst (snd k) \<noteq> None"

interpretation table: key_table subs_ok sub_keys good_key "table_add ch q" table_drop for ch q
proof
  fix s k assume a: "subs_ok s" "good_key k"
  obtain flt cb priv where k: "k = (flt, Some cb, priv)" "good_filter flt" using a(2) by (cases k) (auto simp: good_key_def)
  note r = add_result [OF a(1) k(2), of "[CHR 0x00]" ch cb q priv]
  show "subs_ok (snd (table_add ch q k s))" using r k(1) by (auto simp: table_add_def)
  show "sub_keys s1 = (if stored then insert k (sub_keys s) else sub_keys s) \<and> new = (stored \<and> k \<notin> sub_keys s)"
    if "table_add ch q k s = ((stored, new), s1)" for stored new s1
    using r k(1) that by (auto simp: table_add_def split: if_splits)
  show "subs_ok (table_drop k s)" "sub_keys (table_drop k s) = sub_keys s - {k}"
    using remove_entry_ok [OF a(1) k(2)] k(1) by (auto simp: table_drop_def)
qed

section \<open>Properties\<close>

datatype sub_op = Add string nat nat qos "channel option" | Remove string | Remove_entry string nat nat | Clear | Message string

datatype sub_answer = Added bool bool | Done | Calls "(nat option \<times> nat) multiset"

text \<open>The calls with terminated strings, as the callers make them.\<close>

fun sub_exec :: "sub_op \<Rightarrow> subs \<Rightarrow> sub_answer \<times> subs" where
  "sub_exec (Add flt cb priv q ch) s =
     (let ((stored, new), s1) = osal_mqtt_subscription_add_ex True (Some (flt @ [CHR 0x00])) (of_nat (length flt)) ch (Some cb) q priv s
      in (Added stored new, s1))"
| "sub_exec (Remove flt) s = (Done, osal_mqtt_subscription_remove (Some (flt @ [CHR 0x00])) (of_nat (length flt)) s)"
| "sub_exec (Remove_entry flt cb priv) s =
     (Done, osal_mqtt_subscription_remove_entry (Some (flt @ [CHR 0x00])) (of_nat (length flt)) (Some cb) priv s)"
| "sub_exec Clear s = (Done, osal_mqtt_subscription_clear s)"
| "sub_exec (Message t) s =
     (let ((_, cs), s1) = osal_mqtt_subscription_handle_publish (Some (t @ [CHR 0x00])) (length t) s in (Calls (mset cs), s1))"

text \<open>The same on a set of at most \<^verbatim>\<open>max\<close> subscriptions.\<close>

fun sub_spec :: "nat \<Rightarrow> sub_op \<Rightarrow> (string \<times> nat option \<times> nat) set \<Rightarrow> sub_answer \<times> (string \<times> nat option \<times> nat) set" where
  "sub_spec m (Add flt cb priv q ch) K =
     (let k = (flt, Some cb, priv)
      in if k \<in> K then (Added True False, K) else if card K < m then (Added True True, insert k K) else (Added False False, K))"
| "sub_spec m (Remove flt) K = (Done, {k \<in> K. fst k \<noteq> flt})"
| "sub_spec m (Remove_entry flt cb priv) K = (Done, K - {(flt, Some cb, priv)})"
| "sub_spec m Clear K = (Done, {})"
| "sub_spec m (Message t) K = (Calls (image_mset snd (mset_set {k \<in> K. topic_matches (fst k) t})), K)"

fun sub_op_ok :: "sub_op \<Rightarrow> bool" where
  "sub_op_ok (Add flt cb priv q ch) = good_filter flt"
| "sub_op_ok (Remove flt) = good_filter flt"
| "sub_op_ok (Remove_entry flt cb priv) = good_filter flt"
| "sub_op_ok Clear = True"
| "sub_op_ok (Message t) = topic_ok t"

primrec sub_run :: "sub_op list \<Rightarrow> subs \<Rightarrow> sub_answer list \<times> subs" where
  "sub_run [] s = ([], s)"
| "sub_run (op # ops) s = (let (a, s1) = sub_exec op s; (as, s2) = sub_run ops s1 in (a # as, s2))"

primrec sub_spec_run :: "nat \<Rightarrow> sub_op list \<Rightarrow> (string \<times> nat option \<times> nat) set \<Rightarrow> sub_answer list \<times> (string \<times> nat option \<times> nat) set" where
  "sub_spec_run m [] K = ([], K)"
| "sub_spec_run m (op # ops) K = (let (a, K1) = sub_spec m op K; (as, K2) = sub_spec_run m ops K1 in (a # as, K2))"

lemma message_result:
  assumes "subs_ok s" "topic_ok t"
  shows "\<exists>b cs. osal_mqtt_subscription_handle_publish (Some (t @ [CHR 0x00])) (length t) s = ((b, cs), s)
    \<and> mset cs = image_mset snd (mset_set {k \<in> sub_keys s. topic_matches (fst k) t}) \<and> b = (cs \<noteq> [])"
proof -
  let ?P = "\<lambda>e. topic_matches (el_filter e) t"
  let ?used = "filter in_use (sl_list s)"
  have ok: "\<forall>e \<in> set (sl_list s). el_ok e" "sl_mutex s" "distinct (map el_key ?used)"
    using assms(1) by (simp_all add: subs_ok_def)
  have "{k \<in> sub_keys s. topic_matches (fst k) t} = set (filter (\<lambda>k. topic_matches (fst k) t) (map el_key ?used))"
    by (auto simp: sub_keys_def)
  then have "mset_set {k \<in> sub_keys s. topic_matches (fst k) t} = mset (filter (\<lambda>k. topic_matches (fst k) t) (map el_key ?used))"
    using mset_set_set [OF distinct_filter [OF ok(3)]] by simp
  also have "filter (\<lambda>k. topic_matches (fst k) t) (map el_key ?used) = map el_key (filter (\<lambda>e. in_use e \<and> ?P e) (sl_list s))"
    by (simp add: filter_map comp_def el_key_def conj_commute)
  finally have "image_mset snd (mset_set {k \<in> sub_keys s. topic_matches (fst k) t})
      = mset (map (\<lambda>e. (se_callback e, se_priv e)) (filter (\<lambda>e. in_use e \<and> ?P e) (sl_list s)))"
    by (simp add: el_key_def image_mset.compositionality comp_def)
  then show ?thesis
    using publish_loop_result [OF assms(2) ok(1), of "[]"] ok(2) by (simp add: osal_mqtt_subscription_handle_publish_def)
qed

lemma sub_exec_refines:
  assumes "subs_ok s" "sub_op_ok op"
  shows "subs_ok (snd (sub_exec op s)) \<and> length (sl_list (snd (sub_exec op s))) = length (sl_list s) \<and>
    sub_spec (length (sl_list s)) op (sub_keys s) = (fst (sub_exec op s), sub_keys (snd (sub_exec op s)))"
proof (cases op)
  case (Add flt cb priv q ch)
  let ?k = "(flt, Some cb, priv)"
  obtain s1 where s1: "osal_mqtt_subscription_add_ex True (Some (flt @ [CHR 0x00])) (of_nat (length flt)) ch (Some cb) q priv s
      = ((if ?k \<in> sub_keys s then (True, False)
          else if card (sub_keys s) < length (sl_list s) then (True, True) else (False, False)), s1)"
    "subs_ok s1" "length (sl_list s1) = length (sl_list s)"
    "sub_keys s1 = (if card (sub_keys s) < length (sl_list s) then insert ?k (sub_keys s) else sub_keys s)"
    using add_result [OF assms(1), of flt "[CHR 0x00]" ch cb q priv] assms(2) Add by auto
  show ?thesis
  proof (cases "?k \<in> sub_keys s")
    case True
    then show ?thesis using s1 Add by (simp add: Let_def insert_absorb)
  next
    case False
    then show ?thesis using s1 Add by (simp add: Let_def)
  qed
next
  case (Message t)
  then show ?thesis using message_result [OF assms(1), of t] assms by auto
next
  case Clear
  then show ?thesis using assms(1)
    by (auto simp: osal_mqtt_subscription_clear_def subs_ok_def sub_keys_def)
next
  case (Remove flt)
  then show ?thesis using assms(2) remove_result [OF assms(1), of flt "[CHR 0x00]"] by simp
next
  case (Remove_entry flt cb priv)
  then show ?thesis using assms(2) remove_entry_ok [OF assms(1), of flt "[CHR 0x00]" "Some cb" priv] by simp
qed

lemma sub_run_refines:
  "subs_ok s \<Longrightarrow> list_all sub_op_ok ops \<Longrightarrow> subs_ok (snd (sub_run ops s)) \<and>
     sub_spec_run (length (sl_list s)) ops (sub_keys s) = (fst (sub_run ops s), sub_keys (snd (sub_run ops s)))"
proof (induction ops arbitrary: s)
  case (Cons op ops)
  then show ?case using sub_exec_refines [of s op] Cons.IH [of "snd (sub_exec op s)"]
    by (auto simp: Let_def case_prod_beta)
qed simp


definition sample_sub_ops :: "sub_op list" where
  "sample_sub_ops = [Add ''jobs/+/#'' 7 0 QoS1 None, Message ''jobs/3/get'', Remove ''jobs/+/#'', Message ''jobs/3/get'']"

definition sample_subs :: subs where
  "sample_subs = \<lparr>sl_list = [], sl_count = 0, sl_mutex = False, sl_fault = False\<rparr>"


end
