(* ===== verification/Mqtt_Core.thy ===== *)
theory Mqtt_Core
  imports Mqtt_Subs
begin

text \<open>The MQTT client on the coreMQTT agent, \<^verbatim>\<open>osal_mqtt_core_impl.c\<close>: publishing, subscribing and unsubscribing
with the memory each command owns until the agent completes it, the connection to the broker, and the agent task.
The agent library is outside the repository; it answers each call with a status, keeps a command it accepted and
later calls the completion callback of that command once. Memory is the set of live blocks.\<close>

section \<open>Data\<close>

datatype mqtt_status = MQTTSuccess | MQTTBadParameter | MQTTNoMemory | MQTTSendFailed | MQTTRecvFailed
  | MQTTBadResponse | MQTTServerRefused | MQTTNoDataAvailable | MQTTIllegalState | MQTTStateCollision
  | MQTTKeepAliveTimeout | MQTTNeedMoreBytes | MQTTOther

definition mqtt_agent_status_to_os_err :: "mqtt_status \<Rightarrow> err" where
  "mqtt_agent_status_to_os_err st = (case st of
     MQTTSuccess \<Rightarrow> ERR_OK | MQTTBadParameter \<Rightarrow> ERR_INVALID_ARG | MQTTNoMemory \<Rightarrow> ERR_NO_MEM
   | MQTTSendFailed \<Rightarrow> ERR_MQTT_SEND_FAILED | MQTTRecvFailed \<Rightarrow> ERR_MQTT_RECV_FAILED
   | MQTTBadResponse \<Rightarrow> ERR_MQTT_BAD_RESPONSE | MQTTServerRefused \<Rightarrow> ERR_MQTT_SERVER_REFUSED
   | MQTTNoDataAvailable \<Rightarrow> ERR_MQTT_NO_DATA_AVAILABLE | MQTTIllegalState \<Rightarrow> ERR_INVALID_STATE
   | MQTTStateCollision \<Rightarrow> ERR_MQTT_STATE_COLLISION | MQTTKeepAliveTimeout \<Rightarrow> ERR_MQTT_KEEP_ALIVE_TIMEOUT
   | MQTTNeedMoreBytes \<Rightarrow> ERR_MQTT_NEED_MORE_BYTES | MQTTOther \<Rightarrow> ERR_MQTT_BAD_RESPONSE)"

text \<open>The payload of a command with the addresses of its blocks: the publish information with its topic and data, or
the subscribe arguments with the subscribe information and its filter.\<close>

datatype command_payload =
    Publish_payload nat "nat option" "nat option"
  | Subscribe_payload nat nat nat

datatype mqtt_request = Publish_request string "string option" qos bool | Subscribe_request string qos | Unsubscribe_request string qos

datatype loop_event = Connected_event | Disconnected_event | Published_event | Subscribed_event | Unsubscribed_event

record command_context =
  cc_addr :: nat
  cc_request :: mqtt_request
  cc_payload :: command_payload
  cc_msg_id :: u32
  cc_info :: "nat option"
  cc_event :: loop_event
  cc_channel :: channel

record mqtt_sys =
  mq_subs :: subs
  mq_connected :: bool
  mq_clean :: bool
  mq_keep_alive :: bool
  mq_alive :: bool
  mq_params_clean :: "bool option"
  mq_msg_id :: u32
  mq_live :: "nat set"
  mq_fresh :: nat
  mq_calls :: nat
  mq_queue :: "command_context list"
  mq_posted :: "(loop_event \<times> u32 \<times> mqtt_status \<times> channel) list"
  mq_connects :: "bool list"
  mq_fault :: bool

record mqtt_env =
  qe_alloc :: "nat \<Rightarrow> bool"
  qe_status :: "nat \<Rightarrow> mqtt_status"
  qe_session_present :: "nat \<Rightarrow> bool"
  qe_resubscribe :: bool
  qe_cancelled :: mqtt_status

section \<open>Memory\<close>

definition mq_alloc :: "mqtt_env \<Rightarrow> mqtt_sys \<Rightarrow> nat option \<times> mqtt_sys" where
  "mq_alloc env s =
     (if qe_alloc env (mq_calls s)
      then (Some (mq_fresh s), s\<lparr>mq_calls := Suc (mq_calls s), mq_fresh := Suc (mq_fresh s), mq_live := insert (mq_fresh s) (mq_live s)\<rparr>)
      else (None, s\<lparr>mq_calls := Suc (mq_calls s)\<rparr>))"

definition mq_status :: "mqtt_env \<Rightarrow> mqtt_sys \<Rightarrow> mqtt_status \<times> mqtt_sys" where
  "mq_status env s = (qe_status env (mq_calls s), s\<lparr>mq_calls := Suc (mq_calls s)\<rparr>)"

definition mq_free :: "nat \<Rightarrow> mqtt_sys \<Rightarrow> mqtt_sys" where
  "mq_free p s = (if p \<in> mq_live s then s\<lparr>mq_live := mq_live s - {p}\<rparr> else s\<lparr>mq_fault := True\<rparr>)"

definition mq_free_opt :: "nat option \<Rightarrow> mqtt_sys \<Rightarrow> mqtt_sys" where
  "mq_free_opt p s = (case p of None \<Rightarrow> s | Some q \<Rightarrow> mq_free q s)"

definition prvFreeCommandPayload :: "command_payload \<Rightarrow> mqtt_sys \<Rightarrow> mqtt_sys" where
  "prvFreeCommandPayload pl s = (case pl of
     Publish_payload info topic data \<Rightarrow> mq_free info (mq_free_opt data (mq_free_opt topic s))
   | Subscribe_payload args info filt \<Rightarrow> mq_free args (mq_free info (mq_free filt s)))"

definition prvFreeCommandContext :: "command_context \<Rightarrow> mqtt_sys \<Rightarrow> mqtt_sys" where
  "prvFreeCommandContext c s = mq_free (cc_addr c) (mq_free_opt (cc_info c) (prvFreeCommandPayload (cc_payload c) s))"

definition prvGetCommandContext ::
    "mqtt_env \<Rightarrow> u32 \<Rightarrow> mqtt_request \<Rightarrow> command_payload \<Rightarrow> loop_event \<Rightarrow> channel option \<Rightarrow> mqtt_sys \<Rightarrow> command_context option \<times> mqtt_sys" where
  "prvGetCommandContext env msg_id req pl ev ch s =
     (case mq_alloc env s of
        (None, s1) \<Rightarrow> (None, s1)
      | (Some p, s1) \<Rightarrow>
          (Some \<lparr>cc_addr = p, cc_request = req, cc_payload = pl, cc_msg_id = msg_id, cc_info = None, cc_event = ev,
                 cc_channel = (case ch of None \<Rightarrow> no_channel | Some c \<Rightarrow> c)\<rparr>, s1))"

text \<open>The part all three requests share: the context and the command information; on a failure everything that
was allocated is freed.\<close>

definition make_command ::
    "mqtt_env \<Rightarrow> u32 \<Rightarrow> mqtt_request \<Rightarrow> command_payload \<Rightarrow> loop_event \<Rightarrow> channel option \<Rightarrow> mqtt_sys \<Rightarrow> command_context option \<times> mqtt_sys" where
  "make_command env msg_id req pl ev ch s =
     (case prvGetCommandContext env msg_id req pl ev ch s of
        (None, s1) \<Rightarrow> (None, prvFreeCommandPayload pl s1)
      | (Some c, s1) \<Rightarrow>
          (case mq_alloc env s1 of
             (None, s2) \<Rightarrow> (None, prvFreeCommandContext c s2)
           | (Some i, s2) \<Rightarrow> (Some (c\<lparr>cc_info := Some i\<rparr>), s2)))"

section \<open>Requests\<close>

text \<open>The copy of the data, when there is any.\<close>

definition publish_data :: "mqtt_env \<Rightarrow> string option \<Rightarrow> mqtt_sys \<Rightarrow> bool \<times> nat option \<times> mqtt_sys" where
  "publish_data env data s = (case data of
     None \<Rightarrow> (True, None, s)
   | Some d \<Rightarrow> if d = [] then (True, None, s) else (let (p, s1) = mq_alloc env s in (p \<noteq> None, p, s1)))"

definition mqtt_publish ::
    "mqtt_env \<Rightarrow> channel option \<Rightarrow> string option \<Rightarrow> nat \<Rightarrow> string option \<Rightarrow> qos \<Rightarrow> bool \<Rightarrow> mqtt_sys \<Rightarrow> err \<times> mqtt_sys" where
  "mqtt_publish env ch topic topic_len data q retain s = (case topic of
     None \<Rightarrow> (ERR_INVALID_ARG, s)
   | Some t \<Rightarrow>
       if topic_len = 0 then (ERR_INVALID_ARG, s)
       else if \<not> mq_connected s then (ERR_MQTT_NOT_CONNECTED, s)
       else
         (let msg_id = mq_msg_id s + 1; s0 = s\<lparr>mq_msg_id := msg_id\<rparr>
          in case mq_alloc env s0 of
               (None, s1) \<Rightarrow> (ERR_NO_MEM, s1)
             | (Some info, s1) \<Rightarrow>
                 (case publish_data env data s1 of
                    (False, _, s2) \<Rightarrow> (ERR_NO_MEM, mq_free info s2)
                  | (True, pd, s2) \<Rightarrow>
                      (case mq_alloc env s2 of
                         (None, s3) \<Rightarrow> (ERR_NO_MEM, prvFreeCommandPayload (Publish_payload info None pd) s3)
                       | (Some pt, s3) \<Rightarrow>
                           (case make_command env msg_id (Publish_request (strndup t topic_len) data q retain)
                                   (Publish_payload info (Some pt) pd) Published_event ch s3 of
                              (None, s4) \<Rightarrow> (ERR_NO_MEM, s4)
                            | (Some c, s4) \<Rightarrow>
                                (let (st, s5) = mq_status env s4
                                 in if st \<noteq> MQTTSuccess then (mqtt_agent_status_to_os_err st, prvFreeCommandContext c s5)
                                    else (ERR_OK, s5\<lparr>mq_queue := mq_queue s5 @ [c]\<rparr>)))))))"

text \<open>The subscribe information, its filter and the arguments, for \<^verbatim>\<open>subscribe\<close> and \<^verbatim>\<open>unsubscribe\<close>.\<close>

definition subscribe_args :: "mqtt_env \<Rightarrow> mqtt_sys \<Rightarrow> command_payload option \<times> mqtt_sys" where
  "subscribe_args env s =
     (case mq_alloc env s of
        (None, s1) \<Rightarrow> (None, s1)
      | (Some info, s1) \<Rightarrow>
          (case mq_alloc env s1 of
             (None, s2) \<Rightarrow> (None, mq_free info s2)
           | (Some filt, s2) \<Rightarrow>
               (case mq_alloc env s2 of
                  (None, s3) \<Rightarrow> (None, mq_free info (mq_free filt s3))
                | (Some args, s3) \<Rightarrow> (Some (Subscribe_payload args info filt), s3))))"

text \<open>\<^verbatim>\<open>topic_len\<close> is passed on to the table as a \<^verbatim>\<open>uint16_t\<close>.\<close>

definition mqtt_subscribe ::
    "mqtt_env \<Rightarrow> channel option \<Rightarrow> string option \<Rightarrow> nat \<Rightarrow> nat option \<Rightarrow> qos \<Rightarrow> nat \<Rightarrow> mqtt_sys \<Rightarrow> err \<times> mqtt_sys" where
  "mqtt_subscribe env ch topic topic_len cb q priv s = (case topic of
     None \<Rightarrow> (ERR_INVALID_ARG, s)
   | Some t \<Rightarrow>
       if topic_len = 0 then (ERR_INVALID_ARG, s)
       else if \<not> mq_connected s then (ERR_MQTT_NOT_CONNECTED, s)
       else
         (let msg_id = mq_msg_id s + 1; s0 = s\<lparr>mq_msg_id := msg_id\<rparr>
          in case subscribe_args env s0 of
               (None, s1) \<Rightarrow> (ERR_NO_MEM, s1)
             | (Some pl, s1) \<Rightarrow>
                 (case make_command env msg_id (Subscribe_request (strndup t topic_len) q) pl Subscribed_event ch s1 of
                    (None, s2) \<Rightarrow> (ERR_NO_MEM, s2)
                  | (Some c, s2) \<Rightarrow>
                      (let dup = qe_alloc env (mq_calls s2); s3 = s2\<lparr>mq_calls := Suc (mq_calls s2)\<rparr>;
                           ((ok, added), subs) =
                             osal_mqtt_subscription_add_ex dup topic (of_nat topic_len) ch cb q priv (mq_subs s3);
                           s4 = s3\<lparr>mq_subs := subs\<rparr>
                       in if \<not> ok then (ERR_INVALID_STATE, prvFreeCommandContext c s4)
                          else let (st, s5) = mq_status env s4
                               in if st \<noteq> MQTTSuccess
                                  then (mqtt_agent_status_to_os_err st,
                                        prvFreeCommandContext c
                                          (if added
                                           then s5\<lparr>mq_subs := osal_mqtt_subscription_remove_entry topic (of_nat topic_len) cb priv (mq_subs s5)\<rparr>
                                           else s5))
                                  else (ERR_OK, s5\<lparr>mq_queue := mq_queue s5 @ [c]\<rparr>)))))"

definition mqtt_unsubscribe ::
    "mqtt_env \<Rightarrow> channel option \<Rightarrow> string option \<Rightarrow> nat \<Rightarrow> qos \<Rightarrow> mqtt_sys \<Rightarrow> err \<times> mqtt_sys" where
  "mqtt_unsubscribe env ch topic topic_len q s = (case topic of
     None \<Rightarrow> (ERR_INVALID_ARG, s)
   | Some t \<Rightarrow>
       if topic_len = 0 then (ERR_INVALID_ARG, s)
       else if \<not> mq_connected s then (ERR_MQTT_NOT_CONNECTED, s)
       else
         (let msg_id = mq_msg_id s + 1; s0 = s\<lparr>mq_msg_id := msg_id\<rparr>
          in case subscribe_args env s0 of
               (None, s1) \<Rightarrow> (ERR_NO_MEM, s1)
             | (Some pl, s1) \<Rightarrow>
                 (case make_command env msg_id (Unsubscribe_request (strndup t topic_len) q) pl Unsubscribed_event ch s1 of
                    (None, s2) \<Rightarrow> (ERR_NO_MEM, s2)
                  | (Some c, s2) \<Rightarrow>
                      (let (st, s3) = mq_status env s2
                       in if st \<noteq> MQTTSuccess then (mqtt_agent_status_to_os_err st, prvFreeCommandContext c s3)
                          else (ERR_OK, s3\<lparr>mq_queue := mq_queue s3 @ [c],
                                           mq_subs := osal_mqtt_subscription_remove topic (of_nat topic_len) (mq_subs s3)\<rparr>)))))"

section \<open>Callbacks of the agent\<close>

definition prvOnCompleteCommandCallback :: "command_context \<Rightarrow> mqtt_status \<Rightarrow> mqtt_sys \<Rightarrow> mqtt_sys" where
  "prvOnCompleteCommandCallback c st s =
     prvFreeCommandContext c (s\<lparr>mq_posted := mq_posted s @ [(cc_event c, cc_msg_id c, st, cc_channel c)]\<rparr>)"

text \<open>The callbacks run for a message from the broker.\<close>

definition prvIncomingPublishCallback :: "string option \<Rightarrow> nat \<Rightarrow> mqtt_sys \<Rightarrow> (nat option \<times> nat) list \<times> mqtt_sys" where
  "prvIncomingPublishCallback topic topic_len s =
     (let ((_, cs), subs) = osal_mqtt_subscription_handle_publish topic topic_len (mq_subs s)
      in (cs, s\<lparr>mq_subs := subs\<rparr>))"

text \<open>The agent completes the command at an index of its list.\<close>

definition complete_command :: "nat \<Rightarrow> mqtt_status \<Rightarrow> mqtt_sys \<Rightarrow> mqtt_sys" where
  "complete_command i st s =
     (if i < length (mq_queue s)
      then prvOnCompleteCommandCallback (mq_queue s ! i) st (s\<lparr>mq_queue := take i (mq_queue s) @ drop (Suc i) (mq_queue s)\<rparr>)
      else s)"

text \<open>\<^verbatim>\<open>MQTTAgent_CancelAll\<close>: the agent completes every command, with the status it has for that.\<close>

fun cancel_all :: "mqtt_env \<Rightarrow> nat \<Rightarrow> mqtt_sys \<Rightarrow> mqtt_sys" where
  "cancel_all env 0 s = s"
| "cancel_all env (Suc n) s = cancel_all env n (complete_command 0 (qe_cancelled env) s)"

section \<open>The connection\<close>

text \<open>\<^verbatim>\<open>osal_mqtt_subscription_attempt_resubscribe_all(subscribe)\<close>; a stored filter is a terminated string.\<close>

fun resubscribe_all :: "mqtt_env \<Rightarrow> sub_element list \<Rightarrow> mqtt_sys \<Rightarrow> mqtt_sys" where
  "resubscribe_all env [] s = s"
| "resubscribe_all env (e # es) s = resubscribe_all env es
     (snd (mqtt_subscribe env (Some (se_channel e)) (se_filter e) (unat (se_len e)) (se_callback e) (se_qos e) (se_priv e) s))"

definition resubscribe_or_clear :: "mqtt_env \<Rightarrow> mqtt_sys \<Rightarrow> mqtt_sys" where
  "resubscribe_or_clear env s =
     (if qe_resubscribe env then resubscribe_all env (osal_mqtt_subscription_attempt_resubscribe_all (mq_subs s)) s
      else s\<lparr>mq_subs := osal_mqtt_subscription_clear (mq_subs s)\<rparr>)"

text \<open>The parameter has the name of the file's variable, so the assignment after a connection only changes the
parameter. \<^verbatim>\<open>mq_connects\<close> records the session flag of every connection that is requested.\<close>

definition prvCoreMqttAgentConnect :: "mqtt_env \<Rightarrow> bool \<Rightarrow> mqtt_sys \<Rightarrow> mqtt_status \<times> mqtt_sys" where
  "prvCoreMqttAgentConnect env xCleanSession s =
     (let (r, s1) = mq_status env (s\<lparr>mq_connects := mq_connects s @ [xCleanSession]\<rparr>);
          present = qe_session_present env (mq_calls s)
      in if r \<noteq> MQTTSuccess then (r, s1)
         else let (r2, s2) = (if xCleanSession then (MQTTSuccess, resubscribe_or_clear env s1)
                              else let (r2, s2) = mq_status env s1
                                   in if r2 \<noteq> MQTTSuccess then (r2, s2)
                                      else if present
                                      then (r2, s2\<lparr>mq_posted := mq_posted s2 @
                                             map (\<lambda>c. (Subscribed_event, 0, MQTTSuccess, c))
                                               (osal_mqtt_subscription_simulate_subacks (mq_subs s2))\<rparr>)
                                      else (r2, resubscribe_or_clear env s2))
              in (r2, s2\<lparr>mq_connected := True, mq_posted := mq_posted s2 @ [(Connected_event, 0, MQTTSuccess, no_channel)]\<rparr>))"

text \<open>The agent task, in the pieces between which other tasks run: its start, a pass of the command loop that
ends, an attempt to connect, and its exit.\<close>

definition agent_start :: "mqtt_sys \<Rightarrow> mqtt_sys" where
  "agent_start s = s\<lparr>mq_clean := (case mq_params_clean s of None \<Rightarrow> False | Some b \<Rightarrow> b), mq_alive := True\<rparr>"

definition command_loop_ends :: "mqtt_env \<Rightarrow> mqtt_status \<Rightarrow> bool \<Rightarrow> mqtt_sys \<Rightarrow> mqtt_sys" where
  "command_loop_ends env st still_connected s =
     (if st = MQTTRecvFailed \<or> st = MQTTSendFailed \<or> st = MQTTKeepAliveTimeout \<or> \<not> still_connected \<or> \<not> mq_keep_alive s
      then cancel_all env (length (mq_queue s))
             (s\<lparr>mq_connected := False, mq_posted := mq_posted s @ [(Disconnected_event, 0, MQTTSuccess, no_channel)]\<rparr>)
      else s)"

definition agent_connect_attempt :: "mqtt_env \<Rightarrow> bool \<Rightarrow> mqtt_sys \<Rightarrow> mqtt_sys" where
  "agent_connect_attempt env tls_ok s = (if tls_ok then snd (prvCoreMqttAgentConnect env (mq_clean s) s) else s)"

definition agent_exit :: "mqtt_env \<Rightarrow> mqtt_sys \<Rightarrow> mqtt_sys" where
  "agent_exit env s = (cancel_all env (length (mq_queue s)) s)\<lparr>mq_alive := False\<rparr>"

definition mqtt_connect :: "bool \<Rightarrow> mqtt_sys \<Rightarrow> err \<times> mqtt_sys" where
  "mqtt_connect created s =
     (if mq_alive s then (ERR_OK, s)
      else if created then (ERR_OK, s\<lparr>mq_keep_alive := True\<rparr>)
      else (ERR_INVALID_STATE, s\<lparr>mq_keep_alive := False\<rparr>))"

definition mqtt_disconnect :: "mqtt_env \<Rightarrow> mqtt_sys \<Rightarrow> err \<times> mqtt_sys" where
  "mqtt_disconnect env s =
     (let (st, s1) = mq_status env (s\<lparr>mq_keep_alive := False\<rparr>) in (mqtt_agent_status_to_os_err st, s1))"

definition mqtt_force_reconnect :: "mqtt_env \<Rightarrow> mqtt_sys \<Rightarrow> err \<times> mqtt_sys" where
  "mqtt_force_reconnect env s =
     (let (st, s1) = mq_status env (s\<lparr>mq_clean := True\<rparr>) in (mqtt_agent_status_to_os_err st, s1))"

definition mqtt_drop :: "mqtt_env \<Rightarrow> mqtt_sys \<Rightarrow> err \<times> mqtt_sys" where
  "mqtt_drop env s =
     (let (st, s1) = mq_status env (s\<lparr>mq_keep_alive := False\<rparr>) in (mqtt_agent_status_to_os_err st, s1))"

section \<open>The client among its callers\<close>

datatype mqtt_action =
    Do_publish "channel option" "string option" nat "string option" qos bool
  | Do_subscribe "channel option" "string option" nat "nat option" qos nat
  | Do_unsubscribe "channel option" "string option" nat qos
  | Do_complete nat mqtt_status
  | Do_incoming "string option" nat
  | Do_start | Do_loop_ends mqtt_status bool | Do_attempt bool | Do_exit
  | Do_connect bool | Do_disconnect | Do_force_reconnect | Do_drop

fun mqtt_act :: "mqtt_env \<Rightarrow> mqtt_action \<Rightarrow> mqtt_sys \<Rightarrow> mqtt_sys" where
  "mqtt_act env (Do_publish ch t n d q retain) s = snd (mqtt_publish env ch t n d q retain s)"
| "mqtt_act env (Do_subscribe ch t n cb q priv) s = snd (mqtt_subscribe env ch t n cb q priv s)"
| "mqtt_act env (Do_unsubscribe ch t n q) s = snd (mqtt_unsubscribe env ch t n q s)"
| "mqtt_act env (Do_complete i st) s = complete_command i st s"
| "mqtt_act env (Do_incoming t n) s = snd (prvIncomingPublishCallback t n s)"
| "mqtt_act env Do_start s = agent_start s"
| "mqtt_act env (Do_loop_ends st still) s = command_loop_ends env st still s"
| "mqtt_act env (Do_attempt tls) s = agent_connect_attempt env tls s"
| "mqtt_act env Do_exit s = agent_exit env s"
| "mqtt_act env (Do_connect created) s = snd (mqtt_connect created s)"
| "mqtt_act env Do_disconnect s = snd (mqtt_disconnect env s)"
| "mqtt_act env Do_force_reconnect s = snd (mqtt_force_reconnect env s)"
| "mqtt_act env Do_drop s = snd (mqtt_drop env s)"

definition mqtt_run :: "mqtt_env \<Rightarrow> mqtt_action list \<Rightarrow> mqtt_sys \<Rightarrow> mqtt_sys" where
  "mqtt_run env as s = fold (mqtt_act env) as s"

section \<open>Every block has one owner\<close>

definition payload_blocks :: "command_payload \<Rightarrow> nat multiset" where
  "payload_blocks pl = (case pl of
     Publish_payload info topic data \<Rightarrow> {#info#} + mset_set (set_option topic) + mset_set (set_option data)
   | Subscribe_payload args info filt \<Rightarrow> {#args, info, filt#})"

definition blocks :: "command_context \<Rightarrow> nat multiset" where
  "blocks c = {#cc_addr c#} + mset_set (set_option (cc_info c)) + payload_blocks (cc_payload c)"

text \<open>The live blocks are those of the queued commands and those the running function holds.\<close>

definition holding :: "nat multiset \<Rightarrow> mqtt_sys \<Rightarrow> bool" where
  "holding B s \<longleftrightarrow> finite (mq_live s) \<and> mset_set (mq_live s) = B + (\<Sum>c\<leftarrow>mq_queue s. blocks c) \<and>
     (\<forall>p \<in> mq_live s. p < mq_fresh s) \<and> \<not> mq_fault s"

lemma holding_cong:
  "mq_live s' = mq_live s \<Longrightarrow> mq_queue s' = mq_queue s \<Longrightarrow> mq_fresh s' = mq_fresh s \<Longrightarrow> mq_fault s' = mq_fault s \<Longrightarrow>
     holding B s' = holding B s"
  by (simp add: holding_def)

lemma holding_frame [simp]:
  "holding B (s\<lparr>mq_calls := n\<rparr>) = holding B s" "holding B (s\<lparr>mq_subs := x\<rparr>) = holding B s"
  "holding B (s\<lparr>mq_msg_id := i\<rparr>) = holding B s" "holding B (s\<lparr>mq_posted := ps\<rparr>) = holding B s"
  "holding B (s\<lparr>mq_connected := b\<rparr>) = holding B s" "holding B (s\<lparr>mq_clean := b\<rparr>) = holding B s"
  "holding B (s\<lparr>mq_keep_alive := b\<rparr>) = holding B s" "holding B (s\<lparr>mq_alive := b\<rparr>) = holding B s"
  "holding B (s\<lparr>mq_connects := bs\<rparr>) = holding B s"
  by (simp_all add: holding_def)

lemma holding_alloc:
  assumes "holding B s"
  shows "mq_alloc env s = (Some p, s1) \<Longrightarrow> holding (add_mset p B) s1" "mq_alloc env s = (None, s1) \<Longrightarrow> holding B s1"
proof -
  have "mq_fresh s \<notin> mq_live s" using assms by (auto simp: holding_def)
  then show "mq_alloc env s = (Some p, s1) \<Longrightarrow> holding (add_mset p B) s1" "mq_alloc env s = (None, s1) \<Longrightarrow> holding B s1"
    using assms by (auto simp: holding_def mq_alloc_def less_Suc_eq split: if_splits)
qed

lemma holding_free:
  assumes "holding B s" "p \<in># B"
  shows "holding (B - {#p#}) (mq_free p s)"
proof -
  have "p \<in># mset_set (mq_live s)" using assms by (auto simp: holding_def)
  then have p: "p \<in> mq_live s" by (cases "finite (mq_live s)") auto
  have "mset_set (mq_live s - {p}) = mset_set (mq_live s) - {#p#}"
    using p assms(1) by (simp add: holding_def mset_set_Diff)
  then show ?thesis using assms p by (auto simp: holding_def mq_free_def)
qed

lemma holding_free_opt:
  assumes "holding (mset_set (set_option p) + B) s"
  shows "holding B (mq_free_opt p s)"
proof (cases p)
  case (Some q)
  then show ?thesis using assms holding_free [of "add_mset q B" s q] by (simp add: mq_free_opt_def)
qed (use assms in \<open>simp add: mq_free_opt_def\<close>)

lemma holding_free1: "holding (add_mset p B) s \<Longrightarrow> holding B (mq_free p s)"
  using holding_free [of "add_mset p B" s p] by simp

lemma holding_free_payload: "holding (payload_blocks pl + B) s \<Longrightarrow> holding B (prvFreeCommandPayload pl s)"
proof (cases pl)
  case (Publish_payload info topic data)
  assume "holding (payload_blocks pl + B) s"
  then have "holding (mset_set (set_option topic) + (mset_set (set_option data) + add_mset info B)) s"
    by (simp add: Publish_payload payload_blocks_def ac_simps)
  then show ?thesis
    by (simp add: Publish_payload prvFreeCommandPayload_def holding_free_opt holding_free1)
next
  case (Subscribe_payload args info filt)
  assume "holding (payload_blocks pl + B) s"
  then have "holding (add_mset filt (add_mset info (add_mset args B))) s"
    by (simp add: Subscribe_payload payload_blocks_def add_mset_commute)
  then show ?thesis by (simp add: Subscribe_payload prvFreeCommandPayload_def holding_free1)
qed

lemma holding_free_context: "holding (blocks c + B) s \<Longrightarrow> holding B (prvFreeCommandContext c s)"
proof -
  assume "holding (blocks c + B) s"
  then have "holding (payload_blocks (cc_payload c) + (mset_set (set_option (cc_info c)) + add_mset (cc_addr c) B)) s"
    by (simp add: blocks_def ac_simps)
  then show ?thesis
    by (simp add: prvFreeCommandContext_def holding_free_payload holding_free_opt holding_free1)
qed

lemma holding_make_command:
  assumes "holding (payload_blocks pl + B) s"
  shows "make_command env i req pl ev ch s = (Some c, s1) \<Longrightarrow> holding (blocks c + B) s1 \<and> cc_request c = req \<and> cc_event c = ev
      \<and> mq_subs s1 = mq_subs s \<and> mq_queue s1 = mq_queue s"
    "make_command env i req pl ev ch s = (None, s1) \<Longrightarrow> holding B s1"
proof -
  obtain r1 s2 where a1: "mq_alloc env s = (r1, s2)" by fastforce
  have frame: "mq_subs t1 = mq_subs t \<and> mq_queue t1 = mq_queue t" if "mq_alloc env t = (x, t1)" for x t t1
    using that by (auto simp: mq_alloc_def split: if_splits)
  have *: "(case make_command env i req pl ev ch s of (None, s1) \<Rightarrow> holding B s1
    | (Some c, s1) \<Rightarrow> holding (blocks c + B) s1 \<and> cc_request c = req \<and> cc_event c = ev \<and> mq_subs s1 = mq_subs s \<and> mq_queue s1 = mq_queue s)"
  proof (cases r1)
    case None
    then show ?thesis
      using holding_alloc(2) [OF assms a1 [unfolded None]] a1
      by (simp add: make_command_def prvGetCommandContext_def holding_free_payload)
  next
    case (Some p)
    have h2: "holding (add_mset p (payload_blocks pl + B)) s2" using holding_alloc(1) [OF assms] a1 Some by simp
    obtain r2 s3 where a2: "mq_alloc env s2 = (r2, s3)" by fastforce
    show ?thesis
    proof (cases r2)
      case None
      let ?c = "\<lparr>cc_addr = p, cc_request = req, cc_payload = pl, cc_msg_id = i, cc_info = None, cc_event = ev,
        cc_channel = (case ch of None \<Rightarrow> no_channel | Some c \<Rightarrow> c)\<rparr>"
      have "holding (blocks ?c + B) s3" using holding_alloc(2) [OF h2] a2 None by (simp add: blocks_def)
      then show ?thesis
        using a1 a2 Some None by (simp add: make_command_def prvGetCommandContext_def holding_free_context)
    next
      case r2: (Some q)
      have "holding (add_mset q (add_mset p (payload_blocks pl + B))) s3" using holding_alloc(1) [OF h2] a2 r2 by simp
      then show ?thesis
        using a1 a2 Some r2 frame [OF a1] frame [OF a2]
        by (simp add: make_command_def prvGetCommandContext_def blocks_def add_mset_commute)
    qed
  qed
  show "make_command env i req pl ev ch s = (Some c, s1) \<Longrightarrow> holding (blocks c + B) s1 \<and> cc_request c = req \<and> cc_event c = ev
      \<and> mq_subs s1 = mq_subs s \<and> mq_queue s1 = mq_queue s"
    "make_command env i req pl ev ch s = (None, s1) \<Longrightarrow> holding B s1"
    using * by (simp_all split: prod.splits option.splits)
qed

lemma holding_status [simp]: "holding B (snd (mq_status env s)) = holding B s"
  by (simp add: mq_status_def)

lemma holding_enqueue: "holding (blocks c + B) s \<Longrightarrow> holding B (s\<lparr>mq_queue := mq_queue s @ [c]\<rparr>)"
  by (simp add: holding_def ac_simps)

lemma holding_subscribe_args:
  assumes "holding {#} s"
  shows "subscribe_args env s = (Some pl, s1) \<Longrightarrow> holding (payload_blocks pl) s1 \<and> mq_subs s1 = mq_subs s \<and> mq_queue s1 = mq_queue s"
    "subscribe_args env s = (None, s1) \<Longrightarrow> holding {#} s1"
proof -
  have frame: "mq_subs t1 = mq_subs t \<and> mq_queue t1 = mq_queue t" if "mq_alloc env t = (x, t1)" for x t t1
    using that by (auto simp: mq_alloc_def split: if_splits)
  obtain a1 s1 where e1: "mq_alloc env s = (a1, s1)" by fastforce
  obtain a2 s2 where e2: "mq_alloc env s1 = (a2, s2)" by fastforce
  obtain a3 s3 where e3: "mq_alloc env s2 = (a3, s3)" by fastforce
  have "(case subscribe_args env s of (None, t) \<Rightarrow> holding {#} t
    | (Some pl, t) \<Rightarrow> holding (payload_blocks pl) t \<and> mq_subs t = mq_subs s \<and> mq_queue t = mq_queue s)"
  proof (cases a1)
    case None
    then show ?thesis using holding_alloc(2) [OF assms] e1 by (simp add: subscribe_args_def)
  next
    case (Some info)
    then have h1: "holding {#info#} s1" using holding_alloc(1) [OF assms] e1 by simp
    show ?thesis
    proof (cases a2)
      case None
      then have "holding {#info#} s2" using holding_alloc(2) [OF h1] e2 by simp
      then show ?thesis using e1 e2 Some None by (simp add: subscribe_args_def holding_free1)
    next
      case a2: (Some filt)
      then have h2: "holding (add_mset filt {#info#}) s2" using holding_alloc(1) [OF h1] e2 by simp
      show ?thesis
      proof (cases a3)
        case None
        then have "holding (add_mset filt {#info#}) s3" using holding_alloc(2) [OF h2] e3 by simp
        then show ?thesis using e1 e2 e3 Some a2 None by (simp add: subscribe_args_def holding_free1)
      next
        case a3: (Some args)
        then have "holding (add_mset args (add_mset filt {#info#})) s3" using holding_alloc(1) [OF h2] e3 by simp
        then show ?thesis
          using e1 e2 e3 Some a2 a3 frame [OF e1] frame [OF e2] frame [OF e3]
          by (simp add: subscribe_args_def payload_blocks_def add_mset_commute)
      qed
    qed
  qed
  then show "subscribe_args env s = (Some pl, s1) \<Longrightarrow> holding (payload_blocks pl) s1 \<and> mq_subs s1 = mq_subs s \<and> mq_queue s1 = mq_queue s"
    "subscribe_args env s = (None, s1) \<Longrightarrow> holding {#} s1" for pl s1
    by (simp_all split: prod.splits option.splits)
qed

lemma holding_publish:
  assumes "holding {#} s"
  shows "holding {#} (snd (mqtt_publish env ch topic n data q retain s))"
proof (cases "topic = None \<or> n = 0 \<or> \<not> mq_connected s")
  case True
  then show ?thesis using assms by (auto simp: mqtt_publish_def split: option.splits)
next
  case False
  then obtain t where t: "topic = Some t" "n \<noteq> 0" "mq_connected s" by auto
  let ?s0 = "s\<lparr>mq_msg_id := mq_msg_id s + 1\<rparr>"
  have h0: "holding {#} ?s0" using assms by simp
  obtain a1 s1 where e1: "mq_alloc env ?s0 = (a1, s1)" by fastforce
  show ?thesis
  proof (cases a1)
    case None
    then show ?thesis using t e1 holding_alloc(2) [OF h0] by (simp add: mqtt_publish_def Let_def)
  next
    case a1: (Some info)
    then have h1: "holding {#info#} s1" using holding_alloc(1) [OF h0] e1 by simp
    obtain ok pd s2 where e2: "publish_data env data s1 = (ok, pd, s2)" by (cases "publish_data env data s1") auto
    have h2: "if ok then holding (mset_set (set_option pd) + {#info#}) s2 else holding {#info#} s2"
    proof (cases "data = None \<or> data = Some []")
      case True
      then show ?thesis using e2 h1 by (auto simp: publish_data_def)
    next
      case False
      obtain p s2' where a: "mq_alloc env s1 = (p, s2')" by fastforce
      then have r: "ok = (p \<noteq> None)" "pd = p" "s2 = s2'" using e2 False by (auto simp: publish_data_def split: option.splits)
      show ?thesis using holding_alloc [OF h1] a unfolding r by (cases p) (simp_all add: add_mset_commute)
    qed
    show ?thesis
    proof (cases ok)
      case False
      then show ?thesis using t e1 a1 e2 h2 by (simp add: mqtt_publish_def Let_def holding_free1)
    next
      case ok: True
      then have h2: "holding (mset_set (set_option pd) + {#info#}) s2" using h2 by simp
      obtain a3 s3 where e3: "mq_alloc env s2 = (a3, s3)" by fastforce
      show ?thesis
      proof (cases a3)
        case None
        have "holding (payload_blocks (Publish_payload info None pd) + {#}) s3"
          using holding_alloc(2) [OF h2] e3 None by (simp add: payload_blocks_def ac_simps)
        then show ?thesis
          using t e1 a1 e2 ok e3 None by (simp add: mqtt_publish_def Let_def holding_free_payload)
      next
        case a3: (Some pt)
        let ?pl = "Publish_payload info (Some pt) pd"
        let ?req = "Publish_request (strndup t n) data q retain"
        have h3: "holding (payload_blocks ?pl + {#}) s3"
          using holding_alloc(1) [OF h2, of env pt s3] e3 a3 by (simp add: payload_blocks_def add_mset_commute)
        obtain c s4 where e4: "make_command env (mq_msg_id s + 1) ?req ?pl Published_event ch s3 = (c, s4)" by fastforce
        show ?thesis
        proof (cases c)
          case None
          then show ?thesis
            using t e1 a1 e2 ok e3 a3 e4 holding_make_command(2) [OF h3] by (simp add: mqtt_publish_def Let_def)
        next
          case (Some cc)
          obtain st s5 where e5: "mq_status env s4 = (st, s5)" by fastforce
          have h5: "holding (blocks cc + {#}) s5"
            using holding_make_command(1) [OF h3] e4 Some holding_status [of "blocks cc + {#}" env s4] e5 by simp
          then show ?thesis
            using e5 t e1 a1 e2 ok e3 a3 e4 Some
            by (simp add: mqtt_publish_def Let_def holding_free_context [OF h5] holding_enqueue [OF h5])
        qed
      qed
    qed
  qed
qed

lemma holding_subscribe:
  assumes "holding {#} s"
  shows "holding {#} (snd (mqtt_subscribe env ch topic n cb q priv s))"
proof (cases "topic = None \<or> n = 0 \<or> \<not> mq_connected s")
  case True
  then show ?thesis using assms by (auto simp: mqtt_subscribe_def split: option.splits)
next
  case False
  then obtain t where t: "topic = Some t" "n \<noteq> 0" "mq_connected s" by auto
  let ?s0 = "s\<lparr>mq_msg_id := mq_msg_id s + 1\<rparr>"
  have h0: "holding {#} ?s0" using assms by simp
  obtain a s1 where e1: "subscribe_args env ?s0 = (a, s1)" by fastforce
  show ?thesis
  proof (cases a)
    case None
    then show ?thesis using t e1 holding_subscribe_args(2) [OF h0] by (simp add: mqtt_subscribe_def Let_def)
  next
    case a: (Some pl)
    then have h1: "holding (payload_blocks pl + {#}) s1" using holding_subscribe_args(1) [OF h0] e1 by simp
    obtain c s2 where e2: "make_command env (mq_msg_id s + 1) (Subscribe_request (strndup t n) q) pl Subscribed_event ch s1 = (c, s2)"
      by fastforce
    show ?thesis
    proof (cases c)
      case None
      then show ?thesis
        using t e1 a e2 holding_make_command(2) [OF h1] by (simp add: mqtt_subscribe_def Let_def)
    next
      case (Some cc)
      have h2: "holding (blocks cc + {#}) s2" using holding_make_command(1) [OF h1] e2 Some by blast

      show ?thesis
        using t e1 a e2 Some h2
        by (auto simp: mqtt_subscribe_def Let_def case_prod_beta
            intro!: holding_free_context [where c = cc] holding_enqueue [where c = cc])
    qed
  qed
qed

lemma holding_unsubscribe:
  assumes "holding {#} s"
  shows "holding {#} (snd (mqtt_unsubscribe env ch topic n q s))"
proof (cases "topic = None \<or> n = 0 \<or> \<not> mq_connected s")
  case True
  then show ?thesis using assms by (auto simp: mqtt_unsubscribe_def split: option.splits)
next
  case False
  then obtain t where t: "topic = Some t" "n \<noteq> 0" "mq_connected s" by auto
  let ?s0 = "s\<lparr>mq_msg_id := mq_msg_id s + 1\<rparr>"
  have h0: "holding {#} ?s0" using assms by simp
  obtain a s1 where e1: "subscribe_args env ?s0 = (a, s1)" by fastforce
  show ?thesis
  proof (cases a)
    case None
    then show ?thesis using t e1 holding_subscribe_args(2) [OF h0] by (simp add: mqtt_unsubscribe_def Let_def)
  next
    case a: (Some pl)
    then have h1: "holding (payload_blocks pl + {#}) s1" using holding_subscribe_args(1) [OF h0] e1 by simp
    obtain c s2 where e2: "make_command env (mq_msg_id s + 1) (Unsubscribe_request (strndup t n) q) pl Unsubscribed_event ch s1 = (c, s2)"
      by fastforce
    show ?thesis
    proof (cases c)
      case None
      then show ?thesis
        using t e1 a e2 holding_make_command(2) [OF h1] by (simp add: mqtt_unsubscribe_def Let_def)
    next
      case (Some cc)
      then have h2: "holding (blocks cc + {#}) (snd (mq_status env s2))"
        using holding_make_command(1) [OF h1] e2 by (simp add: holding_status)
      have "holding {#} ((snd (mq_status env s2))\<lparr>mq_queue := mq_queue (snd (mq_status env s2)) @ [cc], mq_subs := x\<rparr>)" for x
        using holding_enqueue [OF h2] by simp
      then show ?thesis
        using t e1 a e2 Some h2
        by (auto simp: mqtt_unsubscribe_def Let_def case_prod_beta intro: holding_free_context)
    qed
  qed
qed

lemma holding_complete:
  assumes "holding {#} s"
  shows "holding {#} (complete_command i st s)"
proof (cases "i < length (mq_queue s)")
  case True
  let ?c = "mq_queue s ! i" and ?q = "take i (mq_queue s) @ drop (Suc i) (mq_queue s)"
  have e: "mq_queue s = take i (mq_queue s) @ ?c # drop (Suc i) (mq_queue s)" using True by (simp add: id_take_nth_drop)
  have "(\<Sum>c\<leftarrow>mq_queue s. blocks c) = blocks ?c + (\<Sum>c\<leftarrow>?q. blocks c)"
    using arg_cong [OF e, of "\<lambda>q. \<Sum>c\<leftarrow>q. blocks c"] by (simp add: ac_simps)
  then have "holding (blocks ?c + {#}) (s\<lparr>mq_queue := ?q, mq_posted := x\<rparr>)" for x
    using assms by (simp add: holding_def)
  then show ?thesis
    using True by (simp add: complete_command_def prvOnCompleteCommandCallback_def holding_free_context)
qed (use assms in \<open>simp add: complete_command_def\<close>)

lemma holding_cancel_all: "holding {#} s \<Longrightarrow> holding {#} (cancel_all env n s)"
  by (induction n arbitrary: s) (simp_all add: holding_complete)

lemma holding_resubscribe: "holding {#} s \<Longrightarrow> holding {#} (resubscribe_all env es s)"
  by (induction es arbitrary: s) (simp_all add: holding_subscribe)

lemma holding_resubscribe_or_clear: "holding {#} s \<Longrightarrow> holding {#} (resubscribe_or_clear env s)"
  by (simp add: resubscribe_or_clear_def holding_resubscribe)

lemma holding_agent_connect: "holding {#} s \<Longrightarrow> holding {#} (snd (prvCoreMqttAgentConnect env clean s))"
  by (simp add: prvCoreMqttAgentConnect_def Let_def case_prod_beta mq_status_def holding_resubscribe_or_clear)

lemma mqtt_act_holding: "holding {#} s \<Longrightarrow> holding {#} (mqtt_act env a s)"
  by (cases a) (simp_all add: holding_publish holding_subscribe holding_unsubscribe holding_complete
      prvIncomingPublishCallback_def agent_start_def command_loop_ends_def holding_cancel_all agent_connect_attempt_def
      holding_agent_connect agent_exit_def mqtt_connect_def mqtt_disconnect_def mqtt_force_reconnect_def mqtt_drop_def
      mq_status_def Let_def case_prod_beta)

lemma mqtt_run_holding: "holding {#} s \<Longrightarrow> holding {#} (mqtt_run env as s)"
  unfolding mqtt_run_def by (induction as arbitrary: s) (simp_all add: mqtt_act_holding)

section \<open>Properties\<close>

definition mqtt_boot :: "subs \<Rightarrow> bool option \<Rightarrow> mqtt_sys" where
  "mqtt_boot subs clean = \<lparr>mq_subs = subs, mq_connected = False, mq_clean = False, mq_keep_alive = False, mq_alive = False,
     mq_params_clean = clean, mq_msg_id = 0, mq_live = {}, mq_fresh = 0, mq_calls = 0, mq_queue = [], mq_posted = [],
     mq_connects = [], mq_fault = False\<rparr>"

text \<open>C6: the memory of MQTT commands has one owner. After any sequence of requests, completions, connections,
disconnections and exits of the agent task, with any allocations and library calls failing: no block was freed
twice, and the live blocks are exactly the blocks of the commands the agent still has, each in one command once; so
nothing leaks on an error path, and nothing is left when no command is.\<close>

theorem mqtt_memory_has_one_owner:
  "\<not> mq_fault (mqtt_run env as (mqtt_boot subs clean))
    \<and> mset_set (mq_live (mqtt_run env as (mqtt_boot subs clean))) = (\<Sum>c\<leftarrow>mq_queue (mqtt_run env as (mqtt_boot subs clean)). blocks c)"
proof -
  have "holding {#} (mqtt_boot subs clean)" by (simp add: holding_def mqtt_boot_def)
  from mqtt_run_holding [OF this] show ?thesis by (simp add: holding_def)
qed

lemma make_command_ok:
  assumes "\<And>n. qe_alloc env n"
  shows "\<exists>c s1. make_command env i req pl ev ch s = (Some c, s1) \<and> cc_request c = req \<and> cc_event c = ev \<and> cc_msg_id c = i
    \<and> mq_subs s1 = mq_subs s \<and> mq_queue s1 = mq_queue s"
  using assms by (simp add: make_command_def prvGetCommandContext_def mq_alloc_def)

lemma subscribe_args_ok:
  assumes "\<And>n. qe_alloc env n"
  shows "\<exists>pl s1. subscribe_args env s = (Some pl, s1) \<and> mq_subs s1 = mq_subs s \<and> mq_queue s1 = mq_queue s"
  using assms by (simp add: subscribe_args_def mq_alloc_def)

lemma free_frame [simp]:
  "mq_subs (mq_free p s) = mq_subs s" "mq_queue (mq_free p s) = mq_queue s"
  "mq_subs (mq_free_opt q s) = mq_subs s" "mq_queue (mq_free_opt q s) = mq_queue s"
  "mq_subs (prvFreeCommandPayload pl s) = mq_subs s" "mq_queue (prvFreeCommandPayload pl s) = mq_queue s"
  "mq_subs (prvFreeCommandContext c s) = mq_subs s" "mq_queue (prvFreeCommandContext c s) = mq_queue s"
  by (simp_all add: mq_free_def mq_free_opt_def prvFreeCommandPayload_def prvFreeCommandContext_def
      split: option.splits command_payload.splits)

lemma subscribe_outcome:
  assumes alloc: "\<And>n. qe_alloc env n" and ok: "subs_ok (mq_subs s)" and good: "good_filter flt"
    and sub: "mqtt_subscribe env ch (Some (flt @ [CHR 0x00])) (length flt) (Some cb) q priv s = (r, s1)"
  shows "subs_ok (mq_subs s1)"
    "r = ERR_OK \<Longrightarrow> (flt, Some cb, priv) \<in> sub_keys (mq_subs s1) \<and>
      (\<exists>c. mq_queue s1 = mq_queue s @ [c] \<and> cc_request c = Subscribe_request (flt @ [CHR 0x00]) q \<and> cc_event c = Subscribed_event)"
    "r \<noteq> ERR_OK \<Longrightarrow> sub_keys (mq_subs s1) = sub_keys (mq_subs s) \<and> mq_queue s1 = mq_queue s"
proof -
  let ?k = "(flt, Some cb, priv)"
  have gk: "good_key ?k" using good by (simp add: good_key_def)
  have n: "length flt \<noteq> 0" using good by (simp add: good_filter_def filter_ok_def)
  have "takeWhile (\<lambda>c. c \<noteq> CHR 0x00) flt = flt"
    using good by (auto simp: good_filter_def filter_ok_def takeWhile_eq_all_conv)
  then have d: "strndup (flt @ [CHR 0x00]) (length flt) = flt @ [CHR 0x00]" by (simp add: strndup_def)
  have "subs_ok (mq_subs s1) \<and> (if r = ERR_OK then ?k \<in> sub_keys (mq_subs s1) \<and>
      (\<exists>c. mq_queue s1 = mq_queue s @ [c] \<and> cc_request c = Subscribe_request (flt @ [CHR 0x00]) q \<and> cc_event c = Subscribed_event)
    else sub_keys (mq_subs s1) = sub_keys (mq_subs s) \<and> mq_queue s1 = mq_queue s)"
  proof (cases "mq_connected s")
    case False
    then show ?thesis using sub ok n by (auto simp: mqtt_subscribe_def)
  next
    case True
    let ?s0 = "s\<lparr>mq_msg_id := mq_msg_id s + 1\<rparr>"
    obtain pl s2 where e2: "subscribe_args env ?s0 = (Some pl, s2)" "mq_subs s2 = mq_subs s" "mq_queue s2 = mq_queue s"
      using subscribe_args_ok [OF alloc, of ?s0] by auto
    obtain c s3 where e3: "make_command env (mq_msg_id s + 1) (Subscribe_request (flt @ [CHR 0x00]) q) pl Subscribed_event ch s2 = (Some c, s3)"
        "cc_request c = Subscribe_request (flt @ [CHR 0x00]) q" "cc_event c = Subscribed_event" "mq_subs s3 = mq_subs s2" "mq_queue s3 = mq_queue s2"
      using make_command_ok [OF alloc] by metis
    obtain stored new t where a: "table_add ch q ?k (mq_subs s) = ((stored, new), t)" by (metis prod.collapse)
    note u = table.undo [OF ok gk a] table.add_ok [OF ok gk, of ch q, unfolded a]
    have add: "osal_mqtt_subscription_add_ex True (Some (flt @ [CHR 0x00])) (of_nat (length flt)) ch (Some cb) q priv (mq_subs s) = ((stored, new), t)"
      using a by (simp add: table_add_def)
    have dr: "osal_mqtt_subscription_remove_entry (Some (flt @ [CHR 0x00])) (of_nat (length flt)) (Some cb) priv t = table_drop ?k t"
      by (simp add: table_drop_def)
    show ?thesis
    proof (cases stored)
      case False
      then have "r = ERR_INVALID_STATE" "mq_subs s1 = t" "mq_queue s1 = mq_queue s"
        using sub True n e2 e3 add d alloc by (auto simp: mqtt_subscribe_def Let_def)
      then show ?thesis using u False by simp
    next
      case st: True
      obtain ms s5 where ms: "mq_status env (s3\<lparr>mq_calls := Suc (mq_calls s3), mq_subs := t\<rparr>) = (ms, s5)" by fastforce
      then have s5: "mq_subs s5 = t" "mq_queue s5 = mq_queue s" using e2 e3 by (auto simp: mq_status_def)
      show ?thesis
      proof (cases "ms = MQTTSuccess")
        case True
        then have "r = ERR_OK" "mq_subs s1 = t" "mq_queue s1 = mq_queue s @ [c]"
          using sub \<open>mq_connected s\<close> n e2 e3 add d alloc st ms s5 by (auto simp: mqtt_subscribe_def Let_def)
        then show ?thesis using u st e3 by simp
      next
        case False
        then have "r = mqtt_agent_status_to_os_err ms" "mq_subs s1 = (if new then table_drop ?k t else t)" "mq_queue s1 = mq_queue s"
          using sub \<open>mq_connected s\<close> n e2 e3 add d alloc st ms s5 dr by (auto simp: mqtt_subscribe_def Let_def)
        moreover have "mqtt_agent_status_to_os_err ms \<noteq> ERR_OK"
          using False by (cases ms) (simp_all add: mqtt_agent_status_to_os_err_def)
        ultimately show ?thesis using u st by simp
      qed
    qed
  qed
  then show "subs_ok (mq_subs s1)"
    "r = ERR_OK \<Longrightarrow> ?k \<in> sub_keys (mq_subs s1) \<and>
      (\<exists>c. mq_queue s1 = mq_queue s @ [c] \<and> cc_request c = Subscribe_request (flt @ [CHR 0x00]) q \<and> cc_event c = Subscribed_event)"
    "r \<noteq> ERR_OK \<Longrightarrow> sub_keys (mq_subs s1) = sub_keys (mq_subs s) \<and> mq_queue s1 = mq_queue s"
    by (simp_all split: if_splits)
qed


definition sample_mqtt_env :: mqtt_env where
  "sample_mqtt_env = \<lparr>qe_alloc = \<lambda>_. True, qe_status = \<lambda>_. MQTTSuccess, qe_session_present = \<lambda>_. False, qe_resubscribe = True,
     qe_cancelled = MQTTRecvFailed\<rparr>"

definition sample_mqtt_sys :: mqtt_sys where
  "sample_mqtt_sys = (mqtt_boot \<lparr>sl_list = [empty_element, empty_element], sl_count = 0, sl_mutex = True, sl_fault = False\<rparr> (Some False))
     \<lparr>mq_connected := True\<rparr>"


text \<open>The assignment that should reset the session flag goes to the parameter of the same name.\<close>

lemma clean_frame [simp]:
  "mq_clean (mq_free p s) = mq_clean s" "mq_clean (mq_free_opt q s) = mq_clean s"
  "mq_clean (prvFreeCommandPayload pl s) = mq_clean s" "mq_clean (prvFreeCommandContext c s) = mq_clean s"
  "mq_connects (mq_free p s) = mq_connects s" "mq_connects (mq_free_opt q s) = mq_connects s"
  "mq_connects (prvFreeCommandPayload pl s) = mq_connects s" "mq_connects (prvFreeCommandContext c s) = mq_connects s"
  by (simp_all add: mq_free_def mq_free_opt_def prvFreeCommandPayload_def prvFreeCommandContext_def
      split: option.splits command_payload.splits)

definition same_session :: "mqtt_sys \<Rightarrow> mqtt_sys \<Rightarrow> bool" where
  "same_session s s' \<longleftrightarrow> mq_clean s' = mq_clean s \<and> mq_connects s' = mq_connects s"

lemma session_alloc: "mq_alloc env s = (x, s1) \<Longrightarrow> same_session s s1"
  by (auto simp: same_session_def mq_alloc_def split: if_splits)

lemma session_status: "mq_status env s = (x, s1) \<Longrightarrow> same_session s s1"
  by (auto simp: same_session_def mq_status_def)

lemma session_data: "publish_data env data s = (b, p, s1) \<Longrightarrow> same_session s s1"
  by (auto simp: publish_data_def same_session_def mq_alloc_def split: option.splits if_splits)

lemma session_args: "subscribe_args env s = (x, s1) \<Longrightarrow> same_session s s1"
  by (auto simp: subscribe_args_def same_session_def mq_alloc_def split: option.splits if_splits)

lemma session_command: "make_command env i req pl ev ch s = (x, s1) \<Longrightarrow> same_session s s1"
  by (auto simp: make_command_def prvGetCommandContext_def same_session_def mq_alloc_def split: option.splits if_splits)

lemmas session_dests = session_alloc session_status session_data session_args session_command

lemma session_publish: "same_session s (snd (mqtt_publish env ch topic n data q retain s))"
  by (auto simp: mqtt_publish_def Let_def split: option.splits if_splits prod.splits bool.splits dest!: session_dests)
    (auto simp: same_session_def)

lemma session_subscribe: "same_session s (snd (mqtt_subscribe env ch topic n cb q priv s))"
  by (auto simp: mqtt_subscribe_def Let_def split: option.splits if_splits prod.splits dest!: session_dests)
    (auto simp: same_session_def)

lemma session_unsubscribe: "same_session s (snd (mqtt_unsubscribe env ch topic n q s))"
  by (auto simp: mqtt_unsubscribe_def Let_def split: option.splits if_splits prod.splits dest!: session_dests)
    (auto simp: same_session_def)

lemma session_complete: "same_session s (complete_command i st s)"
  by (simp add: same_session_def complete_command_def prvOnCompleteCommandCallback_def)

lemma session_cancel_all: "same_session s (cancel_all env n s)"
proof (induction n arbitrary: s)
  case (Suc n)
  then show ?case using session_complete [of s 0 "qe_cancelled env"] by (simp add: same_session_def)
qed (simp add: same_session_def)

lemma session_resubscribe: "same_session s (resubscribe_all env es s)"
proof (induction es arbitrary: s)
  case (Cons e es)
  have "same_session s (snd (mqtt_subscribe env (Some (se_channel e)) (se_filter e) (unat (se_len e)) (se_callback e) (se_qos e) (se_priv e) s))"
    by (rule session_subscribe)
  then show ?case using Cons.IH by (simp add: same_session_def)
qed (simp add: same_session_def)

lemma connect_session:
  "mq_clean (snd (prvCoreMqttAgentConnect env b s)) = mq_clean s
     \<and> mq_connects (snd (prvCoreMqttAgentConnect env b s)) = mq_connects s @ [b]"
proof -
  have r: "mq_clean (resubscribe_or_clear env t) = mq_clean t \<and> mq_connects (resubscribe_or_clear env t) = mq_connects t" for t
    using session_resubscribe [of t env] by (simp add: resubscribe_or_clear_def same_session_def)
  show ?thesis by (simp add: prvCoreMqttAgentConnect_def Let_def case_prod_beta mq_status_def r)
qed

lemma forced_clean_step:
  assumes "mq_clean s" "a \<noteq> Do_start"
  shows "mq_clean (mqtt_act env a s) \<and> (\<exists>k. mq_connects (mqtt_act env a s) = mq_connects s @ replicate k True)"
proof -
  have same: "mq_clean t \<and> (\<exists>k. mq_connects t = mq_connects s @ replicate k True)" if "same_session s t" for t
    using that assms(1) by (auto simp: same_session_def intro: exI [of _ 0])
  show ?thesis
  proof (cases a)
    case (Do_attempt tls)
    then show ?thesis using connect_session [of env "mq_clean s" s] assms(1)
      by (cases tls) (auto simp: agent_connect_attempt_def intro: exI [of _ 0] exI [of _ 1])
  next
    case (Do_loop_ends st still)
    then show ?thesis
      using session_cancel_all [of "s\<lparr>mq_connected := False, mq_posted := mq_posted s @ [(Disconnected_event, 0, MQTTSuccess, no_channel)]\<rparr>"
          env "length (mq_queue s)"]
      by (intro same) (simp add: command_loop_ends_def same_session_def)
  next
    case Do_exit
    then show ?thesis using session_cancel_all [of s env "length (mq_queue s)"]
      by (intro same) (simp add: agent_exit_def same_session_def)
  next
    case Do_force_reconnect
    then show ?thesis
      by (simp add: mqtt_force_reconnect_def mq_status_def Let_def)
  qed (use assms in \<open>auto intro!: same session_publish session_subscribe session_unsubscribe session_complete
        simp: prvIncomingPublishCallback_def mqtt_connect_def mqtt_disconnect_def mqtt_drop_def mq_status_def same_session_def
          Let_def case_prod_beta\<close>)
qed

text \<open>C40: one forced reconnect makes every later session a clean one. After \<^verbatim>\<open>force_reconnect\<close>, whatever is
requested, completed, connected or disconnected, every connection requested until the agent task is started again
asks the broker to drop the session, also after the forced one succeeded and although the connection parameters ask
for persistent sessions.\<close>

theorem mqtt_forced_clean_session_stays:
  assumes "Do_start \<notin> set as"
  shows "\<exists>k. mq_connects (mqtt_run env (Do_force_reconnect # as) s) = mq_connects s @ replicate k True"
proof -
  have "\<exists>k. mq_connects (mqtt_run env as t) = mq_connects t @ replicate k True" if "mq_clean t" "Do_start \<notin> set as" for t as
    using that
  proof (induction as arbitrary: t)
    case (Cons a as)
    have "mq_clean (mqtt_act env a t)" and "\<exists>k. mq_connects (mqtt_act env a t) = mq_connects t @ replicate k True"
      using forced_clean_step [OF Cons.prems(1), of a env] Cons.prems(2) by auto
    moreover from this(1) have "\<exists>k. mq_connects (mqtt_run env as (mqtt_act env a t)) = mq_connects (mqtt_act env a t) @ replicate k True"
      using Cons by simp
    ultimately show ?case by (auto simp: mqtt_run_def replicate_add [symmetric])
  qed (auto simp: mqtt_run_def intro: exI [of _ 0])
  from this [of "mqtt_act env Do_force_reconnect s" as] assms
  show ?thesis by (simp add: mqtt_run_def mqtt_force_reconnect_def mq_status_def Let_def)
qed

theorem mqtt_forced_clean_session_stays_witness:
  "\<exists>k. mq_connects (mqtt_run sample_mqtt_env [Do_force_reconnect, Do_attempt True, Do_loop_ends MQTTRecvFailed False, Do_attempt True] sample_mqtt_sys)
    = replicate k True"
  using mqtt_forced_clean_session_stays [of "[Do_attempt True, Do_loop_ends MQTTRecvFailed False, Do_attempt True]" sample_mqtt_env sample_mqtt_sys]
  by (simp add: sample_mqtt_sys_def mqtt_boot_def del: mqtt_act.simps)

text \<open>The table is subscribed again before the client counts as connected, so every one of these subscriptions is
refused.\<close>

lemma resubscribe_is_refused: "\<not> mq_connected s \<Longrightarrow> resubscribe_all env es s = s"
proof (induction es arbitrary: s)
  case (Cons e es)
  then show ?case by (simp add: mqtt_subscribe_def split: option.splits)
qed simp

lemma connect_resubscribes_nothing:
  assumes "\<not> mq_connected s" "qe_resubscribe env" "qe_status env (mq_calls s) = MQTTSuccess"
  shows "mq_queue (snd (prvCoreMqttAgentConnect env True s)) = mq_queue s"
  using assms by (simp add: prvCoreMqttAgentConnect_def mq_status_def Let_def resubscribe_or_clear_def resubscribe_is_refused)

text \<open>A session that could not be resumed is reported as connected.\<close>

lemma failed_resume_is_connected:
  assumes "qe_status env (mq_calls s) = MQTTSuccess" "qe_status env (Suc (mq_calls s)) \<noteq> MQTTSuccess"
  shows "mq_connected (snd (prvCoreMqttAgentConnect env False s)) \<and> fst (prvCoreMqttAgentConnect env False s) \<noteq> MQTTSuccess"
  using assms by (simp add: prvCoreMqttAgentConnect_def mq_status_def Let_def)

end
