(* ===== verification/Spec2Isabelle.thy ===== *)
theory Spec2Isabelle
  imports Prelude Osal_Queue Work_Queue Sched_Virtual Backoff Backoff_Concurrent Trigger_Codec
     Ota_Types Ota_Events Ota_Job_Doc Ota_Fsm Ota_Engine Ota_Memory Ota_Recovery Ota_Contract
     Ota_Status Ota_Bitmap Kv_Store Posix_Storage Storage_Map Storage_Reliable Nvs Ota_Nvs Ota_Image
     Ota_Filetype Ota_Download Mqtt_Topic Mqtt_Subs Mqtt_Core
begin

text \<open>A verification library for the RainMaker Neo firmware: the parts of the C code under
\<^verbatim>\<open>src/components\<close> that carry its own logic, translated function by function, with the theorems that make
them correct. C enumerations are datatypes, structs are records, fixed-width integers are words, error
codes are the constructors of \<^verbatim>\<open>err\<close> (theory Prelude), and a function with side effects takes the globals of
its file and returns them. Loops that the code bounds are structural or measured recursions; loops whose end
needs an argument carry fuel or a step relation, and the theorems that they end say how much is enough.
Answers of code outside the repository (libraries, flash, radio, user callbacks, allocation) are parameters:
functions of the number of calls made so far, so that every sequence of answers is covered.

The parts, bottom up.

\<^item> Prelude: machine types, error codes, copies into byte buffers, outcomes of loops, shared lemmas.

\<^item> Osal_Queue (\<^verbatim>\<open>osal/platform\<close>, POSIX): the blocking ring-buffer queue. It refines a bounded list; the waiting
loop of a receive without a time limit only ends with an item.

\<^item> Work_Queue (\<^verbatim>\<open>esp_rmaker_neo_common\<close>): the single worker task on that queue. Tasks run in the order they were
added; stopping ends the worker, and strands what was added late.

\<^item> Sched_Virtual (\<^verbatim>\<open>osal/platform\<close>): the virtual-time scheduler. Due tasks are collected and run, one-shot tasks once;
a task cancelled by an earlier one of its batch still runs, and a periodic task can keep the loop from ending.

\<^item> Backoff and Backoff_Concurrent (\<^verbatim>\<open>esp_rmaker_neo_common\<close>): retry with exponential delay over that scheduler,
alone and with its operations interleaved at the points where the code releases its lock.

\<^item> Trigger_Codec (\<^verbatim>\<open>esp_rmaker_neo/src/util\<close>): the binary encoding of automation triggers, with the round trip
and the safety of the decoder on arbitrary bytes.

\<^item> Ota_Types, Ota_Events, Ota_Job_Doc, Ota_Fsm, Ota_Engine (\<^verbatim>\<open>esp_rmaker_neo_ota/src/ota_jobs.c\<close> and the files it
calls): the over-the-air update engine. Types holds its data and every global; Events the event objects with
their static pool and the hand-over to the work queue; Job\_Doc the parsing of job documents and lists; Fsm one
definition per state handler; Engine the API, the callbacks, the retry tasks and the step relation in which all
of them run in any order. Ota_Memory proves that no reachable state has used an event object wrongly;
Ota_Recovery follows the engine over several tasks; Ota_Contract holds what the engine promises its callers, and
where it breaks that.

\<^item> Ota_Status (\<^verbatim>\<open>esp_rmaker_neo_ota/src/ota_status.c\<close>): the cache of job status updates. A terminal update is
kept, with consistent counts and versions, until its own response; a timer task can outlive its entry.

\<^item> Ota_Bitmap (\<^verbatim>\<open>esp_rmaker_neo_ota/src/image\<close>): the bitmap of awaited blocks and the choice of the next
request from it, decoded by the rule of the file streams service.

\<^item> Kv_Store, Posix_Storage, Storage_Map, Storage_Reliable (\<^verbatim>\<open>osal/storage\<close>): the key-value storage. Kv\_Store holds
the interface, its specification on maps and two contracts as locales: for a storage that may fail, and for one
that does not. Posix\_Storage models the implementation on files, with system calls that fail and a process
that dies; Storage\_Map and Storage\_Reliable prove the contracts for it by interpretation.

\<^item> Nvs (\<^verbatim>\<open>esp_rmaker_neo_common/src/util/nvs.c\<close>) and Ota_Nvs (\<^verbatim>\<open>esp_rmaker_neo_ota/src/ota_nvs.c\<close>): typed access over
that interface, with lemmas inside the locales, and what the update engine keeps over a reboot. The namespace
keeps its layout under any failures; a saved download state is loaded as it was.

\<^item> Mqtt_Topic, Mqtt_Subs, Mqtt_Core (\<^verbatim>\<open>osal/mqtt/src\<close>): the MQTT client. Topic proves the matcher equal to the
rules of MQTT on levels; Subs the subscription table a bounded set of subscriptions, and states the contract the
client relies on as a locale, interpreted on the table; Core models requests, completions, the connection and the
agent task, with the ownership of every block.

A configuration with the defaults of the Kconfig files is modelled. Not modelled: code that mostly calls
libraries (MQTT, HTTP, TLS, JSON generation, protobuf, cryptography), platform glue, generated code, tests,
examples and tools; the manifest lists these parts with the reason for each.\<close>

end
